(* ===== verification/Prelude.thy ===== *)
theory Prelude
  imports Main "HOL-Library.Word" "HOL-Library.While_Combinator"
begin

unbundle bit_operations_syntax

text \<open>
  Shared vocabulary of the development.

  \<^item> Machine integers: the C types of \<^verbatim>\<open>UTILL/stdint.h\<close> as words of their width.
  \<^item> Results: a C function that can fail to return is a HOL function from states to
    \<open>('a, 's) res\<close>; \<open>Ret v s\<close> is a normal return, \<open>Panic s\<close> is \<open>kernel_panic\<close> (which halts the
    machine in state \<open>s\<close>), \<open>Fault\<close> is an access outside the object it is meant for (a null pointer,
    an index out of bounds, a page that is not mapped) and \<open>Hang\<close> is a loop that never ends.
  \<^item> Loops: \<open>loop\<close> is a C \<^verbatim>\<open>while\<close> whose body may fail; it is total, and not ending is
    the value \<open>Hang\<close>.
  \<^item> Byte memory: little-endian loads and stores on \<open>u32 \<Rightarrow> u8\<close>, and the block store
    \<open>store_bytes\<close> that loops over buffers are shown equal to.
\<close>

section \<open>Types and results\<close>

type_synonym u8 = "8 word"
type_synonym u16 = "16 word"
type_synonym u32 = "32 word"
type_synonym bytes = "8 word list"
type_synonym memory = "u32 \<Rightarrow> u8"

datatype ('a, 's) res = Ret 'a 's | Panic 's | Fault | Hang

fun bind :: "('a, 's) res \<Rightarrow> ('a \<Rightarrow> 's \<Rightarrow> ('b, 's) res) \<Rightarrow> ('b, 's) res" where
  "bind (Ret v s) f = f v s"
| "bind (Panic s) f = Panic s"
| "bind Fault f = Fault"
| "bind Hang f = Hang"

named_theorems frame_simps \<open>what an operation leaves unchanged\<close>
named_theorems u_simps \<open>words as natural numbers\<close>

lemma bind_Ret_iff:
  "bind r f = Ret v t \<longleftrightarrow> (\<exists>w u. r = Ret w u \<and> f w u = Ret v t)"
  by (cases r) auto

lemma bind_RetE [elim]:
  assumes "bind r f = Ret v t"
  obtains w u where "r = Ret w u" and "f w u = Ret v t"
  using assms by (auto simp: bind_Ret_iff)

lemma bind_assoc: "bind (bind r f) g = bind r (\<lambda>v s. bind (f v s) g)"
  by (cases r) auto

lemma bind_return [simp]: "bind r Ret = r"
  by (cases r) auto

lemma bind_cong [fundef_cong]:
  assumes "r = r'" and "\<And>v s. r' = Ret v s \<Longrightarrow> f v s = g v s"
  shows "bind r f = bind r' g"
  using assms by (cases r') auto

fun res_state :: "('a, 's) res \<Rightarrow> 's option" where
  "res_state (Ret v s) = Some s"
| "res_state (Panic s) = Some s"
| "res_state Fault = None"
| "res_state Hang = None"

text \<open>Partial correctness: a normal return satisfies \<open>Q\<close>.\<close>

definition ensures :: "('a \<Rightarrow> 's \<Rightarrow> bool) \<Rightarrow> ('a, 's) res \<Rightarrow> bool" where
  "ensures Q r \<longleftrightarrow> (\<forall>v t. r = Ret v t \<longrightarrow> Q v t)"

lemma ensuresD: "ensures Q r \<Longrightarrow> r = Ret v t \<Longrightarrow> Q v t"
  by (simp add: ensures_def)

lemma ensures_simps [simp]:
  "ensures Q (Ret v t) \<longleftrightarrow> Q v t" "ensures Q (Panic t)" "ensures Q Fault" "ensures Q Hang"
  by (simp_all add: ensures_def)

lemma ensures_mono: "ensures P r \<Longrightarrow> (\<And>v t. P v t \<Longrightarrow> Q v t) \<Longrightarrow> ensures Q r"
  by (simp add: ensures_def)

lemma ensures_bind:
  assumes "ensures P r" and "\<And>v t. P v t \<Longrightarrow> ensures Q (f v t)"
  shows "ensures Q (bind r f)"
  using assms by (cases r) auto

text \<open>The same for a property of the state alone.\<close>

abbreviation "keeps P r \<equiv> ensures (\<lambda>_. P) r"

lemma keeps_bind: "keeps P r \<Longrightarrow> (\<And>v t. P t \<Longrightarrow> keeps P (f v t)) \<Longrightarrow> keeps P (bind r f)"
  by (rule ensures_bind)

section \<open>Loops\<close>

text \<open>A \<^verbatim>\<open>while\<close> loop with local variables \<open>l\<close> and a body that may fail.\<close>

definition loop ::
  "('l \<Rightarrow> 's \<Rightarrow> bool) \<Rightarrow> ('l \<Rightarrow> 's \<Rightarrow> ('l, 's) res) \<Rightarrow> 'l \<Rightarrow> 's \<Rightarrow> ('l, 's) res" where
  "loop b c l s =
     (case while_option (\<lambda>r. case r of Ret l s \<Rightarrow> b l s | _ \<Rightarrow> False) (\<lambda>r. bind r c) (Ret l s) of
        None \<Rightarrow> Hang | Some r \<Rightarrow> r)"

lemma loop_unfold:
  "loop b c l s = (if b l s then bind (c l s) (loop b c) else Ret l s)"
proof (cases "b l s")
  case True
  show ?thesis
  proof (cases "c l s")
    case (Ret l' s')
    with True show ?thesis
      unfolding loop_def by (subst while_option_unfold) (simp add: loop_def)
  qed (use True in \<open>simp_all add: loop_def while_option_unfold\<close>)
next
  case False
  then show ?thesis unfolding loop_def by (subst while_option_unfold) simp
qed

lemma loop_done [simp]: "\<not> b l s \<Longrightarrow> loop b c l s = Ret l s"
  by (subst loop_unfold) simp

lemma loop_step: "b l s \<Longrightarrow> loop b c l s = bind (c l s) (loop b c)"
  by (subst loop_unfold) simp

text \<open>Total correctness: an invariant the body keeps and a measure it decreases.\<close>

lemma loop_total:
  fixes m :: "'l \<Rightarrow> 's \<Rightarrow> nat"
  assumes "I l s"
    and step: "\<And>l s. I l s \<Longrightarrow> b l s \<Longrightarrow> \<exists>l' s'. c l s = Ret l' s' \<and> I l' s' \<and> m l' s' < m l s"
  shows "\<exists>l' s'. loop b c l s = Ret l' s' \<and> I l' s' \<and> \<not> b l' s'"
  using assms(1)
proof (induction "m l s" arbitrary: l s rule: less_induct)
  case less
  show ?case
  proof (cases "b l s")
    case True
    with less.prems obtain l' s' where "c l s = Ret l' s'" "I l' s'" "m l' s' < m l s"
      using step by blast
    with less.hyps [of l' s'] True show ?thesis by (simp add: loop_step)
  next
    case False
    with less.prems show ?thesis by auto
  qed
qed

text \<open>An invariant under which the body always goes on: the loop does not end.\<close>

lemma loop_Hang:
  assumes "I l s" and step: "\<And>l s. I l s \<Longrightarrow> b l s \<and> (\<exists>l' s'. c l s = Ret l' s' \<and> I l' s')"
  shows "loop b c l s = Hang"
proof (cases "while_option (\<lambda>r. case r of Ret l s \<Rightarrow> b l s | _ \<Rightarrow> False) (\<lambda>r. bind r c) (Ret l s)")
  case None
  then show ?thesis by (simp add: loop_def)
next
  case (Some r)
  let ?P = "\<lambda>r. \<exists>l s. r = Ret l s \<and> I l s"
  have "?P r" by (rule while_option_rule [where P = ?P, OF _ Some]) (use assms in fastforce)+
  then show ?thesis using while_option_stop [OF Some] step by auto
qed

text \<open>A \<^verbatim>\<open>for\<close> loop over the values \<open>is\<close> whose body may return from the function
  (\<open>Some r\<close>) or go on (\<open>None\<close>).\<close>

fun for_ret :: "'i list \<Rightarrow> ('i \<Rightarrow> 's \<Rightarrow> ('r option, 's) res) \<Rightarrow> 's \<Rightarrow> ('r option, 's) res" where
  "for_ret [] c s = Ret None s"
| "for_ret (i # is) c s =
     bind (c i s) (\<lambda>r s. case r of None \<Rightarrow> for_ret is c s | Some v \<Rightarrow> Ret (Some v) s)"

text \<open>A \<^verbatim>\<open>for\<close> loop whose body may fail but never leaves the loop.\<close>

fun for_each :: "'i list \<Rightarrow> ('i \<Rightarrow> 's \<Rightarrow> (unit, 's) res) \<Rightarrow> 's \<Rightarrow> (unit, 's) res" where
  "for_each [] c s = Ret () s"
| "for_each (i # is) c s = bind (c i s) (\<lambda>_ s. for_each is c s)"

lemma for_each_append:
  "for_each (is @ js) c s = bind (for_each is c s) (\<lambda>_ t. for_each js c t)"
  by (induction "is" arbitrary: s) (auto simp: bind_assoc intro!: bind_cong)

lemma for_each_inv:
  assumes "for_each is c s = Ret v t" and "I s"
    and "\<And>i v s t. i \<in> set is \<Longrightarrow> I s \<Longrightarrow> c i s = Ret v t \<Longrightarrow> I t"
  shows "I t"
  using assms
proof (induction "is" arbitrary: s)
  case (Cons i "is")
  from Cons.prems(1) obtain u where "c i s = Ret () u" "for_each is c u = Ret v t"
    by auto
  moreover from this Cons.prems have "I u" by (meson list.set_intros(1))
  ultimately show ?case using Cons.IH Cons.prems(3) by (meson list.set_intros(2))
qed simp

lemma ensures_for_each:
  "P s \<Longrightarrow> (\<And>i s. i \<in> set is \<Longrightarrow> P s \<Longrightarrow> keeps P (c i s)) \<Longrightarrow> keeps P (for_each is c s)"
  by (induction "is" arbitrary: s) (auto intro!: keeps_bind)

lemma ensures_for_ret:
  "P s \<Longrightarrow> (\<And>i s. i \<in> set is \<Longrightarrow> P s \<Longrightarrow> keeps P (c i s)) \<Longrightarrow> keeps P (for_ret is c s)"
proof (induction "is" arbitrary: s)
  case (Cons i "is")
  show ?case
    by (simp, rule keeps_bind) (use Cons in \<open>auto split: option.split\<close>)
qed simp

lemma ensures_loop:
  assumes "P l s" and step: "\<And>l s. P l s \<Longrightarrow> b l s \<Longrightarrow> ensures P (c l s)"
  shows "ensures (\<lambda>l s. P l s \<and> \<not> b l s) (loop b c l s)"
proof -
  let ?b = "\<lambda>r. case r of Ret l s \<Rightarrow> b l s | _ \<Rightarrow> False" and ?c = "\<lambda>r. bind r c"
  have "ensures P r \<and> \<not> ?b r" if "while_option ?b ?c (Ret l s) = Some r" for r
  proof
    show "ensures P r"
    proof (rule while_option_rule [where P = "ensures P", OF _ that])
      fix r' assume "ensures P r'" "?b r'"
      then show "ensures P (bind r' c)" using step by (cases r') auto
    qed (use assms(1) in simp)
    show "\<not> ?b r" using while_option_stop [OF that] .
  qed
  then show ?thesis unfolding loop_def
    by (cases "while_option ?b ?c (Ret l s)") (auto simp: ensures_def)
qed

text \<open>An operation repeated, with the list of its results.\<close>

fun times_do :: "nat \<Rightarrow> ('s \<Rightarrow> ('a, 's) res) \<Rightarrow> 's \<Rightarrow> ('a list, 's) res" where
  "times_do 0 c s = Ret [] s"
| "times_do (Suc n) c s = bind (c s) (\<lambda>v s. bind (times_do n c s) (\<lambda>vs s. Ret (v # vs) s))"

section \<open>Words as numbers\<close>

lemma u32_less_size [simp]: "unat (x :: u32) < 4294967296"
  using unsigned_less [of x] by simp

lemma u8_less_size [simp]: "unat (x :: u8) < 256"
  using unsigned_less [of x] by simp

lemma u16_less_size [simp]: "unat (x :: u16) < 65536"
  using unsigned_less [of x] by simp

lemma unat_add_u32 [u_simps]: "unat (x + y :: u32) = (unat x + unat y) mod 4294967296"
  by (simp add: unat_word_ariths)

lemma unat_mult_u32 [u_simps]: "unat (x * y :: u32) = (unat x * unat y) mod 4294967296"
  by (simp add: unat_word_ariths)

lemma unat_add_nowrap:
  "unat (x :: u32) + unat y < 4294967296 \<Longrightarrow> unat (x + y) = unat x + unat y"
  by (simp add: unat_add_u32)

lemma unat_sub_u32 [u_simps]: "(y :: u32) \<le> x \<Longrightarrow> unat (x - y) = unat x - unat y"
  by (simp add: unat_sub)

lemma unat_of_nat_u32 [u_simps]: "n < 4294967296 \<Longrightarrow> unat (of_nat n :: u32) = n"
  by (simp add: unat_of_nat)

lemma u32_le_iff [u_simps]: "(x :: u32) \<le> y \<longleftrightarrow> unat x \<le> unat y"
  by (simp add: word_le_nat_alt)

lemma u32_less_iff [u_simps]: "(x :: u32) < y \<longleftrightarrow> unat x < unat y"
  by (simp add: word_less_nat_alt)

lemma of_nat_add_u32: "(of_nat (m + n) :: u32) = of_nat m + of_nat n"
  by simp

lemma unat_ucast_up:
  "unat (ucast (x :: u8) :: u32) = unat x" "unat (ucast (y :: u16) :: u32) = unat y"
proof -
  have "unat x < 2 ^ 32" using u8_less_size by (rule less_trans) simp
  moreover have "unat y < 2 ^ 32" using u16_less_size by (rule less_trans) simp
  ultimately have "take_bit 32 (unat x) = unat x" "take_bit 32 (unat y) = unat y" by (simp_all only: take_bit_nat_eq_self)
  then show "unat (ucast (x :: u8) :: u32) = unat x" "unat (ucast (y :: u16) :: u32) = unat y"
    by (simp_all add: unsigned_ucast_eq)
qed

lemma u32_eqI: "unat (x :: u32) = unat y \<Longrightarrow> x = y"
  by (simp add: word_unat_eq_iff)

lemma unat_diff_swap:
  "(a :: u32) \<noteq> b \<Longrightarrow> unat (a - b) = 4294967296 - unat (b - a)"
proof -
  assume "a \<noteq> b"
  then have pos: "0 < unat (b - a)" by (simp add: unat_gt_0)
  have "(unat (a - b) + unat (b - a)) mod 4294967296 = unat ((a - b) + (b - a))"
    by (simp only: unat_add_u32)
  then have z: "(unat (a - b) + unat (b - a)) mod 4294967296 = 0" by simp
  have "4294967296 \<le> unat (a - b) + unat (b - a)"
    using z pos by (metis add_is_0 less_numeral_extra(3) linorder_not_le mod_less)
  with z have "unat (a - b) + unat (b - a) - 4294967296 = 0"
    using u32_less_size [of "a - b"] u32_less_size [of "b - a"]
    by (simp add: le_mod_geq)
  with \<open>4294967296 \<le> _\<close> show ?thesis by linarith
qed

text \<open>The masks the code writes as literals.\<close>

lemma mask_literals:
  "(0xFF :: u32) = mask 8" "(0xFFFF :: u32) = mask 16" "(0xF :: u32) = mask 4"
  "(0xFFFFF :: u32) = mask 20" "(0x3FF :: u32) = mask 10" "(0xFFF :: u32) = mask 12"
  "(0xFFFFF000 :: u32) = NOT (mask 12)" "(0xF :: u8) = mask 4" "(0xF0 :: u8) = NOT (mask 4)"
  "(0xFF :: u16) = mask 8"
  by (simp_all add: mask_eq_exp_minus_1)

section \<open>Byte memory\<close>

text \<open>\<open>store_bytes a bs m\<close> is \<open>m\<close> with the bytes \<open>bs\<close> at \<open>a\<close>, \<open>a + 1\<close>, \<dots> (addresses wrap).\<close>

definition store_bytes :: "u32 \<Rightarrow> bytes \<Rightarrow> memory \<Rightarrow> memory" where
  "store_bytes a bs m = (\<lambda>x. if unat (x - a) < length bs then bs ! unat (x - a) else m x)"

definition load_bytes :: "memory \<Rightarrow> u32 \<Rightarrow> nat \<Rightarrow> bytes" where
  "load_bytes m a n = map (\<lambda>i. m (a + of_nat i)) [0..<n]"

text \<open>Two address ranges that share no byte.\<close>

definition apart :: "u32 \<Rightarrow> nat \<Rightarrow> u32 \<Rightarrow> nat \<Rightarrow> bool" where
  "apart a n b k \<longleftrightarrow> n \<le> unat (b - a) \<and> k \<le> unat (a - b)"

definition le16 :: "u16 \<Rightarrow> bytes" where
  "le16 v = [ucast v, ucast (drop_bit 8 v)]"

definition le32 :: "u32 \<Rightarrow> bytes" where
  "le32 v = [ucast v, ucast (drop_bit 8 v), ucast (drop_bit 16 v), ucast (drop_bit 24 v)]"

definition of_le16 :: "u8 \<Rightarrow> u8 \<Rightarrow> u16" where
  "of_le16 b0 b1 = ucast b0 OR push_bit 8 (ucast b1)"

definition of_le32 :: "u8 \<Rightarrow> u8 \<Rightarrow> u8 \<Rightarrow> u8 \<Rightarrow> u32" where
  "of_le32 b0 b1 b2 b3 =
     ucast b0 OR push_bit 8 (ucast b1) OR push_bit 16 (ucast b2) OR push_bit 24 (ucast b3)"

definition load16 :: "memory \<Rightarrow> u32 \<Rightarrow> u16" where
  "load16 m a = of_le16 (m a) (m (a + 1))"

definition load32 :: "memory \<Rightarrow> u32 \<Rightarrow> u32" where
  "load32 m a = of_le32 (m a) (m (a + 1)) (m (a + 2)) (m (a + 3))"

definition store16 :: "u32 \<Rightarrow> u16 \<Rightarrow> memory \<Rightarrow> memory" where
  "store16 a v m = store_bytes a (le16 v) m"

definition store32 :: "u32 \<Rightarrow> u32 \<Rightarrow> memory \<Rightarrow> memory" where
  "store32 a v m = store_bytes a (le32 v) m"

lemma length_load_bytes [simp]: "length (load_bytes m a n) = n"
  by (simp add: load_bytes_def)

lemma length_le16 [simp]: "length (le16 v) = 2"
  by (simp add: le16_def)

lemma length_le32 [simp]: "length (le32 v) = 4"
  by (simp add: le32_def)

lemma nth_load_bytes [simp]: "i < n \<Longrightarrow> load_bytes m a n ! i = m (a + of_nat i)"
  by (simp add: load_bytes_def)

lemma load_bytes_0 [simp]: "load_bytes m a 0 = []"
  by (simp add: load_bytes_def)

lemma load_bytes_Suc: "load_bytes m a (Suc n) = load_bytes m a n @ [m (a + of_nat n)]"
  by (simp add: load_bytes_def)

lemma load_bytes_add:
  "load_bytes m a (n + k) = load_bytes m a n @ load_bytes m (a + of_nat n) k"
  by (rule nth_equalityI) (auto simp: nth_append algebra_simps)

lemma store_bytes_Nil [simp]: "store_bytes a [] m = m"
  by (simp add: store_bytes_def)

lemma store_bytes_snoc:
  assumes "length bs < 4294967296"
  shows "store_bytes a (bs @ [b]) m = (store_bytes a bs m)(a + of_nat (length bs) := b)"
proof
  fix x
  have "unat (x - a) = length bs \<longleftrightarrow> x - a = of_nat (length bs)"
    using assms by (simp add: word_unat_eq_iff unat_of_nat_u32)
  also have "\<dots> \<longleftrightarrow> x = a + of_nat (length bs)"
    by (auto simp: algebra_simps)
  finally have "unat (x - a) = length bs \<longleftrightarrow> x = a + of_nat (length bs)" .
  then show "store_bytes a (bs @ [b]) m x = ((store_bytes a bs m)(a + of_nat (length bs) := b)) x"
    by (auto simp: store_bytes_def nth_append less_Suc_eq)
qed

lemma store_bytes_append:
  assumes "length bs + length cs \<le> 4294967296"
  shows "store_bytes a (bs @ cs) m = store_bytes (a + of_nat (length bs)) cs (store_bytes a bs m)"
  using assms
proof (induction cs rule: rev_induct)
  case (snoc c cs)
  then have "store_bytes a (bs @ cs @ [c]) m = (store_bytes a (bs @ cs) m)(a + of_nat (length (bs @ cs)) := c)"
    using store_bytes_snoc [of "bs @ cs"] by simp
  with snoc show ?case by (simp add: store_bytes_snoc algebra_simps)
qed simp

lemma load_store_bytes_same:
  assumes "length bs \<le> 4294967296"
  shows "load_bytes (store_bytes a bs m) a (length bs) = bs"
  by (rule nth_equalityI) (use assms in \<open>auto simp: store_bytes_def unat_of_nat_u32\<close>)

lemma store_bytes_outside:
  "length bs \<le> unat (x - a) \<Longrightarrow> store_bytes a bs m x = m x"
  by (simp add: store_bytes_def)

lemma apart_outside:
  assumes "apart a n b k" and "i < k"
  shows "n \<le> unat (b + of_nat i - a)"
proof -
  from assms have k: "k \<le> unat (a - b)" and n: "n \<le> unat (b - a)" by (auto simp: apart_def)
  have ik: "unat (of_nat i :: u32) = i" using assms(2) k u32_less_size [of "a - b"]
    by (intro unat_of_nat_u32) linarith
  have "unat (b + of_nat i - a) = unat (b - a) + i"
  proof (cases "a = b")
    case True
    with k assms(2) show ?thesis by simp
  next
    case False
    then have "unat (a - b) = 4294967296 - unat (b - a)" by (rule unat_diff_swap)
    with k assms(2) have "unat (b - a) + i < 4294967296" by linarith
    with ik have "unat ((b - a) + of_nat i) = unat (b - a) + i"
      by (simp add: unat_add_u32)
    then show ?thesis by (simp add: algebra_simps)
  qed
  with n show ?thesis by simp
qed

lemma load_store_bytes_apart:
  assumes "apart a (length bs) b k"
  shows "load_bytes (store_bytes a bs m) b k = load_bytes m b k"
  by (rule nth_equalityI) (use apart_outside [OF assms] in \<open>auto simp: store_bytes_outside\<close>)

lemma apart_sym: "apart a n b k \<Longrightarrow> apart b k a n"
  by (auto simp: apart_def)

lemma apart_mono: "apart a n b k \<Longrightarrow> n' \<le> n \<Longrightarrow> k' \<le> k \<Longrightarrow> apart a n' b k'"
  by (auto simp: apart_def)

lemma load_bytes_sub:
  "i + k \<le> n \<Longrightarrow> load_bytes m (a + of_nat i) k = take k (drop i (load_bytes m a n))"
  by (rule nth_equalityI) (auto simp: algebra_simps)

lemma of_le16_split: "of_le16 (ucast v) (ucast (drop_bit 8 v)) = v"
  by (rule bit_word_eqI) (auto simp: of_le16_def bit_simps)

lemma of_le32_split:
  "of_le32 (ucast v) (ucast (drop_bit 8 v)) (ucast (drop_bit 16 v)) (ucast (drop_bit 24 v)) = v"
proof (rule bit_word_eqI)
  fix n assume "n < LENGTH(32)"
  then show "bit (of_le32 (ucast v) (ucast (drop_bit 8 v)) (ucast (drop_bit 16 v))
      (ucast (drop_bit 24 v))) n \<longleftrightarrow> bit v n"
    by (cases "n < 24"; cases "n < 16"; cases "n < 8")
      (auto simp: of_le32_def bit_simps not_less)
qed

lemma load32_bytes:
  "load32 m a = (let bs = load_bytes m a 4 in of_le32 (bs ! 0) (bs ! 1) (bs ! 2) (bs ! 3))"
  by (simp add: load32_def)

lemma load16_bytes: "load16 m a = (let bs = load_bytes m a 2 in of_le16 (bs ! 0) (bs ! 1))"
  by (simp add: load16_def)

lemma load32_store32_same [simp]: "load32 (store32 a v m) a = v"
proof -
  have "load_bytes (store32 a v m) a 4 = le32 v"
    using load_store_bytes_same [of "le32 v" a m] by (simp add: store32_def)
  then show ?thesis by (simp add: load32_bytes le32_def of_le32_split)
qed

lemma load16_store16_same [simp]: "load16 (store16 a v m) a = v"
proof -
  have "load_bytes (store16 a v m) a 2 = le16 v"
    using load_store_bytes_same [of "le16 v" a m] by (simp add: store16_def)
  then show ?thesis by (simp add: load16_bytes le16_def of_le16_split)
qed

lemma load32_store_bytes_apart:
  "apart a (length bs) b 4 \<Longrightarrow> load32 (store_bytes a bs m) b = load32 m b"
  by (simp add: load32_bytes load_store_bytes_apart)

lemma load32_store32_apart: "apart a 4 b 4 \<Longrightarrow> load32 (store32 a v m) b = load32 m b"
  by (simp add: store32_def load32_store_bytes_apart)

end
