(* ===== verification/Machine.thy ===== *)
theory Machine
  imports Prelude
begin

unbundle bit_operations_syntax

text \<open>
  The machine under the kernel: the devices behind the I/O ports and byte memory.

  Devices are values of the codatatype \<open>iodev\<close>: what a port read returns and how the devices go on
  after a read or a write. Every behaviour of the hardware is one such value, so a theorem about
  all states is about all devices. The port primitives model \<^verbatim>\<open>inb\<close>, \<^verbatim>\<open>outb\<close>, \<^verbatim>\<open>inw\<close>, \<^verbatim>\<open>outw\<close>
  and \<^verbatim>\<open>io_wait\<close> of \<^verbatim>\<open>UTILL/utill.c\<close>.

  \<open>mem\<close> is the byte memory that kernel pointers address (heap buffers above all). The states of the
  components extend the record \<open>machine\<close>, each with its own file-scope variables, so an operation
  of one component applies to the state of every component built on it.
\<close>

codatatype iodev = IODev
  (io_inb: "u16 \<Rightarrow> u8 \<times> iodev")
  (io_inw: "u16 \<Rightarrow> u16 \<times> iodev")
  (io_outb: "u16 \<Rightarrow> u8 \<Rightarrow> iodev")
  (io_outw: "u16 \<Rightarrow> u16 \<Rightarrow> iodev")

record machine =
  dev :: iodev
  mem :: memory

section \<open>Port input and output\<close>

definition outb :: "u16 \<Rightarrow> u8 \<Rightarrow> 'a machine_scheme \<Rightarrow> 'a machine_scheme" where
  "outb port val s = s\<lparr>dev := io_outb (dev s) port val\<rparr>"

definition inb :: "u16 \<Rightarrow> 'a machine_scheme \<Rightarrow> u8 \<times> 'a machine_scheme" where
  "inb port s = (let (v, d) = io_inb (dev s) port in (v, s\<lparr>dev := d\<rparr>))"

definition outw :: "u16 \<Rightarrow> u16 \<Rightarrow> 'a machine_scheme \<Rightarrow> 'a machine_scheme" where
  "outw port val s = s\<lparr>dev := io_outw (dev s) port val\<rparr>"

definition inw :: "u16 \<Rightarrow> 'a machine_scheme \<Rightarrow> u16 \<times> 'a machine_scheme" where
  "inw port s = (let (v, d) = io_inw (dev s) port in (v, s\<lparr>dev := d\<rparr>))"

definition io_wait :: "'a machine_scheme \<Rightarrow> 'a machine_scheme" where
  "io_wait s = outb 0x80 0 s"

text \<open>A device given by a machine on a state type \<open>'d\<close>.\<close>

primcorec device ::
  "('d \<Rightarrow> u16 \<Rightarrow> u8 \<times> 'd) \<Rightarrow> ('d \<Rightarrow> u16 \<Rightarrow> u16 \<times> 'd) \<Rightarrow> ('d \<Rightarrow> u16 \<Rightarrow> u8 \<Rightarrow> 'd) \<Rightarrow>
   ('d \<Rightarrow> u16 \<Rightarrow> u16 \<Rightarrow> 'd) \<Rightarrow> 'd \<Rightarrow> iodev" where
  "device ib iw ob ow d = IODev
     (\<lambda>p. map_prod id (device ib iw ob ow) (ib d p))
     (\<lambda>p. map_prod id (device ib iw ob ow) (iw d p))
     (\<lambda>p v. device ib iw ob ow (ob d p v))
     (\<lambda>p v. device ib iw ob ow (ow d p v))"

text \<open>A device that ignores writes and reads as zero.\<close>

definition null_dev :: iodev where
  "null_dev = device (\<lambda>d p. (0, d)) (\<lambda>d p. (0, d)) (\<lambda>d p v. d) (\<lambda>d p v. d) ()"

lemma null_dev_out [simp]: "io_outb null_dev p v = null_dev" "io_outw null_dev p w = null_dev"
  by (simp_all add: null_dev_def)

lemma null_dev_in [simp]: "io_inb null_dev p = (0, null_dev)" "io_inw null_dev p = (0, null_dev)"
  by (simp_all add: null_dev_def)

text \<open>What a component's operation does to the machine is a new device and new bytes.\<close>

lemma outb_form: "outb p v s = s\<lparr>dev := dev (outb p v s)\<rparr>"
  by (simp add: outb_def)

lemma mem_outb [simp]: "mem (outb p v s) = mem s"
  by (simp add: outb_def)

lemma mem_inb [simp]: "mem (snd (inb p s)) = mem s"
  by (simp add: inb_def split_beta)

section \<open>Block operations on memory\<close>

text \<open>\<^verbatim>\<open>memset\<close> walks upwards from \<open>dest\<close>, \<^verbatim>\<open>memcpy\<close> copies byte by byte upwards,
  \<^verbatim>\<open>memcmp\<close> stops at the first difference and returns \<^verbatim>\<open>true\<close> for \<^emph>\<open>different\<close>.\<close>

fun memset_loop :: "nat \<Rightarrow> u32 \<Rightarrow> u8 \<Rightarrow> memory \<Rightarrow> memory" where
  "memset_loop 0 temp val m = m"
| "memset_loop (Suc count) temp val m = memset_loop count (temp + 1) val (m(temp := val))"

definition memset :: "u32 \<Rightarrow> u8 \<Rightarrow> u32 \<Rightarrow> 'a machine_scheme \<Rightarrow> 'a machine_scheme" where
  "memset dest val count s = s\<lparr>mem := memset_loop (unat count) dest val (mem s)\<rparr>"

definition memcpy :: "u32 \<Rightarrow> u32 \<Rightarrow> u32 \<Rightarrow> 'a machine_scheme \<Rightarrow> 'a machine_scheme" where
  "memcpy dest src count s =
     s\<lparr>mem := fold (\<lambda>i m. m(dest + of_nat i := m (src + of_nat i))) [0..<unat count] (mem s)\<rparr>"

fun memcmp_loop :: "memory \<Rightarrow> u32 \<Rightarrow> u32 \<Rightarrow> nat \<Rightarrow> bool" where
  "memcmp_loop m tempa tempb 0 = False"
| "memcmp_loop m tempa tempb (Suc n) =
     (if m tempa \<noteq> m tempb then True else memcmp_loop m (tempa + 1) (tempb + 1) n)"

definition memcmp :: "u32 \<Rightarrow> u32 \<Rightarrow> u16 \<Rightarrow> 'a machine_scheme \<Rightarrow> bool" where
  "memcmp a b count s = memcmp_loop (mem s) a b (unat count)"

lemma memset_loop_snoc:
  "memset_loop (Suc n) a v m = (memset_loop n a v m)(a + of_nat n := v)"
proof (induction n arbitrary: a m)
  case (Suc n)
  have "memset_loop (Suc (Suc n)) a v m = memset_loop (Suc n) (a + 1) v (m(a := v))" by simp
  also have "\<dots> = (memset_loop n (a + 1) v (m(a := v)))(a + 1 + of_nat n := v)" by (rule Suc)
  finally show ?case by (simp add: algebra_simps)
qed simp

lemma memset_loop_store:
  "n < 4294967296 \<Longrightarrow> memset_loop n a v m = store_bytes a (replicate n v) m"
proof (induction n)
  case (Suc n)
  then have "memset_loop (Suc n) a v m = (store_bytes a (replicate n v) m)(a + of_nat n := v)"
    using memset_loop_snoc [of n a v m] by simp
  also have "\<dots> = store_bytes a (replicate n v @ [v]) m"
    using Suc.prems by (simp add: store_bytes_snoc)
  finally show ?case by (simp add: replicate_append_same)
qed simp

text \<open>\<^verbatim>\<open>memset\<close> stores exactly \<open>count\<close> copies of the byte and touches nothing else.\<close>

lemma memset_stores:
  "memset a v n s = s\<lparr>mem := store_bytes a (replicate (unat n) v) (mem s)\<rparr>"
  by (simp add: memset_def memset_loop_store)

lemma memcpy_upto:
  assumes "k \<le> n" and "n < 4294967296" and "apart d n a n"
  shows "fold (\<lambda>i m. m(d + of_nat i := m (a + of_nat i))) [0..<k] m
       = store_bytes d (load_bytes m a k) m"
  using assms(1)
proof (induction k)
  case (Suc k)
  let ?c = "\<lambda>i m. m(d + of_nat i := m (a + of_nat i))"
  let ?m = "store_bytes d (load_bytes m a k) m"
  have "?m (a + of_nat k) = m (a + of_nat k)"
    using apart_outside [OF assms(3), of k] Suc.prems by (simp add: store_bytes_outside)
  moreover have "fold ?c [0..<Suc k] m = ?c k (fold ?c [0..<k] m)" by simp
  moreover have "fold ?c [0..<k] m = ?m"
    by (rule Suc.IH) (use Suc.prems in simp)
  ultimately have "fold ?c [0..<Suc k] m = ?m(d + of_nat k := m (a + of_nat k))"
    by (simp only:)
  also have "\<dots> = store_bytes d (load_bytes m a (Suc k)) m"
    using Suc.prems assms(2) by (simp add: load_bytes_Suc store_bytes_snoc)
  finally show ?case .
qed simp

text \<open>Between ranges that do not overlap \<^verbatim>\<open>memcpy\<close> copies the block.\<close>

lemma memcpy_copies:
  assumes "apart d (unat n) a (unat n)"
  shows "memcpy d a n s = s\<lparr>mem := store_bytes d (load_bytes (mem s) a (unat n)) (mem s)\<rparr>"
  unfolding memcpy_def using memcpy_upto [OF order_refl _ assms] by simp

lemma memcmp_loop_iff:
  "memcmp_loop m a b n \<longleftrightarrow> load_bytes m a n \<noteq> load_bytes m b n"
proof (induction n arbitrary: a b)
  case (Suc n)
  have cons: "load_bytes m x (Suc n) = m x # load_bytes m (x + 1) n" for x
    using load_bytes_add [of m x 1 n] by (simp add: load_bytes_def)
  from Suc show ?case by (simp add: cons)
qed simp

text \<open>\<^verbatim>\<open>memcmp\<close> is inequality of the two blocks.\<close>

lemma memcmp_differs:
  "memcmp a b n s \<longleftrightarrow> load_bytes (mem s) a (unat n) \<noteq> load_bytes (mem s) b (unat n)"
  by (simp add: memcmp_def memcmp_loop_iff)

end
