(* ===== verification/Utill.thy ===== *)
theory Utill
  imports Machine
begin

text \<open>
  The string routines of \<^verbatim>\<open>UTILL/utill.c\<close>, on pointers into byte memory as the C code has
  them, and the functions on byte lists that they compute.

  A scan for the terminating zero may run for ever, so the loops are partial functions and \<open>None\<close>
  is not returning. \<open>cstr m p cs\<close> says that \<open>p\<close> points to the C string with the bytes \<open>cs\<close>; on such a
  pointer each routine is shown to return, with the result of its list counterpart. The file-system
  drivers work with strings as byte lists and use those counterparts.
\<close>

text \<open>\<^verbatim>\<open>CEIL_DIV\<close> of \<^verbatim>\<open>utill.h\<close> on unsigned operands.\<close>

definition CEIL_DIV :: "u32 \<Rightarrow> u32 \<Rightarrow> u32" where
  "CEIL_DIV a b = ((a + b) - 1) div b"

fun cstr :: "memory \<Rightarrow> u32 \<Rightarrow> bytes \<Rightarrow> bool" where
  "cstr m p [] \<longleftrightarrow> m p = 0"
| "cstr m p (c # cs) \<longleftrightarrow> c \<noteq> 0 \<and> m p = c \<and> cstr m (p + 1) cs"

section \<open>The routines\<close>

partial_function (option) strlen_loop :: "memory \<Rightarrow> u32 \<Rightarrow> u32 \<Rightarrow> u32 option" where
  "strlen_loop m str i = (if m str \<noteq> 0 then strlen_loop m (str + 1) (i + 1) else Some i)"

definition strlen :: "memory \<Rightarrow> u32 \<Rightarrow> u32 option" where
  "strlen m str = strlen_loop m str 0"

partial_function (option) strcpy_loop :: "memory \<Rightarrow> u32 \<Rightarrow> u32 \<Rightarrow> memory option" where
  "strcpy_loop m dest src =
     (if m src \<noteq> 0 then strcpy_loop (m(dest := m src)) (dest + 1) (src + 1)
      else Some (m(dest := 0)))"

definition strcpy :: "memory \<Rightarrow> u32 \<Rightarrow> u32 \<Rightarrow> (u32 \<times> memory) option" where
  "strcpy m dest src = map_option (\<lambda>m'. (dest, m')) (strcpy_loop m dest src)"

partial_function (option) strrchr_loop :: "memory \<Rightarrow> u32 \<Rightarrow> u8 \<Rightarrow> u32 \<Rightarrow> u32 option" where
  "strrchr_loop m str c lastp =
     (if m str \<noteq> 0 then strrchr_loop m (str + 1) c (if m str = c then str else lastp)
      else if c = 0 then Some str else Some lastp)"

definition strrchr :: "memory \<Rightarrow> u32 \<Rightarrow> u8 \<Rightarrow> u32 option" where
  "strrchr m str c = strrchr_loop m str c 0"

partial_function (option) strchr :: "memory \<Rightarrow> u32 \<Rightarrow> u8 \<Rightarrow> u32 option" where
  "strchr m str c =
     (if m str \<noteq> 0 then if m str = c then Some str else strchr m (str + 1) c
      else if c = 0 then Some str else Some 0)"

partial_function (option) strcmp :: "memory \<Rightarrow> u32 \<Rightarrow> u32 \<Rightarrow> bool option" where
  "strcmp m str1 str2 =
     (if m str1 \<noteq> 0 \<and> m str2 \<noteq> 0 then
        if m str1 \<noteq> m str2 then Some True else strcmp m (str1 + 1) (str2 + 1)
      else if m str1 = 0 \<and> m str2 = 0 then Some False else Some True)"

text \<open>\<^verbatim>\<open>strtok\<close>: \<open>delim_scan\<close> is its inner loop over \<^verbatim>\<open>delim\<close>, and the argument and result \<open>nxt\<close>
  is its static variable \<^verbatim>\<open>next\<close>.\<close>

partial_function (option) delim_scan :: "memory \<Rightarrow> u32 \<Rightarrow> u8 \<Rightarrow> bool option" where
  "delim_scan m delim c =
     (if m delim \<noteq> 0 then if c = m delim then Some True else delim_scan m (delim + 1) c
      else Some False)"

partial_function (option) strtok_skip :: "memory \<Rightarrow> u32 \<Rightarrow> u32 \<Rightarrow> u32 option" where
  "strtok_skip m delim start =
     (if m start \<noteq> 0 then
        Option.bind (delim_scan m delim (m start))
          (\<lambda>d. if d then strtok_skip m delim (start + 1) else Some start)
      else Some start)"

partial_function (option) strtok_end :: "memory \<Rightarrow> u32 \<Rightarrow> u32 \<Rightarrow> u32 option option" where
  "strtok_end m delim end =
     (if m end \<noteq> 0 then
        Option.bind (delim_scan m delim (m end))
          (\<lambda>d. if d then Some (Some end) else strtok_end m delim (end + 1))
      else Some None)"

definition strtok :: "u32 \<Rightarrow> memory \<Rightarrow> u32 \<Rightarrow> u32 \<Rightarrow> (u32 \<times> u32 \<times> memory) option" where
  "strtok nxt m str delim =
     (if str = 0 \<and> nxt = 0 then Some (0, nxt, m)
      else Option.bind (strtok_skip m delim (if str \<noteq> 0 then str else nxt))
        (\<lambda>start. if m start = 0 then Some (0, 0, m)
          else map_option
            (\<lambda>e. case e of Some end \<Rightarrow> (start, end + 1, m(end := 0)) | None \<Rightarrow> (start, 0, m))
            (strtok_end m delim start)))"

section \<open>The same on byte lists\<close>

fun str_index :: "bytes \<Rightarrow> u8 \<Rightarrow> nat option" where
  "str_index [] c = None"
| "str_index (x # xs) c = (if x = c then Some 0 else map_option Suc (str_index xs c))"

definition str_rindex :: "bytes \<Rightarrow> u8 \<Rightarrow> nat option" where
  "str_rindex xs c = map_option (\<lambda>i. length xs - 1 - i) (str_index (rev xs) c)"

lemma str_index_None: "str_index xs c = None \<longleftrightarrow> c \<notin> set xs"
  by (induction xs) auto

lemma str_index_Some:
  "str_index xs c = Some i \<Longrightarrow> i < length xs \<and> xs ! i = c \<and> c \<notin> set (take i xs)"
  by (induction xs arbitrary: i) (auto split: if_splits)

lemma str_index_append:
  "str_index (xs @ ys) c =
     (case str_index xs c of None \<Rightarrow> map_option ((+) (length xs)) (str_index ys c) | Some i \<Rightarrow> Some i)"
  by (cases "str_index ys c"; induction xs) (auto split: option.split)

lemma str_rindex_Cons:
  "str_rindex (x # xs) c =
     (case str_rindex xs c of None \<Rightarrow> (if x = c then Some 0 else None) | Some i \<Rightarrow> Some (Suc i))"
  using str_index_Some [of "rev xs" c]
  by (auto simp: str_rindex_def str_index_append split: option.split)

lemma str_rindex_Nil [simp]: "str_rindex [] c = None"
  by (simp add: str_rindex_def)

lemma cstr_nonzero: "cstr m p cs \<Longrightarrow> 0 \<notin> set cs"
  by (induction cs arbitrary: p) auto

lemma cstr_nth: "cstr m p cs \<Longrightarrow> i < length cs \<Longrightarrow> m (p + of_nat i) = cs ! i"
  by (induction cs arbitrary: p i)
    (auto simp: nth_Cons add.assoc [symmetric] split: nat.split)

lemma cstr_end: "cstr m p cs \<Longrightarrow> m (p + of_nat (length cs)) = 0"
  by (induction cs arbitrary: p) (auto simp: add.assoc [symmetric])

lemma cstr_drop: "cstr m p cs \<Longrightarrow> i \<le> length cs \<Longrightarrow> cstr m (p + of_nat i) (drop i cs)"
  by (induction cs arbitrary: p i)
    (auto simp: drop_Cons add.assoc [symmetric] split: nat.split)

lemma cstr_iff_load:
  "cstr m p cs \<longleftrightarrow> 0 \<notin> set cs \<and> load_bytes m p (Suc (length cs)) = cs @ [0]"
proof (induction cs arbitrary: p)
  case (Cons c cs)
  have "load_bytes m p (Suc (length (c # cs))) = m p # load_bytes m (p + 1) (Suc (length cs))"
    using load_bytes_add [of m p 1 "Suc (length cs)"] by (simp add: load_bytes_def)
  with Cons show ?case by auto
qed (simp add: load_bytes_Suc)

lemma strlen_loop_cstr: "cstr m p cs \<Longrightarrow> strlen_loop m p i = Some (i + of_nat (length cs))"
  by (induction cs arbitrary: p i) (simp_all add: strlen_loop.simps algebra_simps)

lemma strlen_cstr: "cstr m p cs \<Longrightarrow> strlen m p = Some (of_nat (length cs))"
  by (simp add: strlen_def strlen_loop_cstr)

lemma strchr_cstr:
  assumes "cstr m p cs" and "c \<noteq> 0"
  shows "strchr m p c = Some (case str_index cs c of None \<Rightarrow> 0 | Some i \<Rightarrow> p + of_nat i)"
  using assms(1)
proof (induction cs arbitrary: p)
  case Nil
  with assms(2) show ?case by (simp add: strchr.simps)
next
  case (Cons x xs)
  then show ?case
    by (subst strchr.simps) (auto split: option.split simp: algebra_simps)
qed

lemma strrchr_loop_cstr:
  assumes "cstr m p cs" and "c \<noteq> 0"
  shows "strrchr_loop m p c q = Some (case str_rindex cs c of None \<Rightarrow> q | Some i \<Rightarrow> p + of_nat i)"
  using assms(1)
proof (induction cs arbitrary: p q)
  case Nil
  with assms(2) show ?case by (simp add: strrchr_loop.simps)
next
  case (Cons x xs)
  then show ?case
    by (subst strrchr_loop.simps)
      (auto simp: str_rindex_Cons algebra_simps split: option.split)
qed

lemma strrchr_cstr:
  "cstr m p cs \<Longrightarrow> c \<noteq> 0 \<Longrightarrow>
     strrchr m p c = Some (case str_rindex cs c of None \<Rightarrow> 0 | Some i \<Rightarrow> p + of_nat i)"
  by (simp add: strrchr_def strrchr_loop_cstr)

lemma strcmp_cstr: "cstr m p as \<Longrightarrow> cstr m q bs \<Longrightarrow> strcmp m p q = Some (as \<noteq> bs)"
proof (induction as arbitrary: p q bs)
  case Nil
  then show ?case by (cases bs) (simp_all add: strcmp.simps)
next
  case (Cons a as)
  then show ?case by (cases bs) (simp_all add: strcmp.simps [of m p q])
qed

lemma strcpy_loop_unfold:
  "strcpy_loop m dest src =
     (if m src \<noteq> 0 then strcpy_loop (m(dest := m src)) (dest + 1) (src + 1)
      else Some (m(dest := 0)))"
  by (subst strcpy_loop.simps) (simp add: fun_upd_def)

lemma strcpy_loop_cstr:
  assumes "cstr m src cs" and "apart dest (Suc (length cs)) src (Suc (length cs))"
  shows "strcpy_loop m dest src = Some (store_bytes dest (cs @ [0]) m)"
  using assms
proof (induction cs arbitrary: m dest src)
  case Nil
  have "store_bytes dest [0] m = m(dest := 0)"
    using store_bytes_snoc [of "[]" dest 0 m] by simp
  with Nil show ?case by (simp add: strcpy_loop_unfold del: fun_upd_apply)
next
  case (Cons c cs)
  let ?n = "Suc (length cs)"
  have "unat (dest - src) \<ge> Suc ?n" "unat (src - dest) \<ge> Suc ?n"
    using Cons.prems(2) by (auto simp: apart_def)
  have ne: "src + 1 + of_nat i \<noteq> dest" if "i < ?n" for i
    using apart_outside [OF Cons.prems(2), of "Suc i"] that by (auto simp: algebra_simps)
  have ap: "apart (dest + 1) ?n (src + 1) ?n"
    using Cons.prems(2) by (simp add: apart_def)
  have "load_bytes (m(dest := c)) (src + 1) ?n = load_bytes m (src + 1) ?n"
    by (rule nth_equalityI) (use ne in auto)
  moreover have "cstr m (src + 1) cs" using Cons.prems(1) by simp
  ultimately have "cstr (m(dest := c)) (src + 1) cs" by (simp add: cstr_iff_load)
  from Cons.IH [OF this ap] Cons.prems(1)
  have "strcpy_loop m dest src = Some (store_bytes (dest + 1) (cs @ [0]) (m(dest := c)))"
    by (subst strcpy_loop_unfold) (simp del: fun_upd_apply)
  moreover have "m(dest := c) = store_bytes dest [c] m"
    using store_bytes_snoc [of "[]" dest c m] by simp
  moreover have "length cs < 4294967295"
    using \<open>unat (dest - src) \<ge> Suc ?n\<close> u32_less_size [of "dest - src"] by linarith
  ultimately show ?case
    using store_bytes_append [of "[c]" "cs @ [0]" dest m] by (simp del: fun_upd_apply)
qed

text \<open>C33: on a C string that does not overlap the destination, \<^verbatim>\<open>strcpy\<close> returns, its result is
  the destination, and memory changes by the string and its terminating zero.\<close>

theorem strcpy_copies:
  assumes "cstr m src cs" and "apart dest (Suc (length cs)) src (Suc (length cs))"
  shows "strcpy m dest src = Some (dest, store_bytes dest (cs @ [0]) m)"
  using strcpy_loop_cstr [OF assms] by (simp add: strcpy_def)

theorem strcpy_copies_witness:
  "strcpy (store_bytes 16 [72, 105, 0] (\<lambda>_. 7)) 100 16
     = Some (100, store_bytes 100 ([72, 105] @ [0]) (store_bytes 16 [72, 105, 0] (\<lambda>_. 7)))"
  by (rule strcpy_copies) (simp_all add: store_bytes_def apart_def)

text \<open>C34: the string searches and comparisons return, with the first position, the last position,
  the length and the inequality of the strings (a null pointer when the byte is absent).\<close>

theorem string_routines:
  assumes "cstr m p cs" and "cstr m q ds" and "c \<noteq> 0"
  shows "strlen m p = Some (of_nat (length cs)) \<and>
    strchr m p c = Some (case str_index cs c of None \<Rightarrow> 0 | Some i \<Rightarrow> p + of_nat i) \<and>
    strrchr m p c = Some (case str_rindex cs c of None \<Rightarrow> 0 | Some i \<Rightarrow> p + of_nat i) \<and>
    strcmp m p q = Some (cs \<noteq> ds)"
  using assms by (simp_all add: strlen_cstr strchr_cstr strrchr_cstr strcmp_cstr)

theorem string_routines_witness:
  "strlen (store_bytes 16 [47, 97, 47, 0] (\<lambda>_. 0)) 16 = Some 3 \<and>
   strchr (store_bytes 16 [47, 97, 47, 0] (\<lambda>_. 0)) 16 47 = Some 16 \<and>
   strrchr (store_bytes 16 [47, 97, 47, 0] (\<lambda>_. 0)) 16 47 = Some 18 \<and>
   strcmp (store_bytes 16 [47, 97, 47, 0] (\<lambda>_. 0)) 16 17 = Some True"
  using string_routines [of "store_bytes 16 [47, 97, 47, 0] (\<lambda>_. 0)" 16 "[47, 97, 47]" 17 "[97, 47]" 47]
  by (simp add: store_bytes_def str_rindex_def)

section \<open>Tokens\<close>

lemma delim_scan_cstr: "cstr m d ds \<Longrightarrow> delim_scan m d c = Some (c \<in> set ds)"
  by (induction ds arbitrary: d) (auto simp: delim_scan.simps)

lemma strtok_skip_cstr:
  assumes "cstr m d ds" and "cstr m p cs"
  shows "strtok_skip m d p = Some (p + of_nat (length (takeWhile (\<lambda>c. c \<in> set ds) cs)))"
  using assms(2)
proof (induction cs arbitrary: p)
  case Nil
  then show ?case by (simp add: strtok_skip.simps)
next
  case (Cons c cs)
  then show ?case
    by (subst strtok_skip.simps) (simp add: delim_scan_cstr [OF assms(1)] add.assoc [symmetric])
qed

lemma strtok_end_cstr:
  assumes "cstr m d ds" and "cstr m p cs"
  shows "strtok_end m d p =
    Some (if set cs \<inter> set ds = {} then None
          else Some (p + of_nat (length (takeWhile (\<lambda>c. c \<notin> set ds) cs))))"
  using assms(2)
proof (induction cs arbitrary: p)
  case Nil
  then show ?case by (simp add: strtok_end.simps)
next
  case (Cons c cs)
  then show ?case
    by (subst strtok_end.simps) (auto simp: delim_scan_cstr [OF assms(1)] add.assoc [symmetric])
qed

text \<open>C35: \<^verbatim>\<open>strtok\<close> skips the leading delimiters and cuts off the longest token without one, writing
  a zero over the delimiter behind it and remembering the byte after that; without a token it
  returns a null pointer and forgets its position.\<close>

theorem strtok_token:
  assumes "cstr m p cs" and "cstr m d ds" and "p \<noteq> 0"
    and "skip = takeWhile (\<lambda>c. c \<in> set ds) cs"
    and "tok = takeWhile (\<lambda>c. c \<notin> set ds) (drop (length skip) cs)"
    and "start = p + of_nat (length skip)" and "stop = start + of_nat (length tok)"
  shows "strtok nxt m p d = Some
    (if length skip = length cs then (0, 0, m)
     else if length skip + length tok = length cs then (start, 0, m)
     else (start, stop + 1, m(stop := 0)))"
proof -
  let ?cs = "drop (length skip) cs"
  have le: "length skip \<le> length cs" using assms(4) by (simp add: length_takeWhile_le)
  have rest: "cstr m start ?cs" using cstr_drop [OF assms(1) le] assms(6) by simp
  have null: "m start = 0 \<longleftrightarrow> length skip = length cs"
    using rest le by (cases ?cs) auto
  have whole: "set ?cs \<inter> set ds = {} \<longleftrightarrow> tok = ?cs"
    unfolding assms(5) by (subst takeWhile_eq_all_conv) auto
  have "tok = ?cs \<longleftrightarrow> length skip + length tok = length cs"
    using le by (metis assms(5) add.commute le_add_diff_inverse length_drop takeWhile_eq_take take_all_iff
        order_refl diff_add_inverse2)
  with whole null show ?thesis
    using assms strtok_skip_cstr [OF assms(2,1)] strtok_end_cstr [OF assms(2) rest]
    by (simp add: strtok_def del: fun_upd_apply)
qed

theorem strtok_token_witness:
  "strtok 0 (store_bytes 16 [47, 97, 98, 47, 99, 0, 47, 0] (\<lambda>_. 0)) 16 22 =
    Some (17, 20, (store_bytes 16 [47, 97, 98, 47, 99, 0, 47, 0] (\<lambda>_. 0))(19 := 0))"
proof -
  define m :: memory where "m = store_bytes 16 [47, 97, 98, 47, 99, 0, 47, 0] (\<lambda>_. 0)"
  have str: "cstr m 16 [47, 97, 98, 47, 99]" "cstr m 22 [47]"
    by (simp_all add: m_def store_bytes_def)
  let ?skip = "[47 :: u8]" and ?tok = "[97 :: u8, 98]"
  have "strtok 0 m 16 22 = Some (if length ?skip = length [47 :: u8, 97, 98, 47, 99] then (0, 0, m)
      else if length ?skip + length ?tok = length [47 :: u8, 97, 98, 47, 99] then (17, 0, m)
      else (17, 19 + 1, m(19 := 0)))"
    by (rule strtok_token [OF str]) simp_all
  then show ?thesis unfolding m_def [symmetric] by (simp del: fun_upd_apply)
qed

end
