(* ===== verification/Vga.thy ===== *)
theory Vga
  imports Utill
begin

unbundle bit_operations_syntax

text \<open>
  The text console: \<^verbatim>\<open>DRIVER/vga.c\<close> and the hardware cursor of \<^verbatim>\<open>DRIVER/cursor.c\<close>.

  The state adds the file-scope variables of \<^verbatim>\<open>vga.c\<close> and the cells of the text buffer, indexed as
  the code indexes \<^verbatim>\<open>vga[i]\<close>: an index is a C \<^verbatim>\<open>int\<close>, so the 80 cells below the buffer that
  \<^verbatim>\<open>scroll_up\<close> writes have the indices \<open>-80\<close> to \<open>-1\<close>.
\<close>

record vga_state = machine +
  vga_colomn :: u8
  vga_row :: u8
  current_vga_color :: u16
  vga :: "int \<Rightarrow> u16"

definition VGA_COLOR8_BLACK :: u16 where "VGA_COLOR8_BLACK = 0"
definition VGA_COLOR8_WHITE :: u16 where "VGA_COLOR8_WHITE = 15"
abbreviation "VGA_WIDTH \<equiv> 80"
abbreviation "VGA_HEIGHT \<equiv> 25"

definition default_vga_color :: u16 where
  "default_vga_color = push_bit 8 VGA_COLOR8_WHITE OR push_bit 12 VGA_COLOR8_BLACK"

text \<open>The bytes of a string literal.\<close>

definition str :: "string \<Rightarrow> bytes" where
  "str = map of_char"

section \<open>The cursor\<close>

definition enable_cursor :: "u8 \<Rightarrow> u8 \<Rightarrow> 'a machine_scheme \<Rightarrow> 'a machine_scheme" where
  "enable_cursor cursor_start cursor_end s =
     (let s = outb 0x3D4 0x0A s;
          (v, s) = inb 0x3D5 s;
          s = outb 0x3D5 ((v AND 0xC0) OR cursor_start) s;
          s = outb 0x3D4 0x0B s;
          (v, s) = inb 0x3D5 s
      in outb 0x3D5 ((v AND 0xE0) OR cursor_end) s)"

definition update_cursor :: "int \<Rightarrow> int \<Rightarrow> 'a machine_scheme \<Rightarrow> 'a machine_scheme" where
  "update_cursor x y s =
     (let pos = (word_of_int (y * VGA_WIDTH + x) :: u16);
          s = outb 0x3D4 0x0F s;
          s = outb 0x3D5 (ucast (pos AND 0xFF)) s;
          s = outb 0x3D4 0x0E s
      in outb 0x3D5 (ucast (drop_bit 8 pos AND 0xFF)) s)"

section \<open>The console\<close>

text \<open>A character is or-ed into the colour as a C \<^verbatim>\<open>char\<close>: the byte is sign-extended.\<close>

definition vga_cell :: "u8 \<Rightarrow> 'a vga_state_scheme \<Rightarrow> u16" where
  "vga_cell c s = scast c OR current_vga_color s"

definition scroll_up :: "'a vga_state_scheme \<Rightarrow> 'a vga_state_scheme" where
  "scroll_up s =
     (let moved = fold (\<lambda>y v. fold (\<lambda>x v. v((int y - 1) * VGA_WIDTH + int x := v (int y * VGA_WIDTH + int x)))
                                   [0..<VGA_WIDTH] v)
                       [0..<VGA_HEIGHT] (vga s);
          cleared = fold (\<lambda>x v. v((VGA_HEIGHT - 1) * VGA_WIDTH + int x := vga_cell 32 s))
                       [0..<VGA_HEIGHT] moved
      in s\<lparr>vga := cleared\<rparr>)"

definition new_line :: "'a vga_state_scheme \<Rightarrow> 'a vga_state_scheme" where
  "new_line s =
     (if uint (vga_row s) < VGA_HEIGHT - 1
      then s\<lparr>vga_colomn := 0, vga_row := vga_row s + 1\<rparr>
      else (scroll_up s)\<lparr>vga_colomn := 0\<rparr>)"

definition wrap_line :: "'a vga_state_scheme \<Rightarrow> 'a vga_state_scheme" where
  "wrap_line s = (if vga_colomn s = VGA_WIDTH then new_line s else s)"

definition tab_step :: "'a vga_state_scheme \<Rightarrow> 'a vga_state_scheme" where
  "tab_step s = (let s = wrap_line s in s\<lparr>vga_colomn := vga_colomn s + 1\<rparr>)"

definition put_char :: "u8 \<Rightarrow> 'a vga_state_scheme \<Rightarrow> 'a vga_state_scheme" where
  "put_char c s =
     (let s = wrap_line s
      in s\<lparr>vga := (vga s)(uint (vga_row s) * VGA_WIDTH + uint (vga_colomn s) := vga_cell c s),
           vga_colomn := vga_colomn s + 1\<rparr>)"

definition printc :: "u8 \<Rightarrow> 'a vga_state_scheme \<Rightarrow> 'a vga_state_scheme" where
  "printc c s =
     (let s = (if c = 10 then new_line s
               else if c = 13 then s\<lparr>vga_colomn := 0\<rparr>
               else if c = 9 then (tab_step ^^ 4) s
               else put_char c s)
      in update_cursor (uint (vga_colomn s)) (uint (vga_row s)) s)"

text \<open>\<^verbatim>\<open>print\<close> stops at the terminating zero of the array it is given.\<close>

definition print :: "bytes \<Rightarrow> 'a vga_state_scheme \<Rightarrow> 'a vga_state_scheme" where
  "print cs s = fold printc (takeWhile (\<lambda>c. c \<noteq> 0) cs) s"

definition vga_reset :: "'a vga_state_scheme \<Rightarrow> 'a vga_state_scheme" where
  "vga_reset s =
     (let s = s\<lparr>vga_colomn := 0, vga_row := 0, current_vga_color := default_vga_color\<rparr>;
          s = s\<lparr>vga := fold (\<lambda>y v. fold (\<lambda>x v. v(int y * VGA_WIDTH + int x := vga_cell 32 s))
                                   [0..<VGA_WIDTH] v)
                       [0..<VGA_HEIGHT] (vga s)\<rparr>
      in update_cursor (uint (vga_colomn s)) (uint (vga_row s)) s)"

text \<open>\<^verbatim>\<open>vga_delete\<close> returns at the top left corner without moving the hardware cursor.\<close>

fun vga_delete_loop :: "nat \<Rightarrow> 'a vga_state_scheme \<Rightarrow> 'a vga_state_scheme" where
  "vga_delete_loop 0 s = update_cursor (uint (vga_colomn s)) (uint (vga_row s)) s"
| "vga_delete_loop (Suc n) s =
     (if vga_colomn s = 0 \<and> vga_row s = 0 then s
      else
        let s = (if vga_colomn s = 0
                 then s\<lparr>vga_row := vga_row s - 1, vga_colomn := VGA_WIDTH - 1\<rparr>
                 else s\<lparr>vga_colomn := vga_colomn s - 1\<rparr>);
            s = s\<lparr>vga := (vga s)(uint (vga_row s) * VGA_WIDTH + uint (vga_colomn s) := vga_cell 32 s)\<rparr>
        in vga_delete_loop n s)"

definition vga_delete :: "u32 \<Rightarrow> 'a vga_state_scheme \<Rightarrow> 'a vga_state_scheme" where
  "vga_delete count s = vga_delete_loop (unat count) s"

section \<open>Printing numbers\<close>

function printi_digits :: "u32 \<Rightarrow> bytes \<Rightarrow> bytes" where
  "printi_digits num buffer =
     (if num > 0 then printi_digits (num div 10) (buffer @ [48 + ucast (num mod 10)]) else buffer)"
  by pat_completeness auto
termination
  by (relation "measure (\<lambda>(num, _). unat num)") (auto simp: unat_div u_simps)

declare printi_digits.simps [simp del]

text \<open>The in-place reversal of the \<open>i\<close> digits in the buffer.\<close>

definition swap_ends :: "nat \<Rightarrow> nat \<Rightarrow> bytes \<Rightarrow> bytes" where
  "swap_ends i j b = b[j := b ! (i - 1 - j), i - 1 - j := b ! j]"

definition printi :: "u32 \<Rightarrow> 'a vga_state_scheme \<Rightarrow> 'a vga_state_scheme" where
  "printi num s =
     (if num = 0 then print (str ''0'') s
      else let buffer = printi_digits num []; i = length buffer;
               buffer = fold (swap_ends i) [0..<i div 2] buffer
           in print (buffer @ [0]) s)"

definition hex_chars :: bytes where
  "hex_chars = str ''0123456789abcdef''"

function printh_digits :: "u32 \<Rightarrow> bytes \<Rightarrow> bytes" where
  "printh_digits num buffer =
     (if num > 0 then printh_digits (drop_bit 4 num) (buffer @ [hex_chars ! unat (num AND 0xF)])
      else buffer)"
  by pat_completeness auto
termination
  by (relation "measure (\<lambda>(num, _). unat num)") (auto simp: drop_bit_eq_div unat_div u_simps)

declare printh_digits.simps [simp del]

definition printh :: "u32 \<Rightarrow> 'a vga_state_scheme \<Rightarrow> 'a vga_state_scheme" where
  "printh num s =
     (if num = 0 then print (str ''0x0'') s
      else let s = print (str ''0x'') s;
               buffer = printh_digits num []
           in fold printc (rev buffer) s)"

text \<open>\<^verbatim>\<open>kernel_panic\<close> of \<^verbatim>\<open>utill.c\<close> prints and halts the machine.\<close>

definition kernel_panic :: "'a vga_state_scheme \<Rightarrow> ('b, 'a vga_state_scheme) res" where
  "kernel_panic s = Panic (print (str ''KERNEL PANIC!'' @ [10]) s)"

section \<open>What the console operations leave alone\<close>

text \<open>Every console operation is an update of the device, the cells and the cursor position. The
  simplification rules that later theories prove about it follow from this form.\<close>

definition console_step :: "'a vga_state_scheme \<Rightarrow> 'a vga_state_scheme \<Rightarrow> bool" where
  "console_step s t \<longleftrightarrow>
     mem t = mem s \<and> current_vga_color t = current_vga_color s \<and> vga_state.more t = vga_state.more s"

lemma console_step_refl [simp, intro]: "console_step s s"
  by (simp add: console_step_def)

lemma console_step_trans: "console_step s t \<Longrightarrow> console_step t u \<Longrightarrow> console_step s u"
  by (simp add: console_step_def)

lemma console_stepI [simp]:
  "console_step s (t\<lparr>dev := d\<rparr>) \<longleftrightarrow> console_step s t"
  "console_step s (t\<lparr>vga := v\<rparr>) \<longleftrightarrow> console_step s t"
  "console_step s (t\<lparr>vga_colomn := c\<rparr>) \<longleftrightarrow> console_step s t"
  "console_step s (t\<lparr>vga_row := r\<rparr>) \<longleftrightarrow> console_step s t"
  by (simp_all add: console_step_def)

lemma console_step_form:
  "console_step s t \<Longrightarrow>
     t = s\<lparr>dev := dev t, vga := vga t, vga_colomn := vga_colomn t, vga_row := vga_row t\<rparr>"
  by (simp add: console_step_def)

lemma console_step_fields:
  "console_step s t \<Longrightarrow> mem t = mem s"
  "console_step s t \<Longrightarrow> current_vga_color t = current_vga_color s"
  "console_step s t \<Longrightarrow> vga_state.more t = vga_state.more s"
  by (simp_all add: console_step_def)

lemma console_outb [simp]: "console_step s (outb p v t) \<longleftrightarrow> console_step s t"
  by (simp add: outb_def)

lemma console_update_cursor [simp]: "console_step s (update_cursor x y t) \<longleftrightarrow> console_step s t"
  by (simp add: update_cursor_def Let_def)

lemma console_scroll_up [simp]: "console_step s (scroll_up t) \<longleftrightarrow> console_step s t"
  by (simp add: scroll_up_def Let_def)

lemma console_new_line [simp]: "console_step s (new_line t) \<longleftrightarrow> console_step s t"
  by (simp add: new_line_def)

lemma console_wrap_line [simp]: "console_step s (wrap_line t) \<longleftrightarrow> console_step s t"
  by (simp add: wrap_line_def)

lemma console_tab_step [simp]: "console_step s (tab_step t) \<longleftrightarrow> console_step s t"
  by (simp add: tab_step_def Let_def)

lemma console_funpow:
  "(\<And>t. console_step s (f t) \<longleftrightarrow> console_step s t) \<Longrightarrow> console_step s ((f ^^ n) t) \<longleftrightarrow> console_step s t"
  by (induction n) auto

lemma console_put_char [simp]: "console_step s (put_char c t) \<longleftrightarrow> console_step s t"
  by (simp add: put_char_def Let_def)

lemma console_printc [simp]: "console_step s (printc c t) \<longleftrightarrow> console_step s t"
  using console_funpow [of s tab_step 4 t] by (simp add: printc_def Let_def)

lemma console_fold:
  "(\<And>x t. console_step s (f x t) \<longleftrightarrow> console_step s t) \<Longrightarrow>
     console_step s (fold f xs t) \<longleftrightarrow> console_step s t"
  by (induction xs arbitrary: t) auto

lemma console_print [simp]: "console_step s (print cs t) \<longleftrightarrow> console_step s t"
  unfolding print_def by (rule console_fold) simp

lemma console_printi [simp]: "console_step s (printi n t) \<longleftrightarrow> console_step s t"
  by (simp add: printi_def Let_def)

lemma console_printh [simp]: "console_step s (printh n t) \<longleftrightarrow> console_step s t"
  by (simp add: printh_def Let_def console_fold)

lemma console_delete_loop: "console_step s (vga_delete_loop n t) \<longleftrightarrow> console_step s t"
  by (induction n arbitrary: t) (simp_all add: Let_def)

lemma console_delete [simp]: "console_step s (vga_delete n t) \<longleftrightarrow> console_step s t"
  by (simp add: vga_delete_def console_delete_loop)

text \<open>Each output operation is a console step.\<close>

lemma console_steps:
  "console_step s (printc c s)" "console_step s (print cs s)" "console_step s (printi n s)"
  "console_step s (printh n s)" "console_step s (vga_delete n s)"
  "console_step s (update_cursor x y s)"
  by simp_all

lemmas console_mem [simp] = console_steps [THEN console_step_fields(1)]

section \<open>The cursor stays on the screen\<close>

definition vga_wf :: "'a vga_state_scheme \<Rightarrow> bool" where
  "vga_wf s \<longleftrightarrow> uint (vga_colomn s) \<le> VGA_WIDTH \<and> uint (vga_row s) < VGA_HEIGHT"

lemma uint_Suc_u8: "uint (x :: u8) < 255 \<Longrightarrow> uint (x + 1) = uint x + 1"
  by (simp add: uint_word_ariths)

lemma uint_pred_u8: "(x :: u8) \<noteq> 0 \<Longrightarrow> uint (x - 1) = uint x - 1"
  using uint_ge_0 [of x] uint_lt2p [of x]
  by (auto simp: uint_word_ariths word_neq_0_conv word_less_def intro!: mod_pos_pos_trivial)

lemma wf_update_cursor [simp]: "vga_wf (update_cursor x y s) \<longleftrightarrow> vga_wf s"
  by (simp add: vga_wf_def update_cursor_def outb_def Let_def)

lemma scroll_up_cursor [simp]:
  "vga_colomn (scroll_up s) = vga_colomn s" "vga_row (scroll_up s) = vga_row s"
  by (simp_all add: scroll_up_def Let_def)

lemma wf_new_line: "vga_wf s \<Longrightarrow> vga_wf (new_line s) \<and> vga_colomn (new_line s) = 0"
  by (auto simp: new_line_def vga_wf_def uint_Suc_u8)

lemma wf_wrap_line: "vga_wf s \<Longrightarrow> vga_wf (wrap_line s) \<and> uint (vga_colomn (wrap_line s)) < VGA_WIDTH"
  using wf_new_line [of s]
  by (auto simp: wrap_line_def vga_wf_def word_uint_eq_iff)

lemma wf_tab_step: "vga_wf s \<Longrightarrow> vga_wf (tab_step s)"
  using wf_wrap_line [of s] by (auto simp: tab_step_def vga_wf_def Let_def uint_Suc_u8)

lemma wf_funpow:
  fixes f :: "'a vga_state_scheme \<Rightarrow> 'a vga_state_scheme"
  shows "(\<And>s. vga_wf s \<Longrightarrow> vga_wf (f s)) \<Longrightarrow> vga_wf s \<Longrightarrow> vga_wf ((f ^^ n) s)"
  by (induction n) auto

lemma wf_put_char: "vga_wf s \<Longrightarrow> vga_wf (put_char c s)"
  using wf_wrap_line [of s] by (auto simp: put_char_def vga_wf_def Let_def uint_Suc_u8)

lemma wf_column_0: "vga_wf s \<Longrightarrow> vga_wf (s\<lparr>vga_colomn := 0\<rparr>)"
  by (simp add: vga_wf_def)

lemma wf_printc: "vga_wf s \<Longrightarrow> vga_wf (printc c s)"
  by (simp add: printc_def Let_def wf_new_line wf_put_char wf_column_0
      wf_funpow [OF wf_tab_step] del: funpow.simps)

lemma wf_fold: "(\<And>x s. vga_wf s \<Longrightarrow> vga_wf (f x s)) \<Longrightarrow> vga_wf s \<Longrightarrow> vga_wf (fold f xs s)"
  by (induction xs arbitrary: s) auto

lemma wf_print: "vga_wf s \<Longrightarrow> vga_wf (print cs s)"
  by (simp add: print_def wf_fold wf_printc)

lemma wf_printi: "vga_wf s \<Longrightarrow> vga_wf (printi n s)"
  by (simp add: printi_def Let_def wf_print)

lemma wf_printh: "vga_wf s \<Longrightarrow> vga_wf (printh n s)"
  by (simp add: printh_def Let_def wf_print wf_fold wf_printc)

lemma wf_reset: "vga_wf (vga_reset s)"
  by (simp add: vga_reset_def vga_wf_def Let_def update_cursor_def outb_def)

lemma wf_delete_loop: "vga_wf s \<Longrightarrow> vga_wf (vga_delete_loop n s)"
proof (induction n arbitrary: s)
  case (Suc n)
  then show ?case
    unfolding vga_delete_loop.simps Let_def
    by (auto intro!: Suc.IH simp: vga_wf_def uint_pred_u8)
qed simp

lemmas vga_wf_intros = wf_printc wf_print wf_printi wf_printh wf_reset wf_delete_loop

text \<open>The controller that shows the cursor: a port selects one of its registers, the next one writes
  it. Registers 14 and 15 hold the high and the low byte of the cursor's position.\<close>

record crtc_state =
  crtc_index :: u8
  crtc_regs :: "u8 \<Rightarrow> u8"

definition crtc_outb :: "crtc_state \<Rightarrow> u16 \<Rightarrow> u8 \<Rightarrow> crtc_state" where
  "crtc_outb d port v =
     (if port = 0x3D4 then d\<lparr>crtc_index := v\<rparr>
      else if port = 0x3D5 then d\<lparr>crtc_regs := (crtc_regs d)(crtc_index d := v)\<rparr> else d)"

definition crtc_inb :: "crtc_state \<Rightarrow> u16 \<Rightarrow> u8 \<times> crtc_state" where
  "crtc_inb d port = (if port = 0x3D5 then crtc_regs d (crtc_index d) else 0, d)"

definition crtc :: "crtc_state \<Rightarrow> iodev" where
  "crtc = device crtc_inb (\<lambda>d p. (0, d)) crtc_outb (\<lambda>d p v. d)"

definition crtc_position :: "crtc_state \<Rightarrow> u16" where
  "crtc_position d = of_le16 (crtc_regs d 0x0F) (crtc_regs d 0x0E)"

lemma crtc_out: "io_outb (crtc d) p v = crtc (crtc_outb d p v)"
  by (simp add: crtc_def)

lemma ucast_low_byte: "(ucast (v AND 0xFF :: u16) :: u8) = ucast v" "(ucast (drop_bit 8 v AND 0xFF :: u16) :: u8) = ucast (drop_bit 8 v)"
  unfolding mask_literals by (rule bit_word_eqI, auto simp: bit_simps)+

text \<open>\<^verbatim>\<open>update_cursor\<close> makes the controller show the position.\<close>

lemma update_cursor_crtc:
  assumes "dev s = crtc d"
  shows "\<exists>d'. dev (update_cursor x y s) = crtc d' \<and> crtc_position d' = word_of_int (y * VGA_WIDTH + x)"
proof -
  let ?p = "word_of_int (y * VGA_WIDTH + x) :: u16"
  let ?d = "crtc_outb (crtc_outb (crtc_outb (crtc_outb d 0x3D4 0x0F) 0x3D5 (ucast (?p AND 0xFF))) 0x3D4 0x0E) 0x3D5
    (ucast (drop_bit 8 ?p AND 0xFF))"
  have "dev (update_cursor x y s) = crtc ?d" by (simp add: update_cursor_def outb_def Let_def crtc_out assms)
  moreover have "crtc_position ?d = ?p"
    by (simp only: crtc_position_def ucast_low_byte) (simp add: crtc_outb_def of_le16_split)
  ultimately show ?thesis by blast
qed

text \<open>The console with its controller: \<open>v\<close> are the cells it started with, and those that are neither
  in the text buffer nor in the row below it, which \<^verbatim>\<open>scroll_up\<close> writes, are still there.\<close>

definition cells_confined :: "(int \<Rightarrow> u16) \<Rightarrow> 'a vga_state_scheme \<Rightarrow> bool" where
  "cells_confined v t \<longleftrightarrow> (\<forall>i. i < - VGA_WIDTH \<or> VGA_WIDTH * VGA_HEIGHT \<le> i \<longrightarrow> vga t i = v i)"

definition cursor_shown :: "'a vga_state_scheme \<Rightarrow> bool" where
  "cursor_shown t \<longleftrightarrow> (\<exists>d. dev t = crtc d \<and> uint (crtc_position d) = uint (vga_row t) * VGA_WIDTH + uint (vga_colomn t))"

text \<open>\<open>drawing\<close> holds inside an operation, \<open>console_ok\<close> between operations.\<close>

definition drawing :: "(int \<Rightarrow> u16) \<Rightarrow> 'a vga_state_scheme \<Rightarrow> bool" where
  "drawing v t \<longleftrightarrow> vga_wf t \<and> cells_confined v t \<and> (\<exists>d. dev t = crtc d)"

definition console_ok :: "(int \<Rightarrow> u16) \<Rightarrow> 'a vga_state_scheme \<Rightarrow> bool" where
  "console_ok v t \<longleftrightarrow> vga_wf t \<and> cells_confined v t \<and> cursor_shown t"

lemma ok_drawing: "console_ok v t \<Longrightarrow> drawing v t"
  by (auto simp: console_ok_def drawing_def cursor_shown_def)

lemma ok_update_cursor:
  assumes "drawing v t"
  shows "console_ok v (update_cursor (uint (vga_colomn t)) (uint (vga_row t)) t)"
proof -
  have r: "uint (vga_row t) * VGA_WIDTH + uint (vga_colomn t) < 65536" "0 \<le> uint (vga_row t) * VGA_WIDTH + uint (vga_colomn t)"
    using assms uint_ge_0 [of "vga_row t"] uint_ge_0 [of "vga_colomn t"] by (auto simp: drawing_def vga_wf_def)
  then have "uint (word_of_int (uint (vga_row t) * VGA_WIDTH + uint (vga_colomn t)) :: u16) =
      uint (vga_row t) * VGA_WIDTH + uint (vga_colomn t)"
    by (simp add: word_of_int_inverse uint_word_of_int)
  moreover have "vga_row (update_cursor x y t) = vga_row t" "vga_colomn (update_cursor x y t) = vga_colomn t"
    "vga (update_cursor x y t) = vga t" for x y by (simp_all add: update_cursor_def outb_def Let_def)
  moreover obtain d where "dev t = crtc d" using assms by (auto simp: drawing_def)
  ultimately show ?thesis
    using update_cursor_crtc [of t d "uint (vga_colomn t)" "uint (vga_row t)"] assms
    by (auto simp: console_ok_def drawing_def cells_confined_def cursor_shown_def)
qed

lemma fold_elsewhere: "(\<And>x v. x \<in> set xs \<Longrightarrow> f x v i = v i) \<Longrightarrow> fold f xs v i = v i"
  by (induction xs arbitrary: v) auto

lemma scroll_up_elsewhere:
  assumes "i < - VGA_WIDTH \<or> VGA_WIDTH * VGA_HEIGHT \<le> i"
  shows "vga (scroll_up s) i = vga s i"
proof -
  let ?row = "\<lambda>y v. fold (\<lambda>x v. v((int y - 1) * VGA_WIDTH + int x := v (int y * VGA_WIDTH + int x))) [0..<VGA_WIDTH] v"
  have row: "?row y v i = v i" if "y \<in> set [0..<VGA_HEIGHT]" for y v
    using that assms by (intro fold_elsewhere) auto
  have moved: "fold ?row [0..<VGA_HEIGHT] (vga s) i = vga s i" by (rule fold_elsewhere) (rule row)
  have "fold (\<lambda>x v. v((VGA_HEIGHT - 1) * VGA_WIDTH + int x := vga_cell 32 s)) [0..<VGA_HEIGHT] v i = v i" for v
    using assms by (intro fold_elsewhere) auto
  then show ?thesis using moved by (simp add: scroll_up_def Let_def del: upt_rec_numeral)
qed

lemma drawing_new_line: "drawing v t \<Longrightarrow> drawing v (new_line t)"
proof -
  assume d: "drawing v t"
  have "vga (new_line t) i = vga t i" if "i < - VGA_WIDTH \<or> VGA_WIDTH * VGA_HEIGHT \<le> i" for i
    using scroll_up_elsewhere [OF that, of t] by (simp add: new_line_def)
  moreover have "dev (new_line t) = dev t" by (simp add: new_line_def scroll_up_def Let_def)
  ultimately show ?thesis using d wf_new_line [of t] by (auto simp: drawing_def cells_confined_def)
qed

lemma drawing_wrap_line: "drawing v t \<Longrightarrow> drawing v (wrap_line t)"
  by (simp add: wrap_line_def drawing_new_line)

lemma drawing_tab_step: "drawing v t \<Longrightarrow> drawing v (tab_step t)"
  using drawing_wrap_line [of v t] wf_tab_step [of t]
  by (auto simp: drawing_def cells_confined_def tab_step_def Let_def)

lemma drawing_put_char:
  assumes "drawing v t"
  shows "drawing v (put_char c t)"
proof -
  let ?w = "wrap_line t"
  have w: "drawing v ?w" using assms by (rule drawing_wrap_line)
  have "uint (vga_colomn ?w) < VGA_WIDTH" "uint (vga_row ?w) < VGA_HEIGHT"
    using wf_wrap_line [of t] assms by (auto simp: drawing_def vga_wf_def)
  then have "- VGA_WIDTH \<le> uint (vga_row ?w) * VGA_WIDTH + uint (vga_colomn ?w)"
    "uint (vga_row ?w) * VGA_WIDTH + uint (vga_colomn ?w) < VGA_WIDTH * VGA_HEIGHT"
    using uint_ge_0 [of "vga_row ?w"] uint_ge_0 [of "vga_colomn ?w"] by linarith+
  then show ?thesis using w wf_put_char [of t c] assms
    by (auto simp: drawing_def cells_confined_def put_char_def Let_def)
qed

lemma drawing_funpow:
  fixes f :: "'a vga_state_scheme \<Rightarrow> 'a vga_state_scheme"
  shows "(\<And>t. drawing v t \<Longrightarrow> drawing v (f t)) \<Longrightarrow> drawing v t \<Longrightarrow> drawing v ((f ^^ n) t)"
  by (induction n) auto

lemma ok_printc:
  assumes "console_ok v t"
  shows "console_ok v (printc c t)"
proof -
  have d: "drawing v t" using assms by (rule ok_drawing)
  then have "drawing v (t\<lparr>vga_colomn := 0\<rparr>)" by (auto simp: drawing_def cells_confined_def wf_column_0)
  then show ?thesis unfolding printc_def Let_def
    using d by (intro ok_update_cursor) (auto intro: drawing_new_line drawing_put_char drawing_funpow [OF drawing_tab_step])
qed

lemma ok_fold: "(\<And>x t. console_ok v t \<Longrightarrow> console_ok v (f x t)) \<Longrightarrow> console_ok v t \<Longrightarrow> console_ok v (fold f xs t)"
  by (induction xs arbitrary: t) auto

lemma ok_print: "console_ok v t \<Longrightarrow> console_ok v (print cs t)"
  by (simp add: print_def ok_fold ok_printc)

lemma ok_printi: "console_ok v t \<Longrightarrow> console_ok v (printi n t)"
  by (simp add: printi_def Let_def ok_print)

lemma ok_printh: "console_ok v t \<Longrightarrow> console_ok v (printh n t)"
  by (simp add: printh_def Let_def ok_print ok_fold ok_printc)

lemma ok_reset:
  assumes "dev s = crtc d"
  shows "console_ok (vga s) (vga_reset s)"
proof -
  let ?s = "s\<lparr>vga_colomn := 0, vga_row := 0, current_vga_color := default_vga_color\<rparr>"
  let ?row = "\<lambda>y v. fold (\<lambda>x v. v(int y * VGA_WIDTH + int x := vga_cell 32 ?s)) [0..<VGA_WIDTH] v"
  have row: "?row y v i = v i" if "y \<in> set [0..<VGA_HEIGHT]" "i < - VGA_WIDTH \<or> VGA_WIDTH * VGA_HEIGHT \<le> i" for y v i
    using that by (intro fold_elsewhere) auto
  have "fold ?row [0..<VGA_HEIGHT] (vga s) i = vga s i" if "i < - VGA_WIDTH \<or> VGA_WIDTH * VGA_HEIGHT \<le> i" for i
    by (rule fold_elsewhere) (rule row [OF _ that])
  then have "drawing (vga s) (?s\<lparr>vga := fold ?row [0..<VGA_HEIGHT] (vga ?s)\<rparr>)"
    using assms by (auto simp: drawing_def vga_wf_def cells_confined_def simp del: upt_rec_numeral)
  from ok_update_cursor [OF this] show ?thesis unfolding vga_reset_def Let_def by simp
qed

abbreviation cell_of :: "'a vga_state_scheme \<Rightarrow> int" where
  "cell_of t \<equiv> uint (vga_row t) * VGA_WIDTH + uint (vga_colomn t)"

text \<open>One turn of the loop of \<^verbatim>\<open>vga_delete\<close>: the cell before the cursor is blanked.\<close>

definition delete_step :: "'a vga_state_scheme \<Rightarrow> 'a vga_state_scheme" where
  "delete_step s =
     (let s = (if vga_colomn s = 0 then s\<lparr>vga_row := vga_row s - 1, vga_colomn := VGA_WIDTH - 1\<rparr>
               else s\<lparr>vga_colomn := vga_colomn s - 1\<rparr>)
      in s\<lparr>vga := (vga s)(uint (vga_row s) * VGA_WIDTH + uint (vga_colomn s) := vga_cell 32 s)\<rparr>)"

lemma delete_loop_Suc:
  "vga_delete_loop (Suc n) s = (if vga_colomn s = 0 \<and> vga_row s = 0 then s else vga_delete_loop n (delete_step s))"
  by (simp add: delete_step_def Let_def)

lemma cell_of_0: "cell_of t = 0 \<longleftrightarrow> vga_colomn t = 0 \<and> vga_row t = 0"
proof -
  have "0 \<le> uint (vga_row t)" "0 \<le> uint (vga_colomn t)" by simp_all
  then have "cell_of t = 0 \<longleftrightarrow> uint (vga_colomn t) = 0 \<and> uint (vga_row t) = 0" by linarith
  then show ?thesis by (simp add: word_uint_eq_iff)
qed

lemma delete_step_keeps:
  assumes "drawing v t" and "cell_of t \<noteq> 0"
  shows "drawing v (delete_step t)" "cell_of (delete_step t) = cell_of t - 1"
proof -
  have ne: "vga_colomn t = 0 \<Longrightarrow> vga_row t \<noteq> 0" using assms(2) by (auto simp: cell_of_0)
  have r: "uint (vga_row t) < VGA_HEIGHT" "uint (vga_colomn t) \<le> VGA_WIDTH" using assms(1) by (auto simp: drawing_def vga_wf_def)
  have u: "vga_colomn t \<noteq> 0 \<Longrightarrow> uint (vga_colomn t - 1) = uint (vga_colomn t) - 1"
    "vga_colomn t = 0 \<Longrightarrow> uint (vga_row t - 1) = uint (vga_row t) - 1" using ne by (auto simp: uint_pred_u8)
  show c: "cell_of (delete_step t) = cell_of t - 1"
    using u by (simp add: delete_step_def Let_def)
  have "0 \<le> cell_of t - 1" "cell_of t - 1 < VGA_WIDTH * VGA_HEIGHT"
    using c r uint_ge_0 [of "vga_row (delete_step t)"] uint_ge_0 [of "vga_colomn (delete_step t)"] by linarith+
  moreover have "vga (delete_step t) i = vga t i" if "i \<noteq> cell_of t - 1" for i
    using that u by (cases "vga_colomn t = 0") (auto simp: delete_step_def Let_def)
  ultimately have "cells_confined v (delete_step t)" using assms(1) by (auto simp: drawing_def cells_confined_def)
  moreover have "vga_wf (delete_step t)" using r u by (auto simp: vga_wf_def delete_step_def Let_def)
  ultimately show "drawing v (delete_step t)" using assms(1) by (auto simp: drawing_def delete_step_def Let_def)
qed

lemma drawing_delete_loop: "drawing v t \<Longrightarrow> drawing v (vga_delete_loop n t)"
proof (induction n arbitrary: t)
  case 0
  then show ?case using ok_drawing [OF ok_update_cursor] by simp
next
  case (Suc n)
  show ?case
  proof (cases "cell_of t = 0")
    case True
    with Suc.prems show ?thesis by (simp add: delete_loop_Suc cell_of_0)
  next
    case False
    have "drawing v (vga_delete_loop n (delete_step t))" by (rule Suc.IH [OF delete_step_keeps(1) [OF Suc.prems False]])
    with False show ?thesis unfolding delete_loop_Suc by (auto simp: cell_of_0)
  qed
qed

lemma ok_delete_loop: "drawing v t \<Longrightarrow> int n \<le> cell_of t \<Longrightarrow> console_ok v (vga_delete_loop n t)"
proof (induction n arbitrary: t)
  case 0
  then show ?case by (simp add: ok_update_cursor)
next
  case (Suc n)
  then have ne: "cell_of t \<noteq> 0" by simp
  with Suc show ?case unfolding delete_loop_Suc
    using delete_step_keeps [OF Suc.prems(1) ne] cell_of_0 [of t] by auto
qed

lemma ok_delete:
  assumes "console_ok v t" and "int (unat n) \<le> cell_of t \<or> cell_of t = 0"
  shows "console_ok v (vga_delete n t)"
proof (cases "int (unat n) \<le> cell_of t")
  case True
  then show ?thesis unfolding vga_delete_def by (intro ok_delete_loop ok_drawing [OF assms(1)])
next
  case False
  then obtain k where "unat n = Suc k" using assms(2) by (cases "unat n") auto
  then show ?thesis using assms False by (simp add: vga_delete_def cell_of_0)
qed

text \<open>C24: resetting the console puts it into a good state, whatever the state before, and output keeps
  it: the row is below the height and the column at most the width (a full row is left with the next
  character, so that after the last cell the position is 2000, one past the screen), the controller
  shows the cursor at the position of these two variables, and nothing is written but the cells of
  the text buffer and of the 80 cells before it. Deleting keeps all this as long as it does not run into
  the top left corner, and else all but what the controller shows: it returns without telling it.\<close>

theorem console_confined:
  "(dev s = crtc d \<longrightarrow> console_ok (vga s) (vga_reset s)) \<and>
   (console_ok v s \<longrightarrow> console_ok v (printc c s) \<and> console_ok v (print cs s) \<and> console_ok v (printi n s) \<and>
     console_ok v (printh n s) \<and> drawing v (vga_delete n s) \<and>
     (int (unat n) \<le> cell_of s \<or> cell_of s = 0 \<longrightarrow> console_ok v (vga_delete n s)))"
proof -
  have "drawing v (vga_delete n s)" if "console_ok v s"
    unfolding vga_delete_def by (intro drawing_delete_loop ok_drawing that)
  then show ?thesis by (auto intro: ok_reset ok_printc ok_print ok_printi ok_printh ok_delete)
qed

text \<open>A console at the start of the first row, on a machine without devices, and one with a controller.\<close>

definition blank_console :: vga_state where
  "blank_console = \<lparr>dev = null_dev, mem = (\<lambda>_. 0), vga_colomn = 0, vga_row = 0,
     current_vga_color = default_vga_color, vga = (\<lambda>_. 0)\<rparr>"

definition crtc_console :: vga_state where
  "crtc_console = blank_console\<lparr>dev := crtc \<lparr>crtc_index = 0, crtc_regs = (\<lambda>_. 0)\<rparr>\<rparr>"

theorem console_confined_witness:
  "console_ok (\<lambda>_. 0) (print (str ''cl-os'') (vga_reset crtc_console))"
proof -
  have "console_ok (\<lambda>_. 0) (vga_reset crtc_console)"
    using console_confined [of crtc_console "\<lparr>crtc_index = 0, crtc_regs = (\<lambda>_. 0)\<rparr>"]
    by (simp add: crtc_console_def blank_console_def)
  then show ?thesis using console_confined [of "vga_reset crtc_console" _ "\<lambda>_. 0" 0 "str ''cl-os''" 0] by blast
qed

section \<open>Scrolling\<close>

lemma copy_row:
  fixes a b :: int
  assumes "a + int n \<le> b"
  shows "fold (\<lambda>x v. v(a + int x := v (b + int x))) [0..<n] v
       = (\<lambda>i. if a \<le> i \<and> i < a + int n then v (i - a + b) else v i)"
  using assms
proof (induction n)
  case (Suc n)
  let ?c = "\<lambda>x v. v(a + int x := v (b + int x))"
  let ?v = "\<lambda>i. if a \<le> i \<and> i < a + int n then v (i - a + b) else v i"
  have "fold ?c [0..<Suc n] v = ?c n (fold ?c [0..<n] v)" by simp
  also have "fold ?c [0..<n] v = ?v" by (rule Suc.IH) (use Suc.prems in simp)
  also have "?c n ?v = (\<lambda>i. if a \<le> i \<and> i < a + int (Suc n) then v (i - a + b) else v i)"
    using Suc.prems by (auto simp: fun_eq_iff add.commute)
  finally show ?case .
qed (auto simp: fun_eq_iff)

lemma copy_rows:
  "fold (\<lambda>y v. fold (\<lambda>x v. v((int y - 1) * 80 + int x := v (int y * 80 + int x))) [0..<80] v) [0..<h] v
   = (\<lambda>i. if -80 \<le> i \<and> i < int h * 80 - 80 then v (i + 80) else v i)"
proof (induction h)
  case (Suc h)
  let ?r = "\<lambda>y v. fold (\<lambda>x v. v((int y - 1) * 80 + int x := v (int y * 80 + int x))) [0..<80] v"
  let ?v = "\<lambda>i. if -80 \<le> i \<and> i < int h * 80 - 80 then v (i + 80) else v i"
  have "fold ?r [0..<Suc h] v = ?r h (fold ?r [0..<h] v)" by simp
  also have "\<dots> = ?r h ?v" by (simp only: Suc.IH)
  also have "\<dots> = (\<lambda>i. if (int h - 1) * 80 \<le> i \<and> i < (int h - 1) * 80 + int 80
      then ?v (i - (int h - 1) * 80 + int h * 80) else ?v i)"
    by (rule copy_row) simp
  also have "\<dots> = (\<lambda>i. if -80 \<le> i \<and> i < int (Suc h) * 80 - 80 then v (i + 80) else v i)"
    by (auto simp: fun_eq_iff algebra_simps)
  finally show ?case .
qed (auto simp: fun_eq_iff)

lemma fill_cells:
  "fold (\<lambda>x v. v(a + int x := w)) [0..<n] v = (\<lambda>i. if a \<le> i \<and> i < a + int n then w else v i)"
  by (induction n) (auto simp: fun_eq_iff)

text \<open>C27: what \<^verbatim>\<open>scroll_up\<close> does, cell by cell. Every row moves up by one; the top row goes to the 80
  cells below the buffer, and only the first 25 cells of the bottom row are blanked, so the other 55
  keep the row that was at the bottom before.\<close>

theorem scroll_up_cells:
  "vga (scroll_up s) i =
     (if 1920 \<le> i \<and> i < 1945 then vga_cell 32 s
      else if -80 \<le> i \<and> i < 1920 then vga s (i + 80)
      else vga s i)"
proof -
  have "vga (scroll_up s) = fold (\<lambda>x v. v(1920 + int x := vga_cell 32 s)) [0..<25]
      (\<lambda>i. if -80 \<le> i \<and> i < int 25 * 80 - 80 then vga s (i + 80) else vga s i)"
    unfolding scroll_up_def Let_def copy_rows by simp
  also have "\<dots> = (\<lambda>j. if 1920 \<le> j \<and> j < 1920 + int 25 then vga_cell 32 s
      else if -80 \<le> j \<and> j < int 25 * 80 - 80 then vga s (j + 80) else vga s j)"
    by (rule fill_cells)
  finally show ?thesis by simp
qed

section \<open>Numerals\<close>

text \<open>The numeral of \<open>n\<close> in base \<open>b\<close> with the digit characters \<open>d\<close>, most significant first, and the
  number a numeral stands for.\<close>

fun in_base :: "nat \<Rightarrow> (nat \<Rightarrow> u8) \<Rightarrow> nat \<Rightarrow> bytes" where
  "in_base b d n = (if n < b \<or> b \<le> 1 then [d n] else in_base b d (n div b) @ [d (n mod b)])"

declare in_base.simps [simp del]

definition base_value :: "nat \<Rightarrow> (u8 \<Rightarrow> nat) \<Rightarrow> bytes \<Rightarrow> nat" where
  "base_value b v cs = foldl (\<lambda>n c. n * b + v c) 0 cs"

definition dec_digit :: "nat \<Rightarrow> u8" where "dec_digit k = 48 + of_nat k"
definition hex_digit :: "nat \<Rightarrow> u8" where "hex_digit k = hex_chars ! k"

lemma in_base_value:
  assumes "\<And>k. k < b \<Longrightarrow> v (d k) = k" and "1 < b"
  shows "base_value b v (in_base b d n) = n"
proof (induction n rule: less_induct)
  case (less n)
  show ?case
  proof (cases "n < b")
    case True
    with assms show ?thesis by (simp add: in_base.simps [of b d n] base_value_def)
  next
    case False
    with assms(2) have "n div b < n" by (simp add: div_less_dividend)
    with less.IH have "foldl (\<lambda>n c. n * b + v c) 0 (in_base b d (n div b)) = n div b"
      by (simp add: base_value_def)
    with False assms show ?thesis by (simp add: in_base.simps [of b d n] base_value_def)
  qed
qed

lemma swap_upto:
  assumes "length b = i" and "k \<le> i div 2"
  shows "fold (swap_ends i) [0..<k] b
       = map (\<lambda>j. if j < k \<or> i - 1 - j < k then b ! (i - 1 - j) else b ! j) [0..<i]"
  using assms(2)
proof (induction k)
  case 0
  then show ?case using assms(1) by (auto intro: nth_equalityI)
next
  case (Suc k)
  let ?b = "map (\<lambda>j. if j < k \<or> i - 1 - j < k then b ! (i - 1 - j) else b ! j) [0..<i]"
  have "fold (swap_ends i) [0..<Suc k] b = swap_ends i k ?b" using Suc by simp
  also have "\<dots> = map (\<lambda>j. if j < Suc k \<or> i - 1 - j < Suc k then b ! (i - 1 - j) else b ! j) [0..<i]"
  proof (rule nth_equalityI)
    fix j assume "j < length (swap_ends i k ?b)"
    then have "j < i" by (simp add: swap_ends_def)
    moreover have "2 * k < i" "k < i" using Suc.prems by linarith+
    ultimately show "swap_ends i k ?b ! j
        = map (\<lambda>j. if j < Suc k \<or> i - 1 - j < Suc k then b ! (i - 1 - j) else b ! j) [0..<i] ! j"
      by (auto simp: swap_ends_def nth_list_update less_Suc_eq)
  qed (simp add: swap_ends_def)
  finally show ?case .
qed

lemma swap_all: "fold (swap_ends (length b)) [0..<length b div 2] b = rev b"
proof (rule nth_equalityI)
  show "length (fold (swap_ends (length b)) [0..<length b div 2] b) = length (rev b)"
    by (simp add: swap_upto)
  fix j assume "j < length (fold (swap_ends (length b)) [0..<length b div 2] b)"
  then have "j < length b" by (simp add: swap_upto)
  then show "fold (swap_ends (length b)) [0..<length b div 2] b ! j = rev b ! j"
  proof -
    have "b ! j = b ! (length b - Suc j)" if "\<not> j < length b div 2" "\<not> length b - Suc j < length b div 2"
      using that \<open>j < length b\<close> by (intro arg_cong [where f = "(!) b"]) linarith
    with \<open>j < length b\<close> show ?thesis by (auto simp: swap_upto rev_nth)
  qed
qed

lemma printi_digits_decimal:
  "0 < num \<Longrightarrow> printi_digits num buf = buf @ rev (in_base 10 dec_digit (unat num))"
proof (induction num buf rule: printi_digits.induct)
  case (1 num buf)
  have digit: "(48 :: u8) + ucast (num mod 10) = dec_digit (unat num mod 10)"
  proof -
    have "(ucast (num mod 10) :: u8) = of_nat (unat (num mod 10))" by simp
    then show ?thesis by (simp only: dec_digit_def unat_mod) simp
  qed
  show ?case
  proof (cases "num div 10 = 0")
    case True
    then have "unat (num div 10) = 0" by simp
    then have "unat num div 10 = 0" by (simp add: unat_div)
    then have "unat num < 10" by simp
    with "1.prems" True digit show ?thesis
      by (simp add: printi_digits.simps [of num] printi_digits.simps [of 0] in_base.simps [of 10 _ "unat num"])
  next
    case False
    then have pos: "0 < num div 10" by (simp add: word_gt_0)
    then have "unat num div 10 \<noteq> 0" by (simp add: word_less_nat_alt unat_div)
    then have big: "\<not> unat num < 10" by simp
    have "printi_digits num buf = printi_digits (num div 10) (buf @ [48 + ucast (num mod 10)])"
      using "1.prems" by (subst printi_digits.simps) simp
    also have "\<dots> = (buf @ [48 + ucast (num mod 10)]) @ rev (in_base 10 dec_digit (unat num div 10))"
      using "1.IH" [OF "1.prems" pos] by (simp only: unat_div) simp
    also have "\<dots> = buf @ rev (in_base 10 dec_digit (unat num))"
      using big digit by (simp add: in_base.simps [of 10 _ "unat num"])
    finally show ?thesis .
  qed
qed

lemma printh_digits_hex:
  "0 < num \<Longrightarrow> printh_digits num buf = buf @ rev (in_base 16 hex_digit (unat num))"
proof (induction num buf rule: printh_digits.induct)
  case (1 num buf)
  have digit: "hex_chars ! unat (num AND 0xF) = hex_digit (unat num mod 16)"
  proof -
    have "num AND 0xF = take_bit 4 num" by (simp add: take_bit_eq_mask mask_eq_exp_minus_1)
    then show ?thesis by (simp add: hex_digit_def take_bit_eq_mod unat_mod)
  qed
  have dd: "unat (drop_bit 4 num) = unat num div 16"
    by (simp add: drop_bit_eq_div unat_div)
  show ?case
  proof (cases "unat num < 16")
    case True
    then have "drop_bit 4 num = 0" using dd by (simp add: unat_eq_zero)
    with "1.prems" True digit show ?thesis
      by (simp add: printh_digits.simps [of num] printh_digits.simps [of 0] in_base.simps [of 16 _ "unat num"])
  next
    case False
    then have "0 < unat (drop_bit 4 num)" using dd by simp
    then have pos: "0 < drop_bit 4 num" by (simp add: word_less_nat_alt)
    with "1.IH" [OF "1.prems" pos] "1.prems" digit False dd show ?thesis
      by (simp add: printh_digits.simps [of num] in_base.simps [of 16 _ "unat num"])
  qed
qed

lemma in_base_set: "1 < b \<Longrightarrow> set (in_base b d n) \<subseteq> d ` {..<b}"
proof (induction n rule: less_induct)
  case (less n)
  then show ?case
    by (cases "n < b") (auto simp: in_base.simps [of b d n] dest!: less.IH [rotated])
qed

lemma length_in_base: "1 < b \<Longrightarrow> n < b ^ k \<Longrightarrow> 0 < k \<Longrightarrow> length (in_base b d n) \<le> k"
proof (induction k arbitrary: n)
  case (Suc k)
  show ?case
  proof (cases "n < b")
    case False
    then have "0 < k" using Suc.prems(1,2) by (cases k) auto
    moreover have "n div b < b ^ k"
      using Suc.prems by (simp add: less_mult_imp_div_less mult.commute)
    ultimately have "length (in_base b d (n div b)) \<le> k" using Suc by simp
    with False Suc.prems show ?thesis by (simp add: in_base.simps [of b d n])
  qed (simp add: in_base.simps [of b d n])
qed simp

lemma dec_digit_nonzero: "k < 10 \<Longrightarrow> dec_digit k \<noteq> 0"
  by (simp add: dec_digit_def word_unat_eq_iff unat_word_ariths unat_of_nat)

lemma dec_digit_inv: "k < 10 \<Longrightarrow> unat (dec_digit k) - 48 = k"
  by (simp add: dec_digit_def unat_word_ariths unat_of_nat)

lemma takeWhile_decimal:
  "takeWhile (\<lambda>c. c \<noteq> 0) (in_base 10 dec_digit n @ [0]) = in_base 10 dec_digit n"
proof -
  have "\<forall>c\<in>set (in_base 10 dec_digit n). c \<noteq> 0"
    using in_base_set [of 10 dec_digit n] dec_digit_nonzero by fastforce
  then show ?thesis by (simp add: takeWhile_append)
qed

text \<open>C26: \<^verbatim>\<open>printi\<close> prints the decimal numeral of its argument: the digits it prints read back as the
  number, and with the terminating zero they fit the buffer of 12 bytes.\<close>

theorem printi_decimal:
  "printi n s = fold printc (in_base 10 dec_digit (unat n)) s \<and>
   base_value 10 (\<lambda>c. unat c - 48) (in_base 10 dec_digit (unat n)) = unat n \<and>
   length (in_base 10 dec_digit (unat n) @ [0]) \<le> 12"
proof (intro conjI)
  show "printi n s = fold printc (in_base 10 dec_digit (unat n)) s"
  proof (cases "n = 0")
    case True
    then show ?thesis
      by (simp add: printi_def print_def str_def in_base.simps [of _ _ 0] dec_digit_def)
  next
    case False
    then have "printi_digits n [] = rev (in_base 10 dec_digit (unat n))"
      using printi_digits_decimal [of n "[]"] by (simp add: word_gt_0)
    with False show ?thesis
      using swap_all [of "rev (in_base 10 dec_digit (unat n))"]
      by (simp add: printi_def print_def Let_def takeWhile_decimal)
  qed
  show "base_value 10 (\<lambda>c. unat c - 48) (in_base 10 dec_digit (unat n)) = unat n"
    by (rule in_base_value) (auto simp: dec_digit_inv)
  have "length (in_base 10 dec_digit (unat n)) \<le> 10"
    by (rule length_in_base) (simp_all add: less_trans [OF u32_less_size])
  then show "length (in_base 10 dec_digit (unat n) @ [0]) \<le> 12" by simp
qed

text \<open>\<^verbatim>\<open>printh\<close> prints \<^verbatim>\<open>0x\<close> and the lower-case hexadecimal numeral, in at most 8 digits.\<close>

lemma printh_hexadecimal:
  "printh n s = fold printc (str ''0x'' @ in_base 16 hex_digit (unat n)) s \<and>
   length (in_base 16 hex_digit (unat n)) \<le> 8"
proof
  show "printh n s = fold printc (str ''0x'' @ in_base 16 hex_digit (unat n)) s"
  proof (cases "n = 0")
    case True
    then show ?thesis
      by (simp add: printh_def print_def str_def in_base.simps [of _ _ 0] hex_digit_def hex_chars_def)
  next
    case False
    then show ?thesis
      using printh_digits_hex [of n "[]"] by (simp add: printh_def print_def Let_def word_gt_0 str_def)
  qed
  show "length (in_base 16 hex_digit (unat n)) \<le> 8"
    by (rule length_in_base) simp_all
qed

section \<open>Printing and deleting\<close>

lemma update_cursor_fields [simp]:
  "vga (update_cursor x y s) = vga s" "vga_colomn (update_cursor x y s) = vga_colomn s"
  "vga_row (update_cursor x y s) = vga_row s"
  "current_vga_color (update_cursor x y s) = current_vga_color s"
  by (simp_all add: update_cursor_def outb_def Let_def)

lemma vga_cell_cong: "current_vga_color t = current_vga_color s \<Longrightarrow> vga_cell c t = vga_cell c s"
  by (simp add: vga_cell_def)

lemma wrap_line_id: "vga_colomn s \<noteq> VGA_WIDTH \<Longrightarrow> wrap_line s = s"
  by (simp add: wrap_line_def)

lemma printc_in_row:
  assumes "c \<notin> {9, 10, 13}" and "vga_colomn s \<noteq> VGA_WIDTH"
  shows "vga (printc c s) = (vga s)(uint (vga_row s) * VGA_WIDTH + uint (vga_colomn s) := vga_cell c s)"
    and "vga_colomn (printc c s) = vga_colomn s + 1" and "vga_row (printc c s) = vga_row s"
  using assms by (simp_all add: printc_def put_char_def wrap_line_id Let_def)

text \<open>C25: in the middle of a row a printed character goes to the cell of the cursor, and deleting one
  character then takes the cursor back there and blanks that cell, leaving every other cell alone.\<close>

theorem print_then_delete:
  assumes "vga_wf s" and "vga_colomn s \<noteq> VGA_WIDTH" and "c \<notin> {9, 10, 13}"
    and "pos = uint (vga_row s) * VGA_WIDTH + uint (vga_colomn s)"
  shows "vga (printc c s) pos = vga_cell c s \<and>
    vga (vga_delete 1 (printc c s)) = (vga s)(pos := vga_cell 32 s) \<and>
    vga_colomn (vga_delete 1 (printc c s)) = vga_colomn s \<and>
    vga_row (vga_delete 1 (printc c s)) = vga_row s"
proof -
  have "uint (vga_colomn s + 1) = uint (vga_colomn s) + 1"
    using assms(1) by (intro uint_Suc_u8) (simp add: vga_wf_def)
  then have "0 < uint (vga_colomn s + 1)" by simp
  then have col: "vga_colomn s + 1 \<noteq> 0" by force
  have color: "current_vga_color (printc c s) = current_vga_color s"
    by (rule console_step_fields(2) [OF console_steps(1)])
  show ?thesis
    using assms col color printc_in_row [of c s]
    by (simp add: vga_delete_def vga_cell_def)
qed

theorem print_then_delete_witness:
  "vga (vga_delete 1 (printc 65 blank_console)) = (vga blank_console)(0 := vga_cell 32 blank_console)"
  using print_then_delete [of blank_console 65 0] by (simp add: vga_wf_def blank_console_def)

end
