(* ===== verification/Keyboard.thy ===== *)
theory Keyboard
  imports Vga
begin

unbundle bit_operations_syntax

text \<open>
  The keyboard interrupt handler, \<^verbatim>\<open>DRIVER/keyboard.c\<close>: the modifier state of its two static
  variables, the two scan-code tables and \<^verbatim>\<open>keyboard_handler\<close>, which reads one scan code from
  port \<open>0x60\<close>, acknowledges the interrupt at port \<open>0x20\<close> and echoes the key on the console.
\<close>

record keyboard_state = vga_state +
  caps_lock :: bool
  shift_pressed :: bool

definition KEY_LSHIFT :: u8 where "KEY_LSHIFT = 0x2A"
definition KEY_RSHIFT :: u8 where "KEY_RSHIFT = 0x36"
definition KEY_CAPS :: u8 where "KEY_CAPS = 0x3A"
definition KEY_SPACE :: u8 where "KEY_SPACE = 0x39"
definition KEY_ENTER :: u8 where "KEY_ENTER = 0x1C"
definition KEY_BACKSPACE :: u8 where "KEY_BACKSPACE = 0x0E"
definition KEY_TAB :: u8 where "KEY_TAB = 0x0F"

lemmas key_defs = KEY_LSHIFT_def KEY_RSHIFT_def KEY_CAPS_def KEY_SPACE_def KEY_ENTER_def
  KEY_BACKSPACE_def KEY_TAB_def

definition lower_case_scancode :: bytes where
  "lower_case_scancode =
     [0, 0] @ str ''1234567890-='' @ [8, 9] @ str ''qwertyuiop[]'' @ [10, 0] @
     str ''asdfghjkl;'' @ [39] @ str ''`'' @ [0, 92] @ str ''zxcvbnm,./'' @ [0] @ str ''*'' @ [0] @
     str '' '' @ replicate 70 0"

definition upper_case_scancode :: bytes where
  "upper_case_scancode =
     [0, 0] @ str ''!@#$%^&*()_+'' @ [8, 9] @ str ''QWERTYUIOP{}'' @ [10, 0] @
     str ''ASDFGHJKL:'' @ [34] @ str ''~'' @ [0] @ str ''|ZXCVBNM<>?'' @ [0] @ str ''*'' @ [0] @
     str '' '' @ replicate 70 0"

definition keyboard_handler :: "'a keyboard_state_scheme \<Rightarrow> 'a keyboard_state_scheme" where
  "keyboard_handler s =
     (let (scancode, s) = inb 0x60 s;
          s = outb 0x20 0x20 s
      in
        if scancode AND 0x80 \<noteq> 0 then
          (let key = scancode AND 0x7F
           in if key = KEY_LSHIFT \<or> key = KEY_RSHIFT then s\<lparr>shift_pressed := False\<rparr> else s)
        else if scancode = KEY_CAPS then s\<lparr>caps_lock := \<not> caps_lock s\<rparr>
        else if scancode = KEY_LSHIFT \<or> scancode = KEY_RSHIFT then s\<lparr>shift_pressed := True\<rparr>
        else if scancode = KEY_SPACE then printc 32 s
        else if scancode = KEY_ENTER then printc 10 s
        else if scancode = KEY_BACKSPACE then vga_delete 1 s
        else if scancode = KEY_TAB then printc 9 s
        else if shift_pressed s \<or> caps_lock s then
          (if upper_case_scancode ! unat scancode \<noteq> 0
           then printc (upper_case_scancode ! unat scancode) s else s)
        else
          (if lower_case_scancode ! unat scancode \<noteq> 0
           then printc (lower_case_scancode ! unat scancode) s else s))"

section \<open>The tables\<close>

lemma scancode_tables_length:
  "length lower_case_scancode = 128" "length upper_case_scancode = 128"
  by (simp_all add: lower_case_scancode_def upper_case_scancode_def str_def)

text \<open>Both tables have an entry for each of the 128 scan codes, the same keys have a character in
  both, and for a letter key the upper table has the upper-case letter of the lower table.\<close>

lemma scancode_tables_agree:
  "length lower_case_scancode = 128 \<and> length upper_case_scancode = 128 \<and>
   list_all2 (\<lambda>l u. if 97 \<le> l \<and> l \<le> 122 then u = l - 32 else (l = 0) = (u = 0))
     lower_case_scancode upper_case_scancode"
  by code_simp

section \<open>The modifier keys as a state machine\<close>

datatype key_event = Press u8 | Release u8

definition key_event_of :: "u8 \<Rightarrow> key_event" where
  "key_event_of code = (if code AND 0x80 \<noteq> 0 then Release (code AND 0x7F) else Press code)"

text \<open>The abstract machine: shift is held between press and release, caps lock toggles on press.\<close>

fun next_modifiers :: "key_event \<Rightarrow> bool \<times> bool \<Rightarrow> bool \<times> bool" where
  "next_modifiers (Release k) (shift, caps) = (shift \<and> k \<notin> {KEY_LSHIFT, KEY_RSHIFT}, caps)"
| "next_modifiers (Press k) (shift, caps) =
     (shift \<or> k \<in> {KEY_LSHIFT, KEY_RSHIFT}, caps \<noteq> (k = KEY_CAPS))"

definition modifiers :: "'a keyboard_state_scheme \<Rightarrow> bool \<times> bool" where
  "modifiers s = (shift_pressed s, caps_lock s)"

definition scancode_read :: "'a keyboard_state_scheme \<Rightarrow> u8" where
  "scancode_read s = fst (inb 0x60 s)"

lemma console_modifiers:
  assumes "console_step s t" shows "modifiers t = modifiers s"
  using arg_cong [where f = modifiers, OF console_step_form [OF assms]] by (simp add: modifiers_def)

lemmas output_modifiers [simp] = console_steps [THEN console_modifiers]

lemma modifiers_io [simp]: "modifiers (s\<lparr>dev := d\<rparr>) = modifiers s"
  by (simp add: modifiers_def)

lemma handler_modifiers:
  "modifiers (keyboard_handler s) = next_modifiers (key_event_of (scancode_read s)) (modifiers s)"
proof -
  obtain c t where io: "inb 0x60 s = (c, t)" by fastforce
  then have t: "modifiers (outb 0x20 0x20 t) = modifiers s"
    by (auto simp: inb_def outb_def split: prod.splits)
  have c: "scancode_read s = c" by (simp add: scancode_read_def io)
  let ?s = "outb 0x20 0x20 t"
  have fields: "shift_pressed ?s = shift_pressed s" "caps_lock ?s = caps_lock s"
    using t by (simp_all add: modifiers_def)
  show ?thesis
  proof (cases "c AND 0x80 = 0")
    case True
    show ?thesis
      unfolding keyboard_handler_def io Let_def c key_event_of_def prod.case
      using True t fields by (auto simp: key_defs modifiers_def [of s] modifiers_def [of "_\<lparr>caps_lock := _\<rparr>"]
          modifiers_def [of "_\<lparr>shift_pressed := _\<rparr>"])
  next
    case False
    then show ?thesis
      unfolding keyboard_handler_def io Let_def c key_event_of_def prod.case
      using t fields by (auto simp: modifiers_def)
  qed
qed

text \<open>The scan codes that \<open>n\<close> keyboard interrupts in a row read.\<close>

fun scancodes :: "nat \<Rightarrow> 'a keyboard_state_scheme \<Rightarrow> u8 list" where
  "scancodes 0 s = []"
| "scancodes (Suc n) s = scancode_read s # scancodes n (keyboard_handler s)"

lemma fold_next_modifiers_caps:
  "snd (fold next_modifiers (map key_event_of cs) (sh, cl)) =
     (cl \<noteq> odd (count_list (map key_event_of cs) (Press KEY_CAPS)))"
proof (induction cs arbitrary: sh cl)
  case (Cons c cs)
  then show ?case by (cases "key_event_of c") auto
qed simp

lemma handler_run:
  "modifiers ((keyboard_handler ^^ n) s) = fold next_modifiers (map key_event_of (scancodes n s)) (modifiers s)"
proof (induction n arbitrary: s)
  case (Suc n)
  have "(keyboard_handler ^^ Suc n) s = (keyboard_handler ^^ n) (keyboard_handler s)"
    by (simp add: funpow_Suc_right del: funpow.simps)
  with Suc show ?case by (simp add: handler_modifiers)
qed simp

text \<open>C23: the handler refines the modifier state machine over every sequence of keyboard interrupts;
  in particular caps lock is inverted exactly when its key was pressed an odd number of times.\<close>

theorem keyboard_refines_modifiers:
  "modifiers ((keyboard_handler ^^ n) s) = fold next_modifiers (map key_event_of (scancodes n s)) (modifiers s) \<and>
   caps_lock ((keyboard_handler ^^ n) s) =
     (caps_lock s \<noteq> odd (count_list (map key_event_of (scancodes n s)) (Press KEY_CAPS)))"
proof
  show run: "modifiers ((keyboard_handler ^^ n) s)
      = fold next_modifiers (map key_event_of (scancodes n s)) (modifiers s)"
    by (rule handler_run)
  show "caps_lock ((keyboard_handler ^^ n) s) =
     (caps_lock s \<noteq> odd (count_list (map key_event_of (scancodes n s)) (Press KEY_CAPS)))"
    using arg_cong [OF run, of snd] fold_next_modifiers_caps [of "scancodes n s" "shift_pressed s" "caps_lock s"]
    by (simp add: modifiers_def)
qed

end
