(* ===== verification/Descriptors.thy ===== *)
theory Descriptors
  imports Keyboard
begin

unbundle bit_operations_syntax

text \<open>
  The descriptor tables: \<^verbatim>\<open>ARCH/I386/gdt.c\<close>, \<^verbatim>\<open>tss.c\<close> and \<^verbatim>\<open>idt.c\<close>, with the assembly
  routines \<^verbatim>\<open>gdt_flush\<close>, \<^verbatim>\<open>tss_flush\<close> and \<^verbatim>\<open>idt_flush\<close> that load the processor's registers.

  Addresses that the linker chooses (of the tables, of the stack and of the interrupt stubs
  \<^verbatim>\<open>isr0\<close>, \<dots>) are arguments. The decoders at the end read a descriptor as the processor does.
\<close>

record gdt_entry =
  g_limit :: u16
  g_base_low :: u16
  g_base_middle :: u8
  g_access :: u8
  g_flags :: u8
  g_base_high :: u8

record table_reg =
  limit :: u16
  base :: u32

record tss_entry =
  prev_tss :: u32  esp0 :: u32  ss0 :: u32  esp1 :: u32  ss1 :: u32  esp2 :: u32  ss2 :: u32
  t_cr3 :: u32  t_eip :: u32  t_eflags :: u32
  t_eax :: u32  t_ecx :: u32  t_edx :: u32  t_ebx :: u32
  t_esp :: u32  t_ebp :: u32  t_esi :: u32  t_edi :: u32
  t_es :: u32  t_cs :: u32  t_ss :: u32  t_ds :: u32  t_fs :: u32  t_gs :: u32
  t_ldt :: u32  t_trap :: u16  iomap_base :: u16

record idt_entry =
  i_base_low :: u16
  i_sel :: u16
  i_always0 :: u8
  i_flags :: u8
  i_base_high :: u16

text \<open>The tables, and the processor registers that say which tables are in use.\<close>

record table_state = keyboard_state +
  gdt_entries :: "gdt_entry list"
  gdtr :: table_reg
  tss :: tss_entry
  idt_entries :: "idt_entry list"
  idtr :: table_reg
  cpu_gdtr :: table_reg
  cpu_tr :: u16
  cpu_cs :: u16
  cpu_ds :: u16
  cpu_es :: u16
  cpu_fs :: u16
  cpu_gs :: u16
  cpu_ss :: u16
  cpu_idtr :: table_reg
  cpu_if :: bool

definition zero_tss :: tss_entry where
  "zero_tss = \<lparr>prev_tss = 0, esp0 = 0, ss0 = 0, esp1 = 0, ss1 = 0, esp2 = 0, ss2 = 0, t_cr3 = 0,
     t_eip = 0, t_eflags = 0, t_eax = 0, t_ecx = 0, t_edx = 0, t_ebx = 0, t_esp = 0, t_ebp = 0,
     t_esi = 0, t_edi = 0, t_es = 0, t_cs = 0, t_ss = 0, t_ds = 0, t_fs = 0, t_gs = 0, t_ldt = 0,
     t_trap = 0, iomap_base = 0\<rparr>"

definition zero_idt_entry :: idt_entry where
  "zero_idt_entry = \<lparr>i_base_low = 0, i_sel = 0, i_always0 = 0, i_flags = 0, i_base_high = 0\<rparr>"

definition SIZEOF_gdt_entry :: nat where "SIZEOF_gdt_entry = 8"
definition SIZEOF_idt_entry :: nat where "SIZEOF_idt_entry = 8"
definition SIZEOF_tss_entry :: nat where "SIZEOF_tss_entry = 104"

section \<open>Segments\<close>

definition make_gdt_entry :: "u32 \<Rightarrow> u32 \<Rightarrow> u8 \<Rightarrow> u8 \<Rightarrow> gdt_entry" where
  "make_gdt_entry bas lim access gran =
     \<lparr>g_limit = ucast (lim AND 0xFFFF),
      g_base_low = ucast (bas AND 0xFFFF),
      g_base_middle = ucast (drop_bit 16 bas AND 0xFF),
      g_access = access,
      g_flags = ucast (drop_bit 16 lim AND 0x0F) OR (gran AND 0xF0),
      g_base_high = ucast (drop_bit 24 bas AND 0xFF)\<rparr>"

text \<open>The array has six entries; a larger number is an access out of bounds.\<close>

definition set_gdt_entry ::
  "u32 \<Rightarrow> u32 \<Rightarrow> u32 \<Rightarrow> u8 \<Rightarrow> u8 \<Rightarrow> 'a table_state_scheme \<Rightarrow> (unit, 'a table_state_scheme) res" where
  "set_gdt_entry num bas lim access gran s =
     (if unat num < 6
      then Ret () (s\<lparr>gdt_entries := (gdt_entries s)[unat num := make_gdt_entry bas lim access gran]\<rparr>)
      else Fault)"

definition write_tss ::
  "u32 \<Rightarrow> u32 \<Rightarrow> u16 \<Rightarrow> u32 \<Rightarrow> 'a table_state_scheme \<Rightarrow> (unit, 'a table_state_scheme) res" where
  "write_tss tss_addr num ss0v esp0v s =
     (let s = s\<lparr>tss := zero_tss\<lparr>ss0 := ucast ss0v, esp0 := esp0v,
                iomap_base := of_nat SIZEOF_tss_entry, t_cs := 0x1B,
                t_ss := 0x23, t_ds := 0x23, t_es := 0x23, t_fs := 0x23, t_gs := 0x23\<rparr>\<rparr>
      in set_gdt_entry num tss_addr (of_nat SIZEOF_tss_entry - 1) 0x89 0 s)"

definition gdt_flush :: "'a table_state_scheme \<Rightarrow> 'a table_state_scheme" where
  "gdt_flush s =
     s\<lparr>cpu_gdtr := gdtr s, cpu_ds := 0x10, cpu_es := 0x10, cpu_fs := 0x10, cpu_gs := 0x10, cpu_ss := 0x10, cpu_cs := 0x08\<rparr>"

definition tss_flush :: "'a table_state_scheme \<Rightarrow> 'a table_state_scheme" where
  "tss_flush s = s\<lparr>cpu_tr := 0x28\<rparr>"

definition init_gdt ::
  "u32 \<Rightarrow> u32 \<Rightarrow> u32 \<Rightarrow> 'a table_state_scheme \<Rightarrow> (unit, 'a table_state_scheme) res" where
  "init_gdt gdt_addr tss_addr stack_top s =
     (let s = s\<lparr>gdtr := \<lparr>limit = of_nat (SIZEOF_gdt_entry * 6 - 1), base = gdt_addr\<rparr>\<rparr> in
      bind (set_gdt_entry 0 0 0 0 0 s) (\<lambda>_ s.
      bind (set_gdt_entry 1 0 0xFFFFFFFF 0x9A 0xCF s) (\<lambda>_ s.
      bind (set_gdt_entry 2 0 0xFFFFFFFF 0x92 0xCF s) (\<lambda>_ s.
      bind (set_gdt_entry 3 0 0xFFFFFFFF 0xFA 0xCF s) (\<lambda>_ s.
      bind (set_gdt_entry 4 0 0xFFFFFFFF 0xF2 0xCF s) (\<lambda>_ s.
      bind (write_tss tss_addr 5 0x10 stack_top s) (\<lambda>_ s.
      Ret () (tss_flush (gdt_flush s)))))))))"

section \<open>Interrupt gates\<close>

definition make_id_gate :: "u32 \<Rightarrow> u16 \<Rightarrow> u8 \<Rightarrow> idt_entry" where
  "make_id_gate bas sel flags =
     \<lparr>i_base_low = ucast (bas AND 0xFFFF), i_sel = sel, i_always0 = 0, i_flags = flags OR 0x60,
      i_base_high = ucast (drop_bit 16 bas AND 0xFFFF)\<rparr>"

definition set_id_gate :: "u8 \<Rightarrow> u32 \<Rightarrow> u16 \<Rightarrow> u8 \<Rightarrow> 'a table_state_scheme \<Rightarrow> 'a table_state_scheme" where
  "set_id_gate num bas sel flags s =
     s\<lparr>idt_entries := (idt_entries s)[unat num := make_id_gate bas sel flags]\<rparr>"

definition idt_flush :: "'a table_state_scheme \<Rightarrow> 'a table_state_scheme" where
  "idt_flush s = s\<lparr>cpu_idtr := idtr s\<rparr>"

text \<open>The initialisation words of the two interrupt controllers, in the order they are written.\<close>

definition pic_setup :: "(u16 \<times> u8) list" where
  "pic_setup = [(0x20, 0x11), (0xA0, 0x11), (0x21, 0x20), (0xA1, 0x28), (0x21, 0x04), (0xA1, 0x02),
                (0x21, 0x01), (0xA1, 0x01), (0x21, 0xFF), (0xA1, 0xFF)]"

definition unmask :: "u8 \<Rightarrow> 'a machine_scheme \<Rightarrow> 'a machine_scheme" where
  "unmask m s = (let (v, s) = inb 0x21 s in outb 0x21 (v AND NOT m) s)"

definition init_idt :: "u32 \<Rightarrow> (nat \<Rightarrow> u32) \<Rightarrow> 'a table_state_scheme \<Rightarrow> 'a table_state_scheme" where
  "init_idt idt_addr isr s =
     (let s = s\<lparr>idtr := \<lparr>limit = of_nat (SIZEOF_idt_entry * 256 - 1), base = idt_addr\<rparr>\<rparr>;
          s = s\<lparr>idt_entries := replicate 256 zero_idt_entry\<rparr>;
          s = fold (\<lambda>(p, v). outb p v) pic_setup s;
          s = fold (\<lambda>n. set_id_gate (of_nat n) (isr n) 0x08 0x8E) [0..<32] s;
          s = set_id_gate 32 (isr 32) 0x08 0x8E s;
          s = set_id_gate 33 (isr 33) 0x08 0x8E s;
          s = set_id_gate 0x80 (isr 128) 0x08 0x8E s;
          s = idt_flush s;
          s = unmask 0x02 s;
          s = unmask 0x03 s
      in s\<lparr>cpu_if := True\<rparr>)"

section \<open>What the processor reads\<close>

definition seg_base :: "gdt_entry \<Rightarrow> u32" where
  "seg_base e = ucast (g_base_low e) OR push_bit 16 (ucast (g_base_middle e))
     OR push_bit 24 (ucast (g_base_high e))"

definition seg_limit :: "gdt_entry \<Rightarrow> u32" where
  "seg_limit e = ucast (g_limit e) OR push_bit 16 (ucast (g_flags e AND 0x0F))"

definition seg_dpl :: "gdt_entry \<Rightarrow> u8" where
  "seg_dpl e = drop_bit 5 (g_access e) AND 3"

text \<open>What a descriptor is to the processor: the type from its access byte, the size in bytes from limit
  and granularity, and whether it is present and a segment of 32-bit code and addresses.\<close>

datatype seg_type =
    Code_segment (seg_readable: bool) (seg_conforming: bool)
  | Data_segment (seg_writable: bool) (seg_expand_down: bool)
  | System_segment (seg_system: u8)

record segment =
  sv_present :: bool
  sv_type :: seg_type
  sv_dpl :: u8
  sv_base :: u32
  sv_bytes :: nat
  sv_32bit :: bool
  sv_64bit :: bool

definition seg_type_of :: "gdt_entry \<Rightarrow> seg_type" where
  "seg_type_of e =
     (let a = g_access e in
      if \<not> bit a 4 then System_segment (a AND 0x0F)
      else if bit a 3 then Code_segment (bit a 1) (bit a 2) else Data_segment (bit a 1) (bit a 2))"

definition segment_of :: "gdt_entry \<Rightarrow> segment" where
  "segment_of e =
     \<lparr>sv_present = bit (g_access e) 7, sv_type = seg_type_of e, sv_dpl = seg_dpl e, sv_base = seg_base e,
      sv_bytes = (unat (seg_limit e) + 1) * (if bit (g_flags e) 7 then 4096 else 1),
      sv_32bit = bit (g_flags e) 6, sv_64bit = bit (g_flags e) 5\<rparr>"

definition flat_segment :: "seg_type \<Rightarrow> u8 \<Rightarrow> segment" where
  "flat_segment ty dpl =
     \<lparr>sv_present = True, sv_type = ty, sv_dpl = dpl, sv_base = 0, sv_bytes = 2 ^ 32, sv_32bit = True, sv_64bit = False\<rparr>"

definition gate_offset :: "idt_entry \<Rightarrow> u32" where
  "gate_offset e = ucast (i_base_low e) OR push_bit 16 (ucast (i_base_high e))"

definition gate_present :: "idt_entry \<Rightarrow> bool" where
  "gate_present e \<longleftrightarrow> bit (i_flags e) 7"

lemma gdt_entry_decode:
  "seg_base (make_gdt_entry bas lim access gran) = bas \<and>
   seg_limit (make_gdt_entry bas lim access gran) = lim AND 0xFFFFF \<and>
   g_access (make_gdt_entry bas lim access gran) = access \<and>
   g_flags (make_gdt_entry bas lim access gran) AND 0xF0 = gran AND 0xF0"
proof (intro conjI)
  show "seg_base (make_gdt_entry bas lim access gran) = bas"
  proof (rule bit_word_eqI)
    fix n assume "n < LENGTH(32)"
    then show "bit (seg_base (make_gdt_entry bas lim access gran)) n \<longleftrightarrow> bit bas n"
      unfolding seg_base_def make_gdt_entry_def mask_literals
      by (cases "n < 24"; cases "n < 16") (auto simp: bit_simps not_less)
  qed
  show "seg_limit (make_gdt_entry bas lim access gran) = lim AND 0xFFFFF"
  proof (rule bit_word_eqI)
    fix n assume "n < LENGTH(32)"
    then show "bit (seg_limit (make_gdt_entry bas lim access gran)) n \<longleftrightarrow> bit (lim AND 0xFFFFF) n"
      unfolding seg_limit_def make_gdt_entry_def mask_literals
      by (cases "n < 16") (auto simp: bit_simps not_less)
  qed
  show "g_access (make_gdt_entry bas lim access gran) = access"
    by (simp add: make_gdt_entry_def)
  show "g_flags (make_gdt_entry bas lim access gran) AND 0xF0 = gran AND 0xF0"
    unfolding make_gdt_entry_def mask_literals
    by (rule bit_word_eqI) (auto simp: bit_simps)
qed

text \<open>C30: a descriptor holds exactly the base and the low 20 bits of the limit it was made from, its
  access byte, and the granularity flags.\<close>

theorem gdt_entry_roundtrip:
  "seg_base (make_gdt_entry bas lim access gran) = bas \<and>
   seg_limit (make_gdt_entry bas lim access gran) = lim AND 0xFFFFF \<and>
   g_access (make_gdt_entry bas lim access gran) = access \<and>
   g_flags (make_gdt_entry bas lim access gran) AND 0xF0 = gran AND 0xF0"
  by (rule gdt_entry_decode)


lemma gate_offset_make: "gate_offset (make_id_gate bas sel flags) = bas"
proof (rule bit_word_eqI)
  fix n assume "n < LENGTH(32)"
  then show "bit (gate_offset (make_id_gate bas sel flags)) n \<longleftrightarrow> bit bas n"
    unfolding gate_offset_def make_id_gate_def mask_literals
    by (cases "n < 16") (auto simp: bit_simps not_less)
qed

lemma make_id_gate_fields:
  "i_sel (make_id_gate bas sel flags) = sel" "i_flags (make_id_gate bas sel flags) = flags OR 0x60"
  "gate_present (make_id_gate bas sel flags) = bit flags 7"
  by (simp_all add: make_id_gate_def gate_present_def bit_simps)

lemma set_id_gates:
  assumes "length (idt_entries s) = 256" and "k \<le> 256"
  shows "fold (\<lambda>n. set_id_gate (of_nat n) (isr n) sel fl) [0..<k] s
    = s\<lparr>idt_entries := map (\<lambda>n. if n < k then make_id_gate (isr n) sel fl else idt_entries s ! n) [0..<256]\<rparr>"
  using assms(2)
proof (induction k)
  case 0
  have "map (\<lambda>n. idt_entries s ! n) [0..<256] = idt_entries s"
    using assms(1) by (metis map_nth)
  then show ?case by simp
next
  case (Suc k)
  have k: "unat (of_nat k :: u8) = k" using Suc.prems by (simp add: unat_of_nat)
  have "(map (\<lambda>n. if n < k then make_id_gate (isr n) sel fl else idt_entries s ! n) [0..<256])
          [k := make_id_gate (isr k) sel fl]
      = map (\<lambda>n. if n < Suc k then make_id_gate (isr n) sel fl else idt_entries s ! n) [0..<256]"
    using Suc.prems by (intro nth_equalityI) (auto simp: nth_list_update less_Suc_eq)
  with Suc k show ?case by (simp add: set_id_gate_def)
qed

lemma fold_outb:
  "fold (\<lambda>(p, v). outb p v) ws s = s\<lparr>dev := fold (\<lambda>(p, v) d. io_outb d p v) ws (dev s)\<rparr>"
  by (induction ws arbitrary: s) (auto simp: outb_def)

lemma unmask_form: "unmask m s = s\<lparr>dev := dev (unmask m s)\<rparr>"
  by (simp add: unmask_def inb_def outb_def split_beta)

text \<open>C29: after \<^verbatim>\<open>init_idt\<close> the gates 0 to 33 and 0x80 lead to their stubs in the kernel code segment,
  present and callable from user mode (privilege level 3), every other gate is not present, and
  interrupts are on.\<close>

theorem init_idt_gates:
  assumes "n < 256"
  shows "length (idt_entries (init_idt idt_addr isr s)) = 256 \<and>
    cpu_idtr (init_idt idt_addr isr s) = \<lparr>limit = 2047, base = idt_addr\<rparr> \<and>
    cpu_if (init_idt idt_addr isr s) \<and>
    (let e = idt_entries (init_idt idt_addr isr s) ! n in
       if n < 34 \<or> n = 0x80
       then gate_present e \<and> gate_offset e = isr n \<and> i_sel e = 0x08 \<and> i_flags e = 0xEE
       else \<not> gate_present e)"
proof -
  define s1 where "s1 = s\<lparr>idtr := \<lparr>limit = of_nat (SIZEOF_idt_entry * 256 - 1), base = idt_addr\<rparr>,
    idt_entries := replicate 256 zero_idt_entry\<rparr>"
  define d where "d = fold (\<lambda>(p, v) d. io_outb d p v) pic_setup (dev s1)"
  have s2: "fold (\<lambda>(p, v). outb p v) pic_setup s1 = s1\<lparr>dev := d\<rparr>"
    unfolding d_def by (rule fold_outb)
  have len: "length (idt_entries (s1\<lparr>dev := d\<rparr>)) = 256" by (simp add: s1_def)
  define s3 where "s3 = fold (\<lambda>n. set_id_gate (of_nat n) (isr n) 0x08 0x8E) [0..<32] (s1\<lparr>dev := d\<rparr>)"
  have s3: "s3 = s1\<lparr>dev := d, idt_entries :=
      map (\<lambda>n. if n < 32 then make_id_gate (isr n) 0x08 0x8E else zero_idt_entry) [0..<256]\<rparr>"
    unfolding s3_def using set_id_gates [OF len, of 32 isr "0x08" "0x8E"] by (simp add: s1_def cong: map_cong)
  define s4 where "s4 = idt_flush (set_id_gate 0x80 (isr 128) 0x08 0x8E (set_id_gate 33 (isr 33) 0x08 0x8E
    (set_id_gate 32 (isr 32) 0x08 0x8E s3)))"
  have gates: "idt_entries s4 ! n = (if n < 34 \<or> n = 0x80 then make_id_gate (isr n) 0x08 0x8E else zero_idt_entry)"
    using assms by (auto simp: s4_def s3 idt_flush_def set_id_gate_def nth_list_update)
  have regs: "cpu_idtr s4 = \<lparr>limit = 2047, base = idt_addr\<rparr>" "length (idt_entries s4) = 256"
    by (simp_all add: s4_def s3 s1_def idt_flush_def set_id_gate_def SIZEOF_idt_entry_def)
  have "init_idt idt_addr isr s = (unmask 0x03 (unmask 0x02 s4))\<lparr>cpu_if := True\<rparr>"
    unfolding init_idt_def Let_def s1_def [symmetric] s2 s3_def [symmetric] s4_def [symmetric] ..
  also have "\<dots> = s4\<lparr>dev := dev (unmask 0x03 (unmask 0x02 s4)), cpu_if := True\<rparr>"
    by (subst unmask_form, subst (2) unmask_form) simp
  finally obtain d' where fin: "init_idt idt_addr isr s = s4\<lparr>dev := d', cpu_if := True\<rparr>"
    by blast
  show ?thesis
    by (simp add: fin gates regs gate_offset_make make_id_gate_fields zero_idt_entry_def)
      (simp add: gate_present_def)
qed

text \<open>A machine at power-on: every variable of the components is zero.\<close>

definition boot_tables :: table_state where
  "boot_tables = \<lparr>dev = null_dev, mem = (\<lambda>_. 0),
     vga_colomn = 0, vga_row = 0, current_vga_color = default_vga_color, vga = (\<lambda>_. 0),
     caps_lock = False, shift_pressed = False,
     gdt_entries = replicate 6 (make_gdt_entry 0 0 0 0), gdtr = \<lparr>limit = 0, base = 0\<rparr>, tss = zero_tss,
     idt_entries = replicate 256 zero_idt_entry, idtr = \<lparr>limit = 0, base = 0\<rparr>,
     cpu_gdtr = \<lparr>limit = 0, base = 0\<rparr>, cpu_tr = 0, cpu_cs = 0, cpu_ds = 0, cpu_es = 0, cpu_fs = 0, cpu_gs = 0, cpu_ss = 0, cpu_idtr = \<lparr>limit = 0, base = 0\<rparr>, cpu_if = False\<rparr>"


theorem init_idt_gates_witness:
  "gate_present (idt_entries (init_idt 0xC0103000 (\<lambda>n. 0xC0100000) boot_tables) ! 0x80)"
  using init_idt_gates [of "0x80" "0xC0103000" "\<lambda>n. 0xC0100000" boot_tables] by (simp add: Let_def)

end
