(* ===== verification/Pmm.thy ===== *)
theory Pmm
  imports Descriptors
begin

unbundle bit_operations_syntax

text \<open>
  The physical page-frame allocator of \<^verbatim>\<open>MM/memory.c\<close> (\<^verbatim>\<open>pmm_init\<close>, \<^verbatim>\<open>pmm_alloc_page_frame\<close>,
  \<^verbatim>\<open>pmm_free_page_frame\<close>) and the contract of a bitmap allocator as locales.

  The state \<open>mm_state\<close> is that of the whole file \<^verbatim>\<open>memory.c\<close>; the paging half is in theory
  \<^verbatim>\<open>Paging\<close>. The bitmap is a list of bytes, so that an index beyond its 8192 bytes is a \<open>Fault\<close>.
  \<open>pmem\<close> are the double words of physical memory that hold page directories and page tables, by
  physical address; \<open>initial_page_dir\<close> and \<open>page_dirs\<close> are the addresses the linker gives to the
  two arrays of that name; \<open>tlb_flushes\<close> logs the addresses passed to \<^verbatim>\<open>invlpg\<close>, last first.
\<close>

record mm_state = table_state +
  page_frame_min :: u32
  page_frame_max :: u32
  total_alloc :: u32
  mem_num_vpages :: u32
  physical_memory_bitmap :: bytes
  page_dirs_used :: "u32 list"
  pmem :: "u32 \<Rightarrow> u32"
  cr3 :: u32
  tlb_flushes :: "u32 list"
  initial_page_dir :: u32
  page_dirs :: u32

section \<open>The contract of an allocator\<close>

text \<open>An allocator of the identifiers \<open>id_of k\<close>, with \<open>k\<close> from a finite set of slots: it takes a slot
  that is not in use, the least one, and answers the null identifier when there is none.\<close>

locale id_allocator =
  fixes inv :: "'s \<Rightarrow> bool"
    and slots :: "'s \<Rightarrow> nat set"
    and used :: "'s \<Rightarrow> nat set"
    and id_of :: "nat \<Rightarrow> u32"
    and alloc :: "'s \<Rightarrow> (u32, 's) res"
  assumes slots_finite: "finite (slots s)"
    and id_inj: "inv s \<Longrightarrow> inj_on id_of (slots s)"
    and id_nonzero: "inv s \<Longrightarrow> k \<in> slots s \<Longrightarrow> id_of k \<noteq> 0"
    and alloc_none: "inv s \<Longrightarrow> slots s \<subseteq> used s \<Longrightarrow> alloc s = Ret 0 s"
    and alloc_some: "inv s \<Longrightarrow> \<not> slots s \<subseteq> used s \<Longrightarrow>
      \<exists>t. alloc s = Ret (id_of (Min (slots s - used s))) t \<and> inv t \<and> slots t = slots s \<and>
        used t = insert (Min (slots s - used s)) (used s)"
begin

lemma alloc_cases:
  assumes "inv s"
  obtains (full) "slots s \<subseteq> used s" "alloc s = Ret 0 s"
    | (got) k t where "alloc s = Ret (id_of k) t" "k \<in> slots s" "k \<notin> used s" "inv t" "slots t = slots s"
        "used t = insert k (used s)"
proof (cases "slots s \<subseteq> used s")
  case True
  with assms alloc_none full show ?thesis by blast
next
  case False
  then have "Min (slots s - used s) \<in> slots s - used s"
    using slots_finite [of s] by (intro Min_in) auto
  with alloc_some [OF assms False] got show ?thesis by blast
qed

lemma alloc_returns:
  assumes "inv s"
  shows "\<exists>p t. alloc s = Ret p t \<and> inv t \<and> slots t = slots s"
  using assms by (cases rule: alloc_cases) (use assms in auto)

lemma alloc_fails_iff:
  assumes "inv s" and "alloc s = Ret p t"
  shows "p = 0 \<longleftrightarrow> slots s \<subseteq> used s"
  using assms(1)
proof (cases rule: alloc_cases)
  case full
  with assms(2) show ?thesis by simp
next
  case (got k u)
  with assms(2) id_nonzero [OF assms(1)] show ?thesis by auto
qed

text \<open>As long as slots are left, the identifiers of a run of allocations are pairwise distinct and fresh.\<close>

lemma times_alloc_fresh:
  assumes "inv s" and "n \<le> card (slots s - used s)"
  shows "\<exists>ks t. times_do n alloc s = Ret (map id_of ks) t \<and> length ks = n \<and> distinct ks \<and>
     set ks \<subseteq> slots s - used s \<and> used t = used s \<union> set ks \<and> slots t = slots s \<and> inv t"
  using assms
proof (induction n arbitrary: s)
  case 0
  then show ?case by (intro exI [of _ "[]"]) auto
next
  case (Suc n)
  have "\<not> slots s \<subseteq> used s" using Suc.prems(2) by (auto simp: Diff_eq_empty_iff [THEN iffD2])
  with \<open>inv s\<close> obtain k u where k: "alloc s = Ret (id_of k) u" "k \<in> slots s" "k \<notin> used s" "inv u"
      "slots u = slots s" "used u = insert k (used s)"
    by (blast elim: alloc_cases)
  have "slots s - used s = insert k (slots u - used u)" using k by auto
  moreover have "k \<notin> slots u - used u" using k by simp
  ultimately have "card (slots s - used s) = Suc (card (slots u - used u))"
    using slots_finite [of u] by simp
  with Suc.prems have "n \<le> card (slots u - used u)" by simp
  from Suc.IH [OF k(4) this] obtain ks t where "times_do n alloc u = Ret (map id_of ks) t" "length ks = n"
      "distinct ks" "set ks \<subseteq> slots u - used u" "used t = used u \<union> set ks" "slots t = slots u" "inv t"
    by blast
  with k show ?case by (intro exI [of _ "k # ks"] exI [of _ t]) auto
qed

lemma times_alloc_distinct:
  assumes "inv s" and "n \<le> card (slots s - used s)"
  shows "\<exists>ps t. times_do n alloc s = Ret ps t \<and> length ps = n \<and> distinct ps \<and> 0 \<notin> set ps"
proof -
  from times_alloc_fresh [OF assms] obtain ks t where *: "times_do n alloc s = Ret (map id_of ks) t"
      "length ks = n" "distinct ks" "set ks \<subseteq> slots s - used s"
    by blast
  then have "inj_on id_of (set ks)" using id_inj [OF assms(1)] by (meson Diff_subset inj_on_subset subset_trans)
  then have "distinct (map id_of ks)" using * by (simp add: distinct_map)
  moreover have "0 \<notin> set (map id_of ks)" using id_nonzero [OF assms(1)] * by fastforce
  ultimately show ?thesis using * by auto
qed

end

text \<open>A pool also takes identifiers back.\<close>

locale id_pool = id_allocator inv slots used id_of alloc
  for inv :: "'s \<Rightarrow> bool" and slots used id_of alloc +
  fixes release :: "u32 \<Rightarrow> 's \<Rightarrow> (unit, 's) res"
  assumes release_used: "inv s \<Longrightarrow> k \<in> slots s \<Longrightarrow>
      \<exists>t. release (id_of k) s = Ret () t \<and> inv t \<and> slots t = slots s \<and> used t = used s - {k}"
begin

text \<open>What was allocated can be released, which restores the set of slots in use, and it is then
  allocated again if it is the least free slot.\<close>

lemma alloc_release:
  assumes "inv s" and "\<not> slots s \<subseteq> used s"
  shows "\<exists>p t u. alloc s = Ret p t \<and> release p t = Ret () u \<and> inv u \<and> used u = used s \<and> slots u = slots s"
proof -
  from assms obtain k t where k: "alloc s = Ret (id_of k) t" "k \<in> slots s" "k \<notin> used s" "inv t"
      "slots t = slots s" "used t = insert k (used s)"
    by (meson alloc_cases)
  from release_used [OF k(4), of k] k obtain u where "release (id_of k) t = Ret () u" "inv u"
      "slots u = slots t" "used u = used t - {k}"
    by auto
  with k show ?thesis by (intro exI [of _ "id_of k"] exI [of _ t] exI [of _ u]) auto
qed

lemma release_makes_room:
  assumes "inv s" and "k \<in> slots s"
  shows "\<exists>t. release (id_of k) s = Ret () t \<and> inv t \<and> \<not> slots t \<subseteq> used t"
  using release_used [OF assms] assms(2) by auto

end

section \<open>The frame allocator\<close>

definition pmm_init :: "u32 \<Rightarrow> u32 \<Rightarrow> 'a mm_state_scheme \<Rightarrow> 'a mm_state_scheme" where
  "pmm_init mem_low mem_high s =
     s\<lparr>page_frame_min := CEIL_DIV mem_low 0x1000,
       page_frame_max := mem_high div 0x1000,
       total_alloc := 0,
       physical_memory_bitmap := replicate (length (physical_memory_bitmap s)) 0\<rparr>"

fun pmm_scan :: "nat \<Rightarrow> u32 \<Rightarrow> 'a mm_state_scheme \<Rightarrow> (u32, 'a mm_state_scheme) res" where
  "pmm_scan 0 frame s = Ret 0 s"
| "pmm_scan (Suc n) frame s =
     (let b = unat (frame div 8); i = unat (frame mod 8) in
      if length (physical_memory_bitmap s) \<le> b then Fault
      else if physical_memory_bitmap s ! b AND push_bit i 1 = 0
      then Ret (frame * 0x1000)
        (s\<lparr>physical_memory_bitmap :=
             (physical_memory_bitmap s)[b := physical_memory_bitmap s ! b OR push_bit i 1],
           total_alloc := total_alloc s + 1\<rparr>)
      else pmm_scan n (frame + 1) s)"

definition pmm_alloc_page_frame :: "'a mm_state_scheme \<Rightarrow> (u32, 'a mm_state_scheme) res" where
  "pmm_alloc_page_frame s =
     pmm_scan (unat (page_frame_max s) - unat (page_frame_min s)) (page_frame_min s) s"

definition pmm_free_page_frame :: "u32 \<Rightarrow> 'a mm_state_scheme \<Rightarrow> (unit, 'a mm_state_scheme) res" where
  "pmm_free_page_frame addr s =
     (let frame_index = addr div 0x1000 in
      if frame_index < page_frame_min s \<or> frame_index > page_frame_max s then Ret () s
      else
        let byte_index = unat (frame_index div 8); bit_index = unat (frame_index mod 8) in
        if length (physical_memory_bitmap s) \<le> byte_index then Fault
        else
          let byt = physical_memory_bitmap s ! byte_index;
              isused = drop_bit bit_index byt AND 1 in
          if isused \<noteq> 0
          then Ret () (s\<lparr>total_alloc := total_alloc s - 1,
            physical_memory_bitmap :=
              (physical_memory_bitmap s)[byte_index := byt AND NOT (push_bit bit_index 1)]\<rparr>)
          else Ret () s)"

section \<open>Bitmaps\<close>

text \<open>Slot \<open>k\<close> of a bitmap is bit \<open>k mod 8\<close> of byte \<open>k div 8\<close>.\<close>

definition bitmap_get :: "bytes \<Rightarrow> nat \<Rightarrow> bool" where
  "bitmap_get bm k \<longleftrightarrow> bit (bm ! (k div 8)) (k mod 8)"

lemma test_bit_mask: "(x :: u8) AND 2 ^ i = 0 \<longleftrightarrow> \<not> bit x i"
  by (simp add: and_exp_eq_0_iff_not_bit)

lemma shifted_bit: "drop_bit i (x :: u8) AND 1 \<noteq> 0 \<longleftrightarrow> bit x i"
  by (simp add: and_one_eq odd_iff_mod_2_eq_one bit_iff_odd_drop_bit)

lemma div_mod_8_eq: "k div 8 = j div 8 \<and> k mod 8 = j mod 8 \<longleftrightarrow> k = (j :: nat)"
  by (metis div_mod_decomp)

lemma bitmap_set:
  assumes "k div 8 < length bm"
  shows "bitmap_get (bm[k div 8 := bm ! (k div 8) OR 2 ^ (k mod 8)]) j \<longleftrightarrow> j = k \<or> bitmap_get bm j"
  using assms div_mod_8_eq [of j k]
  by (auto simp: bitmap_get_def nth_list_update bit_simps)

lemma bitmap_clear:
  assumes "k div 8 < length bm"
  shows "bitmap_get (bm[k div 8 := bm ! (k div 8) AND NOT (2 ^ (k mod 8))]) j
    \<longleftrightarrow> j \<noteq> k \<and> bitmap_get bm j"
  using assms div_mod_8_eq [of j k]
  by (auto simp: bitmap_get_def nth_list_update bit_simps)

section \<open>The allocator meets its contract\<close>

text \<open>The bitmap has room for 65536 frames (256 MB); the invariant keeps the managed frames inside it
  and frame 0, whose address is the error value, outside them.\<close>

definition pmm_inv :: "'a mm_state_scheme \<Rightarrow> bool" where
  "pmm_inv s \<longleftrightarrow> length (physical_memory_bitmap s) = 8192 \<and> 0 < unat (page_frame_min s) \<and>
     unat (page_frame_max s) \<le> 65536"

definition pmm_frames :: "'a mm_state_scheme \<Rightarrow> nat set" where
  "pmm_frames s = {unat (page_frame_min s)..<unat (page_frame_max s)}"

definition pmm_used :: "'a mm_state_scheme \<Rightarrow> nat set" where
  "pmm_used s = {k. k < 65536 \<and> bitmap_get (physical_memory_bitmap s) k}"

definition frame_addr :: "nat \<Rightarrow> u32" where
  "frame_addr k = of_nat k * 0x1000"

text \<open>The allocator's step once it has found the frame.\<close>

definition pmm_take :: "nat \<Rightarrow> 'a mm_state_scheme \<Rightarrow> 'a mm_state_scheme" where
  "pmm_take k s = s\<lparr>physical_memory_bitmap :=
       (physical_memory_bitmap s)[k div 8 := physical_memory_bitmap s ! (k div 8) OR 2 ^ (k mod 8)],
     total_alloc := total_alloc s + 1\<rparr>"

lemma unat_frame_addr: "k < 1048576 \<Longrightarrow> unat (frame_addr k) = k * 4096"
  by (simp add: frame_addr_def u_simps)

lemma frame_addr_div: "k < 1048576 \<Longrightarrow> unat (frame_addr k div 0x1000) = k"
  by (simp add: unat_div unat_frame_addr)

lemma frame_div_mod: "unat ((f :: u32) div 8) = unat f div 8" "unat (f mod 8) = unat f mod 8"
  by (simp_all add: unat_div unat_mod)

lemma pmm_scan_none:
  assumes "\<forall>j\<in>{unat f..<unat f + n}. bitmap_get (physical_memory_bitmap s) j"
    and "unat f + n \<le> 8 * length (physical_memory_bitmap s)" and "unat f + n < 4294967296"
  shows "pmm_scan n f s = Ret 0 s"
  using assms
proof (induction n arbitrary: f)
  case (Suc n)
  have f1: "unat (f + 1) = unat f + 1" using Suc.prems(3) by (simp add: unat_add_u32)
  have "bitmap_get (physical_memory_bitmap s) (unat f)" using Suc.prems(1) by simp
  moreover have "pmm_scan n (f + 1) s = Ret 0 s"
    by (rule Suc.IH) (use Suc.prems f1 in auto)
  ultimately show ?case
    using Suc.prems(2) by (simp add: Let_def frame_div_mod test_bit_mask bitmap_get_def)
qed simp

lemma pmm_scan_found:
  assumes "\<forall>j\<in>{unat f..<k}. bitmap_get (physical_memory_bitmap s) j"
    and "\<not> bitmap_get (physical_memory_bitmap s) k" and "unat f \<le> k" and "k < unat f + n"
    and "k < 8 * length (physical_memory_bitmap s)" and "unat f + n < 4294967296"
  shows "pmm_scan n f s = Ret (frame_addr k) (pmm_take k s)"
  using assms
proof (induction n arbitrary: f)
  case (Suc n)
  have inside: "unat f div 8 < length (physical_memory_bitmap s)" using Suc.prems(3,5) by linarith
  show ?case
  proof (cases "unat f = k")
    case True
    then have "frame_addr k = f * 0x1000" by (simp add: frame_addr_def flip: True)
    with True Suc.prems(2) inside show ?thesis
      by (simp add: Let_def frame_div_mod test_bit_mask bitmap_get_def pmm_take_def not_le)
  next
    case False
    have f1: "unat (f + 1) = unat f + 1" using Suc.prems(6) by (simp add: unat_add_u32)
    have "bitmap_get (physical_memory_bitmap s) (unat f)" using Suc.prems(1,3) False by simp
    moreover have "pmm_scan n (f + 1) s = Ret (frame_addr k) (pmm_take k s)"
      by (rule Suc.IH) (use Suc.prems f1 False in auto)
    ultimately show ?thesis
      using inside by (simp add: Let_def frame_div_mod test_bit_mask bitmap_get_def)
  qed
qed simp

lemma pmm_used_take:
  "pmm_inv s \<Longrightarrow> k < 65536 \<Longrightarrow> pmm_used (pmm_take k s) = insert k (pmm_used s)"
  by (auto simp: pmm_used_def pmm_take_def pmm_inv_def bitmap_set)

lemma pmm_take_simps [simp]:
  "pmm_inv (pmm_take k s) = pmm_inv s" "pmm_frames (pmm_take k s) = pmm_frames s"
  by (simp_all add: pmm_inv_def pmm_frames_def pmm_take_def)

lemma pmm_alloc_full:
  assumes "pmm_inv s" and "pmm_frames s \<subseteq> pmm_used s"
  shows "pmm_alloc_page_frame s = Ret 0 s"
proof (cases "unat (page_frame_min s) \<le> unat (page_frame_max s)")
  case True
  then show ?thesis
    unfolding pmm_alloc_page_frame_def
    by (intro pmm_scan_none) (use assms in \<open>auto simp: pmm_inv_def pmm_frames_def pmm_used_def\<close>)
qed (simp add: pmm_alloc_page_frame_def)

lemma pmm_alloc_found:
  assumes "pmm_inv s" and "\<not> pmm_frames s \<subseteq> pmm_used s"
  defines "k \<equiv> Min (pmm_frames s - pmm_used s)"
  shows "pmm_alloc_page_frame s = Ret (frame_addr k) (pmm_take k s)" and "k \<in> pmm_frames s - pmm_used s"
proof -
  have fin: "finite (pmm_frames s - pmm_used s)" by (simp add: pmm_frames_def)
  show k: "k \<in> pmm_frames s - pmm_used s"
    unfolding k_def using fin assms(2) by (intro Min_in) auto
  have least: "j \<in> pmm_used s" if "j \<in> pmm_frames s" "j < k" for j
    using that fin Min_le [of "pmm_frames s - pmm_used s" j] unfolding k_def by fastforce
  show "pmm_alloc_page_frame s = Ret (frame_addr k) (pmm_take k s)"
    unfolding pmm_alloc_page_frame_def
    by (rule pmm_scan_found) (use assms(1) k least in \<open>auto simp: pmm_inv_def pmm_frames_def pmm_used_def\<close>)
qed

lemma pmm_free_frame:
  assumes "pmm_inv s" and "k \<in> pmm_frames s"
  shows "\<exists>t. pmm_free_page_frame (frame_addr k) s = Ret () t \<and> pmm_inv t \<and> pmm_frames t = pmm_frames s \<and>
    pmm_used t = pmm_used s - {k}"
proof -
  have k: "unat (page_frame_min s) \<le> k" "k < unat (page_frame_max s)" "k < 65536"
    using assms by (auto simp: pmm_frames_def pmm_inv_def)
  have fi: "unat (frame_addr k div 0x1000) = k" using k by (intro frame_addr_div) simp
  have range: "\<not> frame_addr k div 0x1000 < page_frame_min s" "\<not> page_frame_max s < frame_addr k div 0x1000"
    using k fi by (simp_all add: u32_less_iff)
  show ?thesis
  proof (cases "bitmap_get (physical_memory_bitmap s) k")
    case True
    then show ?thesis
      using assms range fi k
      by (simp add: pmm_free_page_frame_def Let_def frame_div_mod shifted_bit bitmap_get_def [of _ k])
        (auto simp: pmm_inv_def pmm_frames_def pmm_used_def bitmap_clear)
  next
    case False
    then show ?thesis
      using assms range fi k
      by (simp add: pmm_free_page_frame_def Let_def frame_div_mod shifted_bit bitmap_get_def [of _ k])
        (auto simp: pmm_inv_def pmm_frames_def pmm_used_def bitmap_get_def)
  qed
qed

interpretation pmm: id_pool pmm_inv pmm_frames pmm_used frame_addr pmm_alloc_page_frame pmm_free_page_frame
proof unfold_locales
  fix s :: "'a mm_state_scheme"
  show "finite (pmm_frames s)" by (simp add: pmm_frames_def)
  assume inv: "pmm_inv s"
  have small: "k < 65536" if "k \<in> pmm_frames s" for k
    using that inv by (auto simp: pmm_frames_def pmm_inv_def)
  show "inj_on frame_addr (pmm_frames s)"
  proof (rule inj_onI)
    fix j k assume "j \<in> pmm_frames s" "k \<in> pmm_frames s" and eq: "frame_addr j = frame_addr k"
    then show "j = k" using small frame_addr_div [of j] frame_addr_div [of k] by force
  qed
  show "frame_addr k \<noteq> 0" if "k \<in> pmm_frames s" for k
    using that inv small [OF that] unat_frame_addr [of k] by (auto simp: pmm_frames_def pmm_inv_def)
  show "pmm_alloc_page_frame s = Ret 0 s" if "pmm_frames s \<subseteq> pmm_used s"
    using inv that by (rule pmm_alloc_full)
  show "\<exists>t. pmm_alloc_page_frame s = Ret (frame_addr (Min (pmm_frames s - pmm_used s))) t \<and> pmm_inv t \<and>
      pmm_frames t = pmm_frames s \<and> pmm_used t = insert (Min (pmm_frames s - pmm_used s)) (pmm_used s)"
    if "\<not> pmm_frames s \<subseteq> pmm_used s"
    using pmm_alloc_found [OF inv that] small inv by (auto simp: pmm_used_take)
  show "\<exists>t. pmm_free_page_frame (frame_addr k) s = Ret () t \<and> pmm_inv t \<and> pmm_frames t = pmm_frames s \<and>
      pmm_used t = pmm_used s - {k}" if "k \<in> pmm_frames s" for k
    using inv that by (rule pmm_free_frame)
qed

section \<open>Properties\<close>

text \<open>The memory manager before \<^verbatim>\<open>init_memory\<close>: every static variable is zero and the
  recursive slot of the boot page directory is not set up.\<close>

definition boot_mm :: "u32 \<Rightarrow> u32 \<Rightarrow> mm_state" where
  "boot_mm ipd pds =
     \<lparr>dev = null_dev, mem = (\<lambda>_. 0),
      vga_colomn = 0, vga_row = 0, current_vga_color = default_vga_color, vga = (\<lambda>_. 0),
      caps_lock = False, shift_pressed = False,
      gdt_entries = replicate 6 (make_gdt_entry 0 0 0 0), gdtr = \<lparr>limit = 0, base = 0\<rparr>, tss = zero_tss,
      idt_entries = replicate 256 zero_idt_entry, idtr = \<lparr>limit = 0, base = 0\<rparr>,
      cpu_gdtr = \<lparr>limit = 0, base = 0\<rparr>, cpu_tr = 0, cpu_cs = 0, cpu_ds = 0, cpu_es = 0, cpu_fs = 0, cpu_gs = 0, cpu_ss = 0, cpu_idtr = \<lparr>limit = 0, base = 0\<rparr>, cpu_if = False,
      page_frame_min = 0, page_frame_max = 0, total_alloc = 0, mem_num_vpages = 0,
      physical_memory_bitmap = replicate 8192 0, page_dirs_used = replicate 256 0,
      pmem = (\<lambda>_. 0), cr3 = ipd - 0xC0000000, tlb_flushes = [],
      initial_page_dir = ipd, page_dirs = pds\<rparr>"

lemma bitmap_get_zero [simp]: "k < 65536 \<Longrightarrow> \<not> bitmap_get (replicate 8192 0) k"
  by (simp add: bitmap_get_def)

lemma unat_CEIL_DIV_page:
  "unat m \<le> 0xFFFFF000 \<Longrightarrow> unat (CEIL_DIV m 0x1000) = (unat m + 4095) div 4096"
proof -
  assume "unat m \<le> 0xFFFFF000"
  then have "unat (m + 0x1000 - 1) = unat m + 4095"
    by (cases "m = 0") (simp_all add: unat_add_u32 add_diff_eq [symmetric])
  then show ?thesis by (simp add: CEIL_DIV_def unat_div)
qed

lemma pmm_init_free:
  assumes "length (physical_memory_bitmap s) = 8192"
    and "0 < unat low" "unat low \<le> 0xFFFFF000" "unat high \<le> 0x10000000"
  shows "pmm_inv (pmm_init low high s)" "pmm_used (pmm_init low high s) = {}"
    "pmm_frames (pmm_init low high s) = {(unat low + 4095) div 4096..<unat high div 4096}"
proof -
  have "unat (high div 0x1000) = unat high div 4096" by (simp add: unat_div)
  then show "pmm_inv (pmm_init low high s)" "pmm_used (pmm_init low high s) = {}"
      "pmm_frames (pmm_init low high s) = {(unat low + 4095) div 4096..<unat high div 4096}"
    using assms by (auto simp: pmm_init_def pmm_inv_def pmm_used_def pmm_frames_def unat_CEIL_DIV_page)
qed

text \<open>128 MB of memory above the first 2 MB, all free.\<close>

abbreviation "boot_pmm \<equiv> pmm_init 0x200000 0x8000000 (boot_mm 0xC0105000 0xC0106000)"

lemma boot_pmm_free:
  "pmm_inv boot_pmm" "pmm_used boot_pmm = {}" "pmm_frames boot_pmm = {512..<32768}"
  using pmm_init_free [of "boot_mm 0xC0105000 0xC0106000" "0x200000" "0x8000000"] by (simp_all add: boot_mm_def)

text \<open>C31: \<^verbatim>\<open>pmm_init\<close> establishes the allocator's invariant with every frame free, for memory that
  starts above address 0 and ends within the 256 MB the bitmap can describe; the frames managed are
  exactly those that lie wholly between the two limits.\<close>

theorem pmm_init_all_free:
  assumes "length (physical_memory_bitmap s) = 8192"
    and "0 < unat low" "unat low \<le> 0xFFFFF000" "unat high \<le> 0x10000000"
  shows "pmm_inv (pmm_init low high s) \<and> pmm_used (pmm_init low high s) = {} \<and>
    pmm_frames (pmm_init low high s) = {k. unat low \<le> k * 4096 \<and> (k + 1) * 4096 \<le> unat high}"
  using pmm_init_free [OF assms] by auto

theorem pmm_init_all_free_witness:
  "pmm_inv boot_pmm \<and> pmm_used boot_pmm = {}"
  using pmm_init_all_free [of "boot_mm 0xC0105000 0xC0106000" "0x200000" "0x8000000"] by (simp add: boot_mm_def)

text \<open>C3: as long as frames are free, consecutive allocations return pairwise distinct frames, none of
  them 0; each is page aligned and inside the managed memory.\<close>

theorem pmm_allocates_distinct_frames:
  assumes "pmm_inv s" and "n \<le> card (pmm_frames s - pmm_used s)"
  shows "\<exists>ks t. times_do n pmm_alloc_page_frame s = Ret (map frame_addr ks) t \<and> length ks = n \<and>
    distinct (map frame_addr ks) \<and> set ks \<subseteq> pmm_frames s - pmm_used s \<and>
    (\<forall>p\<in>set (map frame_addr ks). p \<noteq> 0 \<and> unat p mod 4096 = 0)"
proof -
  from pmm.times_alloc_fresh [OF assms] obtain ks t where
    *: "times_do n pmm_alloc_page_frame s = Ret (map frame_addr ks) t" "length ks = n"
      "set ks \<subseteq> pmm_frames s - pmm_used s"
    by blast
  from pmm.times_alloc_distinct [OF assms] * have dist: "distinct (map frame_addr ks)"
      and nz: "0 \<notin> set (map frame_addr ks)"
    by auto
  have "unat (frame_addr k) mod 4096 = 0" if "k \<in> set ks" for k
    using that *(3) assms(1) by (subst unat_frame_addr) (auto simp: pmm_frames_def pmm_inv_def)
  then have "\<forall>p\<in>set (map frame_addr ks). p \<noteq> 0 \<and> unat p mod 4096 = 0"
    using nz by auto
  with * dist show ?thesis by (intro exI [of _ ks] exI [of _ t]) (simp del: set_map)
qed

theorem pmm_allocates_distinct_frames_witness:
  "\<exists>ks t. times_do 32256 pmm_alloc_page_frame boot_pmm = Ret (map frame_addr ks) t \<and> distinct (map frame_addr ks)"
  using pmm_allocates_distinct_frames [of boot_pmm 32256] boot_pmm_free by fastforce

text \<open>C7: freeing the frame just allocated restores the memory manager exactly, counter included.\<close>

theorem pmm_alloc_free_roundtrip:
  assumes "pmm_inv s" and "\<not> pmm_frames s \<subseteq> pmm_used s"
  shows "\<exists>p t. pmm_alloc_page_frame s = Ret p t \<and> p \<noteq> 0 \<and> t \<noteq> s \<and> pmm_free_page_frame p t = Ret () s"
proof -
  define k where "k = Min (pmm_frames s - pmm_used s)"
  have alloc: "pmm_alloc_page_frame s = Ret (frame_addr k) (pmm_take k s)" and "k \<in> pmm_frames s - pmm_used s"
    unfolding k_def using pmm_alloc_found [OF assms] by auto
  then have k: "unat (page_frame_min s) \<le> k" "k < unat (page_frame_max s)" "k < 65536"
      and clear: "\<not> bit (physical_memory_bitmap s ! (k div 8)) (k mod 8)" and "frame_addr k \<noteq> 0"
    using assms(1) pmm.id_nonzero [OF assms(1), of k]
    by (auto simp: pmm_frames_def pmm_used_def pmm_inv_def bitmap_get_def)
  have fi: "unat (frame_addr k div 0x1000) = k" using k by (intro frame_addr_div) simp
  have len: "k div 8 < length (physical_memory_bitmap s)" using k(3) assms(1) by (simp add: pmm_inv_def)
  let ?b = "physical_memory_bitmap s ! (k div 8)"
  have "(?b OR 2 ^ (k mod 8)) AND NOT (2 ^ (k mod 8)) = ?b"
    using clear by (intro bit_word_eqI) (auto simp: bit_simps)
  moreover have "bit (?b OR 2 ^ (k mod 8)) (k mod 8)" by (simp add: bit_simps)
  moreover have "\<not> frame_addr k div 0x1000 < page_frame_min s" "\<not> page_frame_max s < frame_addr k div 0x1000"
    using k fi by (simp_all add: u32_less_iff)
  ultimately have "pmm_free_page_frame (frame_addr k) (pmm_take k s) = Ret () s"
    using fi len by (simp add: pmm_free_page_frame_def pmm_take_def Let_def frame_div_mod shifted_bit)
  moreover have "pmm_take k s \<noteq> s"
  proof
    assume "pmm_take k s = s"
    then have "total_alloc (pmm_take k s) = total_alloc s" by simp
    then show False by (simp add: pmm_take_def)
  qed
  ultimately show ?thesis using alloc \<open>frame_addr k \<noteq> 0\<close> by blast
qed

theorem pmm_alloc_free_roundtrip_witness:
  "\<exists>p t. pmm_alloc_page_frame boot_pmm = Ret p t \<and> pmm_free_page_frame p t = Ret () boot_pmm"
  using pmm_alloc_free_roundtrip [of boot_pmm] boot_pmm_free by auto

end
