(* ===== verification/Paging.thy ===== *)
theory Paging
  imports Pmm
begin

unbundle bit_operations_syntax

text \<open>
  Paging: the second half of \<^verbatim>\<open>MM/memory.c\<close>.

  The page tables live in physical memory (\<open>pmem\<close>) and the code reaches them through the recursive
  slot 1023 of the current directory, so every such access goes through \<open>translate\<close>, the two-level
  walk of the processor, and is a \<open>Fault\<close> where nothing is mapped. The walk is made for each access
  (no stale entry of the translation buffer is modelled; the flushes are logged). The arrays
  \<^verbatim>\<open>initial_page_dir\<close> and \<^verbatim>\<open>page_dirs\<close> belong to the kernel image, which \<^verbatim>\<open>boot.s\<close> maps at
  \<^verbatim>\<open>KERNEL_START\<close>: their physical address is the virtual one less \<^verbatim>\<open>KERNEL_START\<close>.

  The lemmas show that mapping and unmapping a page refine the update of an abstract function from
  virtual to physical addresses, for as long as \<open>paging_inv\<close> holds, which they preserve.
\<close>

section \<open>The processor's view\<close>

abbreviation "KERNEL_START \<equiv> (0xC0000000 :: u32)"
abbreviation "KERNEL_MALLOC \<equiv> (0xD0000000 :: u32)"
abbreviation "REC_PAGE_DIR \<equiv> (0xFFFFF000 :: u32)"
abbreviation "PAGE_FLAG_PRESENT \<equiv> (1 :: u32)"
abbreviation "PAGE_FLAG_WRITE \<equiv> (2 :: u32)"
abbreviation "PAGE_FLAG_USER \<equiv> (4 :: u32)"
abbreviation "PAGE_FLAG_FRAME \<equiv> (0xFFFFF000 :: u32)"
abbreviation "PAGE_FLAG_OWNER \<equiv> (0x200 :: u32)"

definition REC_PAGE_TABLE :: "nat \<Rightarrow> u32" where
  "REC_PAGE_TABLE i = 0xFFC00000 + of_nat i * 0x1000"

definition entry :: "u32 \<Rightarrow> nat \<Rightarrow> u32" where
  "entry bas i = bas + 4 * of_nat i"

definition pd_index :: "u32 \<Rightarrow> nat" where
  "pd_index va = unat (drop_bit 22 va)"

definition pt_index :: "u32 \<Rightarrow> nat" where
  "pt_index va = unat (drop_bit 12 va AND 0x3FF)"

definition page_of :: "u32 \<Rightarrow> u32" where
  "page_of a = a AND PAGE_FLAG_FRAME"

definition present :: "u32 \<Rightarrow> bool" where
  "present e \<longleftrightarrow> e AND PAGE_FLAG_PRESENT \<noteq> 0"

text \<open>Bit 7 of a directory entry makes it a 4 MB page (\<^verbatim>\<open>boot.s\<close> switches them on).\<close>

definition large :: "u32 \<Rightarrow> bool" where
  "large e \<longleftrightarrow> e AND 0x80 \<noteq> 0"

definition translate :: "(u32 \<Rightarrow> u32) \<Rightarrow> u32 \<Rightarrow> u32 \<Rightarrow> u32 option" where
  "translate pm dir va =
     (let pde = pm (entry dir (pd_index va)) in
      if \<not> present pde then None
      else if large pde then Some ((pde AND 0xFFC00000) + (va AND 0x3FFFFF))
      else let pte = pm (entry (page_of pde) (pt_index va)) in
        if present pte then Some (page_of pte + (va AND 0xFFF)) else None)"

definition vread :: "u32 \<Rightarrow> 'a mm_state_scheme \<Rightarrow> (u32, 'a mm_state_scheme) res" where
  "vread va s = (case translate (pmem s) (cr3 s) va of None \<Rightarrow> Fault | Some pa \<Rightarrow> Ret (pmem s pa) s)"

definition vwrite :: "u32 \<Rightarrow> u32 \<Rightarrow> 'a mm_state_scheme \<Rightarrow> (unit, 'a mm_state_scheme) res" where
  "vwrite va v s = (case translate (pmem s) (cr3 s) va of None \<Rightarrow> Fault
     | Some pa \<Rightarrow> Ret () (s\<lparr>pmem := (pmem s)(pa := v)\<rparr>))"

definition invalidate :: "u32 \<Rightarrow> 'a mm_state_scheme \<Rightarrow> 'a mm_state_scheme" where
  "invalidate vaddr s = s\<lparr>tlb_flushes := vaddr # tlb_flushes s\<rparr>"

section \<open>Page directories\<close>

definition mem_get_current_page_dir :: "'a mm_state_scheme \<Rightarrow> u32" where
  "mem_get_current_page_dir s = cr3 s + KERNEL_START"

definition mem_change_page_dir :: "u32 \<Rightarrow> 'a mm_state_scheme \<Rightarrow> 'a mm_state_scheme" where
  "mem_change_page_dir pd s = s\<lparr>cr3 := pd - KERNEL_START\<rparr>"

definition mem_change_page_dir_to_intial :: "'a mm_state_scheme \<Rightarrow> 'a mm_state_scheme" where
  "mem_change_page_dir_to_intial s = mem_change_page_dir (initial_page_dir s) s"

text \<open>The address of \<^verbatim>\<open>page_dirs[i]\<close>, and the entry \<open>x\<close> of a directory of the kernel image.\<close>

definition page_dir_addr :: "nat \<Rightarrow> 'a mm_state_scheme \<Rightarrow> u32" where
  "page_dir_addr i s = page_dirs s + of_nat i * 0x1000"

definition dir_entry :: "u32 \<Rightarrow> nat \<Rightarrow> u32" where
  "dir_entry pd x = entry (pd - KERNEL_START) x"

text \<open>The body of the loop over the directories: the kernel half of one directory.\<close>

definition sync_dir :: "u32 \<Rightarrow> u32 \<Rightarrow> (u32 \<Rightarrow> u32) \<Rightarrow> u32 \<Rightarrow> u32" where
  "sync_dir initial page_dir pm =
     fold (\<lambda>x pm. pm(dir_entry page_dir x := pm (dir_entry initial x) AND NOT PAGE_FLAG_OWNER)) [768..<1024] pm"

definition sync_page_dirs :: "'a mm_state_scheme \<Rightarrow> 'a mm_state_scheme" where
  "sync_page_dirs s = s\<lparr>pmem :=
     fold (\<lambda>i pm. if page_dirs_used s ! i \<noteq> 0 then sync_dir (initial_page_dir s) (page_dir_addr i s) pm else pm)
       [0..<256] (pmem s)\<rparr>"

text \<open>\<^verbatim>\<open>memset(page_dirs_used, 0, NUM_PAGE_DIRS)\<close> counts bytes: it clears the first 64 entries.\<close>

definition init_memory :: "u32 \<Rightarrow> u32 \<Rightarrow> 'a mm_state_scheme \<Rightarrow> 'a mm_state_scheme" where
  "init_memory mem_high physical_alloc_start s =
     (let s = s\<lparr>mem_num_vpages := 0\<rparr>;
          s = s\<lparr>pmem := (pmem s)(dir_entry (initial_page_dir s) 0 := 0)\<rparr>;
          s = invalidate 0 s;
          s = s\<lparr>pmem := (pmem s)(dir_entry (initial_page_dir s) 1023 :=
                (initial_page_dir s - KERNEL_START) OR PAGE_FLAG_PRESENT OR PAGE_FLAG_WRITE)\<rparr>;
          s = invalidate 0xFFFFF000 s;
          s = pmm_init physical_alloc_start mem_high s;
          s = s\<lparr>pmem := (\<lambda>a. if unat (a - (page_dirs s - KERNEL_START)) < 0x1000 * 256 then 0 else pmem s a)\<rparr>;
          s = s\<lparr>page_dirs_used := replicate 64 0 @ drop 64 (page_dirs_used s)\<rparr>;
          s = s\<lparr>pmem := fold (\<lambda>x pm. pm(dir_entry (page_dir_addr 0 s) x := pm (dir_entry (initial_page_dir s) x)))
                  [0..<1024] (pmem s)\<rparr>
      in s\<lparr>page_dirs_used := (page_dirs_used s)[0 := 1]\<rparr>)"

section \<open>Mapping and unmapping\<close>

text \<open>A kernel address is mapped in the initial directory, which is then copied to the others.
  \<open>enter_kernel_dir\<close> and \<open>leave_kernel_dir\<close> are the code at the start and at the end of both
  functions; the former returns \<^verbatim>\<open>prev_page_dir\<close>.\<close>

definition enter_kernel_dir :: "u32 \<Rightarrow> 'a mm_state_scheme \<Rightarrow> u32 \<times> 'a mm_state_scheme" where
  "enter_kernel_dir virt_addr s =
     (if KERNEL_START \<le> virt_addr
      then let prev_page_dir = mem_get_current_page_dir s in
        (prev_page_dir,
         if prev_page_dir \<noteq> initial_page_dir s then mem_change_page_dir (initial_page_dir s) s else s)
      else (0, s))"

definition leave_kernel_dir :: "bool \<Rightarrow> u32 \<Rightarrow> 'a mm_state_scheme \<Rightarrow> 'a mm_state_scheme" where
  "leave_kernel_dir sync prev_page_dir s =
     (if prev_page_dir \<noteq> 0 \<and> prev_page_dir \<noteq> initial_page_dir s
      then mem_change_page_dir prev_page_dir (if sync then sync_page_dirs s else s) else s)"

definition mem_map_entry :: "u32 \<Rightarrow> u32 \<Rightarrow> u32 \<Rightarrow> 'a mm_state_scheme \<Rightarrow> (unit, 'a mm_state_scheme) res" where
  "mem_map_entry virt_addr phy_addr flags s =
     (let pd = pd_index virt_addr; pti = pt_index virt_addr; pt = REC_PAGE_TABLE pd; pde_flags = flags AND 0x3FF in
      bind (vread (entry REC_PAGE_DIR pd) s) (\<lambda>pde s.
      bind (if pde AND PAGE_FLAG_PRESENT = 0 then
              bind (pmm_alloc_page_frame s) (\<lambda>pt_padrr s.
              bind (vwrite (entry REC_PAGE_DIR pd) (pt_padrr OR pde_flags OR PAGE_FLAG_PRESENT OR PAGE_FLAG_WRITE) s)
                (\<lambda>_ s. for_each [0..<1024] (\<lambda>i s. vwrite (entry pt i) 0 s) (invalidate pt s)))
            else Ret () s) (\<lambda>_ s.
      bind (vwrite (entry pt pti) ((phy_addr AND PAGE_FLAG_FRAME) OR pde_flags) s) (\<lambda>_ s.
      Ret () (invalidate virt_addr (s\<lparr>mem_num_vpages := mem_num_vpages s + 1\<rparr>))))))"

definition mem_map_page :: "u32 \<Rightarrow> u32 \<Rightarrow> u32 \<Rightarrow> 'a mm_state_scheme \<Rightarrow> (unit, 'a mm_state_scheme) res" where
  "mem_map_page virt_addr phy_addr flags s =
     (let (prev, s) = enter_kernel_dir virt_addr s in
      bind (mem_map_entry virt_addr phy_addr flags s) (\<lambda>_ s. Ret () (leave_kernel_dir True prev s)))"

text \<open>The search for an entry that is present, stopped by the first one.\<close>

definition table_in_use :: "u32 \<Rightarrow> 'a mm_state_scheme \<Rightarrow> (unit option, 'a mm_state_scheme) res" where
  "table_in_use pt = for_ret [0..<1024] (\<lambda>i s. bind (vread (entry pt i) s) (\<lambda>e s.
     Ret (if e AND PAGE_FLAG_PRESENT \<noteq> 0 then Some () else None) s))"

text \<open>The result says whether the entry was present (whether the directories are copied).\<close>

definition mem_unmap_entry :: "u32 \<Rightarrow> 'a mm_state_scheme \<Rightarrow> (bool, 'a mm_state_scheme) res" where
  "mem_unmap_entry virt_addr s =
     (let pd = pd_index virt_addr; pti = pt_index virt_addr; pt = REC_PAGE_TABLE pd in
      bind (vread (entry REC_PAGE_DIR pd) s) (\<lambda>pde s.
      if pde AND PAGE_FLAG_PRESENT = 0 then Ret False s else
      bind (vread (entry pt pti) s) (\<lambda>pte s.
      if pte AND PAGE_FLAG_PRESENT = 0 then Ret False s else
      let phys_addr = pte AND PAGE_FLAG_FRAME in
      bind (if phys_addr \<noteq> 0 then pmm_free_page_frame phys_addr s else Ret () s) (\<lambda>_ s.
      bind (vwrite (entry pt pti) 0 s) (\<lambda>_ s.
      bind (table_in_use pt (invalidate virt_addr (s\<lparr>mem_num_vpages := mem_num_vpages s - 1\<rparr>))) (\<lambda>used s.
      bind (if used = None \<and> virt_addr < KERNEL_START
            then bind (vread (entry REC_PAGE_DIR pd) s) (\<lambda>e s.
                 bind (vwrite (entry REC_PAGE_DIR pd) 0 s) (\<lambda>_ s.
                 bind (pmm_free_page_frame (e AND PAGE_FLAG_FRAME) s) (\<lambda>_ s. Ret () (invalidate pt s))))
            else Ret () s) (\<lambda>_ s. Ret True s)))))))"

definition mem_unmap_page :: "u32 \<Rightarrow> 'a mm_state_scheme \<Rightarrow> (unit, 'a mm_state_scheme) res" where
  "mem_unmap_page virt_addr s =
     (let (prev, s) = enter_kernel_dir virt_addr s in
      bind (mem_unmap_entry virt_addr s) (\<lambda>sync s. Ret () (leave_kernel_dir sync prev s)))"

section \<open>New and old directories\<close>

fun find_dir :: "(nat \<Rightarrow> bool) \<Rightarrow> nat list \<Rightarrow> nat option" where
  "find_dir P [] = None"
| "find_dir P (i # is) = (if P i then Some i else find_dir P is)"

definition vmm_new_page_dir :: "'a mm_state_scheme \<Rightarrow> (u32, 'a mm_state_scheme) res" where
  "vmm_new_page_dir s =
     (case find_dir (\<lambda>i. page_dirs_used s ! i = 0) [0..<256] of
        None \<Rightarrow> Ret 0 s
      | Some i \<Rightarrow>
          let s = s\<lparr>page_dirs_used := (page_dirs_used s)[i := 1]\<rparr>;
              pd = page_dir_addr i s;
              s = s\<lparr>pmem := fold (\<lambda>x pm. pm(dir_entry pd x := 0)) [0..<1024] (pmem s)\<rparr>;
              s = sync_page_dirs s;
              phys = pd - KERNEL_START
          in Ret pd (s\<lparr>pmem := (pmem s)(dir_entry pd 1023 := phys OR PAGE_FLAG_PRESENT OR PAGE_FLAG_WRITE)\<rparr>))"

definition vmm_free_page_dir :: "u32 \<Rightarrow> 'a mm_state_scheme \<Rightarrow> (unit, 'a mm_state_scheme) res" where
  "vmm_free_page_dir pd s =
     (if pd = initial_page_dir s then Ret () s else
      case find_dir (\<lambda>i. page_dir_addr i s = pd) [0..<256] of
        None \<Rightarrow> Ret () s
      | Some i \<Rightarrow>
          let old_pd = mem_get_current_page_dir s; s = mem_change_page_dir pd s in
          bind (for_each [0..<786] (\<lambda>x s.
            if pmem s (dir_entry pd x) AND PAGE_FLAG_PRESENT = 0 then Ret () s else
            bind (for_each [0..<1024] (\<lambda>y s. bind (vread (entry (REC_PAGE_TABLE x) y) s) (\<lambda>e s.
                if e AND PAGE_FLAG_PRESENT = 0 then Ret () s
                else pmm_free_page_frame (e AND NOT 0xFFF) s)) s) (\<lambda>_ s.
            pmm_free_page_frame (pmem s (dir_entry pd x) AND NOT 0xFFF) s)) s) (\<lambda>_ s.
          let s = mem_change_page_dir old_pd s in
          bind (pmm_free_page_frame (pd - KERNEL_START) s) (\<lambda>_ s.
          Ret () (s\<lparr>page_dirs_used := (page_dirs_used s)[i := 0]\<rparr>))))"

section \<open>Address arithmetic\<close>

abbreviation "aligned a \<equiv> page_of a = a"

lemma page_of_shifts: "page_of a = push_bit 12 (drop_bit 12 a)"
  unfolding page_of_def mask_literals by (rule bit_word_eqI) (auto simp: bit_simps)

lemma unat_page_of [u_simps]: "unat (page_of a) = unat a div 4096 * 4096"
proof -
  have "unat a div 4096 * 4096 \<le> unat a" by simp
  then have "unat a div 4096 * 4096 < 4294967296" using u32_less_size [of a] by linarith
  then show ?thesis
    by (simp add: page_of_shifts push_bit_eq_mult unat_mult_u32 drop_bit_eq_div unat_div mult.commute)
qed

lemma aligned_iff: "aligned a \<longleftrightarrow> unat a mod 4096 = 0"
proof -
  have "aligned a \<longleftrightarrow> unat a div 4096 * 4096 = unat a" by (simp add: word_unat_eq_iff unat_page_of)
  then show ?thesis by (metis add_cancel_right_right div_mult_mod_eq)
qed

lemma aligned_page_of [simp]: "aligned (page_of a)"
  by (simp add: aligned_iff unat_page_of)

lemma unat_offset [u_simps]: "unat (a AND 0xFFF :: u32) = unat a mod 4096"
  unfolding mask_literals take_bit_eq_mask [symmetric] by (simp add: take_bit_eq_mod unat_mod)

lemma pd_index_nat: "pd_index va = unat va div 4194304"
  by (simp add: pd_index_def drop_bit_eq_div unat_div)

lemma pt_index_nat: "pt_index va = unat va div 4096 mod 1024"
  unfolding pt_index_def mask_literals take_bit_eq_mask [symmetric]
  by (simp add: take_bit_eq_mod unat_mod drop_bit_eq_div unat_div)

lemma index_less [simp]: "pd_index va < 1024" "pt_index va < 1024"
  using u32_less_size [of va] by (simp_all add: pd_index_nat pt_index_nat div_less_iff_less_mult del: u32_less_size)

text \<open>A page is given by its two indices.\<close>

lemma same_page_iff: "page_of v = page_of w \<longleftrightarrow> pd_index v = pd_index w \<and> pt_index v = pt_index w"
proof -
  have "page_of v = page_of w \<longleftrightarrow> unat v div 4096 = unat w div 4096"
    by (simp add: word_unat_eq_iff unat_page_of)
  also have "\<dots> \<longleftrightarrow> unat v div 4096 div 1024 = unat w div 4096 div 1024 \<and>
      unat v div 4096 mod 1024 = unat w div 4096 mod 1024"
    by (metis div_mod_decomp)
  finally show ?thesis by (simp add: pd_index_nat pt_index_nat div_mult2_eq [symmetric])
qed

lemma unat_entry: "aligned b \<Longrightarrow> i < 1024 \<Longrightarrow> unat (entry b i) = unat b + 4 * i"
proof -
  assume "aligned b" and i: "i < 1024"
  then have "4096 dvd unat b" by (simp add: aligned_iff dvd_eq_mod_eq_0)
  then obtain k where k: "unat b = 4096 * k" by (auto elim: dvdE)
  with u32_less_size [of b] have "k < 1048576" by linarith
  then have "k \<le> 1048575" by simp
  with i have "4096 * k + 4 * i < 4294967296" by linarith
  with k have "unat b + 4 * i < 4294967296" by simp
  with i show ?thesis by (simp add: entry_def unat_add_u32 unat_mult_u32 unat_of_nat_u32)
qed

lemma entry_eq_iff:
  assumes "aligned b" "aligned c" "i < 1024" "j < 1024"
  shows "entry b i = entry c j \<longleftrightarrow> b = c \<and> i = j"
proof
  assume "entry b i = entry c j"
  then have eq: "unat b + 4 * i = unat c + 4 * j" using assms by (metis unat_entry)
  have "4096 dvd unat b" "4096 dvd unat c" using assms by (simp_all add: aligned_iff dvd_eq_mod_eq_0)
  then obtain k l where kl: "unat b = 4096 * k" "unat c = 4096 * l" by (auto elim!: dvdE)
  with eq assms(3,4) have "k = l" by linarith
  with kl eq show "b = c \<and> i = j" by (simp add: word_unat_eq_iff)
qed simp

lemma page_of_or_flags: "aligned a \<Longrightarrow> page_of (a OR (f AND 0x3FF) OR 1 OR 2) = a"
  "aligned a \<Longrightarrow> page_of (a OR (f AND 0x3FF)) = a"
proof -
  have m: "(0x3FF :: u32) AND NOT (mask 12) = 0" "(3 :: u32) AND NOT (mask 12) = 0"
    by (simp_all add: mask_eq_exp_minus_1)
  have p: "page_of x = x AND NOT (mask 12)" for x by (simp add: page_of_def mask_literals)
  show "aligned a \<Longrightarrow> page_of (a OR (f AND 0x3FF) OR 1 OR 2) = a"
    "aligned a \<Longrightarrow> page_of (a OR (f AND 0x3FF)) = a"
    by (simp_all add: p bit.conj_disj_distrib2 and.assoc m)
qed

lemma present_or: "present (a OR b OR 1 OR 2)" "f AND 1 = 1 \<Longrightarrow> present (a OR (f AND 0x3FF))"
proof -
  have b: "present e \<longleftrightarrow> bit e 0" for e by (simp add: present_def and_one_eq bit_0 odd_iff_mod_2_eq_one)
  show "present (a OR b OR 1 OR 2)" by (simp add: b bit_or_iff bit_1_iff)
  show "present (a OR (f AND 0x3FF))" if "f AND 1 = 1"
  proof -
    have "bit f 0" using that by (metis b present_def zero_neq_one)
    then show ?thesis unfolding b mask_literals by (simp add: bit_simps)
  qed
qed

lemma not_large_or: "aligned a \<Longrightarrow> f AND 0x80 = 0 \<Longrightarrow> \<not> large (a OR (f AND 0x3FF) OR 1 OR 2)"
proof -
  assume a: "aligned a" and f: "f AND 0x80 = 0"
  have "a AND 0x80 = page_of a AND 0x80" using a by simp
  then have a0: "a AND 0x80 = 0" by (simp add: page_of_def and.assoc)
  have "(f AND 0x3FF) AND 0x80 = f AND 0x80" by (simp add: and.assoc)
  then show ?thesis using f a0 by (simp add: large_def bit.conj_disj_distrib2)
qed

section \<open>The recursive slot\<close>

definition self_map :: "'a mm_state_scheme \<Rightarrow> bool" where
  "self_map s \<longleftrightarrow> aligned (cr3 s) \<and>
     (let e = pmem s (entry (cr3 s) 1023) in present e \<and> \<not> large e \<and> page_of e = cr3 s)"

lemma rec_address:
  assumes "d < 1024" "i < 1024"
  shows "pd_index (entry (REC_PAGE_TABLE d) i) = 1023" "pt_index (entry (REC_PAGE_TABLE d) i) = d"
    "entry (REC_PAGE_TABLE d) i AND 0xFFF = 4 * of_nat i"
proof -
  have "unat (REC_PAGE_TABLE d) = 0xFFC00000 + d * 4096"
    using assms by (simp add: REC_PAGE_TABLE_def unat_add_u32 unat_mult_u32 unat_of_nat_u32)
  moreover from this have "aligned (REC_PAGE_TABLE d)" by (simp add: aligned_iff mod_simps)
  ultimately have u: "unat (entry (REC_PAGE_TABLE d) i) = 0xFFC00000 + d * 4096 + 4 * i"
    using assms by (simp add: unat_entry)
  have pages: "unat (entry (REC_PAGE_TABLE d) i) div 4096 = 1047552 + d"
    using assms unfolding u by linarith
  show "pd_index (entry (REC_PAGE_TABLE d) i) = 1023"
    using assms unfolding pd_index_nat u by linarith
  have "(1047552 + d) mod 1024 = d" using assms by (simp add: mod_add_left_eq [of 1047552, symmetric])
  then show "pt_index (entry (REC_PAGE_TABLE d) i) = d" unfolding pt_index_nat pages .
  have "unat (entry (REC_PAGE_TABLE d) i AND 0xFFF) = 4 * i"
    using pages unfolding unat_offset minus_div_mult_eq_mod [symmetric] by (simp add: u algebra_simps)
  moreover have "unat (4 * of_nat i :: u32) = 4 * i"
    using assms by (simp add: unat_mult_u32 unat_of_nat_u32)
  ultimately show "entry (REC_PAGE_TABLE d) i AND 0xFFF = 4 * of_nat i" by (simp add: word_unat_eq_iff)
qed

lemma REC_PAGE_DIR_table: "REC_PAGE_DIR = REC_PAGE_TABLE 1023"
  by (simp add: REC_PAGE_TABLE_def)

text \<open>The recursive slot shows each page table of the directory, and the directory as its own table.\<close>

lemma translate_table:
  assumes "self_map s" "present (pmem s (entry (cr3 s) d))" "d < 1024" "i < 1024"
  shows "translate (pmem s) (cr3 s) (entry (REC_PAGE_TABLE d) i) = Some (entry (page_of (pmem s (entry (cr3 s) d))) i)"
  using assms by (simp add: translate_def self_map_def Let_def rec_address) (simp add: entry_def)

lemma vread_table:
  assumes "self_map s" "present (pmem s (entry (cr3 s) d))" "d < 1024" "i < 1024"
  shows "vread (entry (REC_PAGE_TABLE d) i) s = Ret (pmem s (entry (page_of (pmem s (entry (cr3 s) d))) i)) s"
  using translate_table [OF assms] by (simp add: vread_def)

lemma vwrite_table:
  assumes "self_map s" "present (pmem s (entry (cr3 s) d))" "d < 1024" "i < 1024"
  shows "vwrite (entry (REC_PAGE_TABLE d) i) v s =
    Ret () (s\<lparr>pmem := (pmem s)(entry (page_of (pmem s (entry (cr3 s) d))) i := v)\<rparr>)"
  using translate_table [OF assms] by (simp add: vwrite_def)

lemma vread_dir:
  assumes "self_map s" "i < 1024"
  shows "vread (entry REC_PAGE_DIR i) s = Ret (pmem s (entry (cr3 s) i)) s"
  using vread_table [of s 1023 i] assms unfolding REC_PAGE_DIR_table by (simp add: self_map_def Let_def)

lemma vwrite_dir:
  assumes "self_map s" "i < 1024"
  shows "vwrite (entry REC_PAGE_DIR i) v s = Ret () (s\<lparr>pmem := (pmem s)(entry (cr3 s) i := v)\<rparr>)"
  using vwrite_table [of s 1023 i] assms unfolding REC_PAGE_DIR_table by (simp add: self_map_def Let_def)

section \<open>The address space as a function\<close>

text \<open>The page table of a directory entry, if it has one, and the well-formedness of a directory: its
  tables are distinct frames and none of them is the directory.\<close>

definition table_frame :: "(u32 \<Rightarrow> u32) \<Rightarrow> u32 \<Rightarrow> nat \<Rightarrow> u32 option" where
  "table_frame pm dir i =
     (let e = pm (entry dir i) in if present e \<and> \<not> large e then Some (page_of e) else None)"

definition tables_ok :: "(u32 \<Rightarrow> u32) \<Rightarrow> u32 \<Rightarrow> bool" where
  "tables_ok pm dir \<longleftrightarrow> aligned dir \<and>
     (\<forall>i<1023. \<forall>p. table_frame pm dir i = Some p \<longrightarrow>
        p \<noteq> dir \<and> (\<forall>j<1023. table_frame pm dir j = Some p \<longrightarrow> j = i))"

definition free_frame :: "'a mm_state_scheme \<Rightarrow> u32 \<Rightarrow> bool" where
  "free_frame s p \<longleftrightarrow> (\<exists>k\<in>pmm_frames s - pmm_used s. p = frame_addr k)"

definition paging_inv :: "'a mm_state_scheme \<Rightarrow> bool" where
  "paging_inv s \<longleftrightarrow> pmm_inv s \<and> self_map s \<and> tables_ok (pmem s) (cr3 s) \<and> \<not> free_frame s (cr3 s) \<and>
     (\<forall>i<1023. \<forall>p. table_frame (pmem s) (cr3 s) i = Some p \<longrightarrow> \<not> free_frame s p)"

text \<open>What the current directory maps below the window of the recursive slot.\<close>

definition vmap :: "'a mm_state_scheme \<Rightarrow> u32 \<Rightarrow> u32 option" where
  "vmap s va = (if va < 0xFFC00000 then translate (pmem s) (cr3 s) va else None)"

definition amap_set :: "u32 \<Rightarrow> u32 option \<Rightarrow> (u32 \<Rightarrow> u32 option) \<Rightarrow> u32 \<Rightarrow> u32 option" where
  "amap_set v p m = (\<lambda>va. if page_of va = page_of v then map_option (\<lambda>p. page_of p + (va AND 0xFFF)) p else m va)"

lemma low_index: "va < 0xFFC00000 \<longleftrightarrow> pd_index va < 1023"
  by (simp add: u32_less_iff pd_index_nat div_less_iff_less_mult)

lemma table_frameD: "table_frame pm dir i = Some p \<Longrightarrow>
    present (pm (entry dir i)) \<and> \<not> large (pm (entry dir i)) \<and> page_of (pm (entry dir i)) = p"
  by (auto simp: table_frame_def Let_def split: if_splits)

lemma table_frame_aligned: "table_frame pm dir i = Some p \<Longrightarrow> aligned p"
  by (metis aligned_page_of table_frameD)

lemma translate_cong:
  assumes "pm' (entry dir (pd_index va)) = pm (entry dir (pd_index va))"
    and "\<And>p. table_frame pm dir (pd_index va) = Some p \<Longrightarrow> pm' (entry p (pt_index va)) = pm (entry p (pt_index va))"
  shows "translate pm' dir va = translate pm dir va"
  using assms by (auto simp: translate_def table_frame_def Let_def split: if_splits)

text \<open>Writing an entry of a page table changes the one page; the directory stays the same.\<close>

lemma dir_set_pte:
  assumes "tables_ok pm dir" "table_frame pm dir d = Some p" "d < 1023" "i < 1024" "j < 1024"
  shows "(pm(entry p i := e)) (entry dir j) = pm (entry dir j)"
    and "table_frame (pm(entry p i := e)) dir j = table_frame pm dir j"
proof -
  have "p \<noteq> dir" "aligned dir" using assms by (auto simp: tables_ok_def)
  then show "(pm(entry p i := e)) (entry dir j) = pm (entry dir j)"
    using assms table_frame_aligned [OF assms(2)] by (simp add: entry_eq_iff)
  then show "table_frame (pm(entry p i := e)) dir j = table_frame pm dir j"
    by (simp only: table_frame_def)
qed

lemma translate_set_pte:
  assumes ok: "tables_ok pm dir" and d: "table_frame pm dir (pd_index v) = Some p" "pd_index v < 1023"
    and va: "pd_index va < 1023"
  shows "translate (pm(entry p (pt_index v) := e)) dir va =
    (if page_of va = page_of v then if present e then Some (page_of e + (va AND 0xFFF)) else None
     else translate pm dir va)"
proof (cases "page_of va = page_of v")
  case True
  then have "pd_index va = pd_index v" "pt_index va = pt_index v" by (simp_all add: same_page_iff)
  then show ?thesis
    using dir_set_pte(1) [OF ok d, of "pt_index v" "pd_index v" e] table_frameD [OF d(1)] True
    by (simp add: translate_def Let_def)
next
  case False
  have "translate (pm(entry p (pt_index v) := e)) dir va = translate pm dir va"
  proof (rule translate_cong)
    show "(pm(entry p (pt_index v) := e)) (entry dir (pd_index va)) = pm (entry dir (pd_index va))"
      using dir_set_pte(1) [OF ok d] by simp
    fix q assume q: "table_frame pm dir (pd_index va) = Some q"
    have "q = p \<Longrightarrow> pd_index va = pd_index v" using ok d q va by (auto simp: tables_ok_def)
    then have "\<not> (q = p \<and> pt_index va = pt_index v)" using False by (auto simp: same_page_iff)
    then show "(pm(entry p (pt_index v) := e)) (entry q (pt_index va)) = pm (entry q (pt_index va))"
      using table_frame_aligned [OF d(1)] table_frame_aligned [OF q] by (auto simp: entry_eq_iff)
  qed
  with False show ?thesis by simp
qed

text \<open>The first \<open>k\<close> entries of a table cleared, and a cleared table put into a directory.\<close>

definition clear_table :: "u32 \<Rightarrow> nat \<Rightarrow> (u32 \<Rightarrow> u32) \<Rightarrow> u32 \<Rightarrow> u32" where
  "clear_table f k pm = (\<lambda>a. if a \<in> entry f ` {..<k} then 0 else pm a)"

lemma clear_table_same [simp]: "i < k \<Longrightarrow> clear_table f k pm (entry f i) = 0"
  by (simp add: clear_table_def)

lemma clear_table_other:
  "aligned f \<Longrightarrow> aligned b \<Longrightarrow> b \<noteq> f \<Longrightarrow> i < 1024 \<Longrightarrow> k \<le> 1024 \<Longrightarrow> clear_table f k pm (entry b i) = pm (entry b i)"
  by (auto simp: clear_table_def entry_eq_iff)

lemma clear_table_Suc: "clear_table f (Suc k) pm = (clear_table f k pm)(entry f k := 0)"
  by (auto simp: clear_table_def fun_eq_iff lessThan_Suc)

lemma dir_new_table:
  fixes pm :: "u32 \<Rightarrow> u32"
  assumes "aligned dir" "aligned f" "f \<noteq> dir" "d < 1023" "j < 1024"
    and new: "present e" "\<not> large e" "page_of e = f"
  defines "pm' \<equiv> clear_table f 1024 (pm(entry dir d := e))"
  shows "pm' (entry dir j) = (if j = d then e else pm (entry dir j))"
    and "table_frame pm' dir j = (if j = d then Some f else table_frame pm dir j)"
proof -
  show *: "pm' (entry dir j) = (if j = d then e else pm (entry dir j))"
    using assms by (simp add: pm'_def clear_table_other entry_eq_iff)
  show "table_frame pm' dir j = (if j = d then Some f else table_frame pm dir j)"
    unfolding table_frame_def * using new by simp
qed

lemma translate_new_table:
  assumes "tables_ok pm dir" "aligned f" "f \<noteq> dir" "d < 1023"
    and new: "present e" "\<not> large e" "page_of e = f"
    and absent: "\<not> present (pm (entry dir d))"
    and fresh: "\<And>i. i < 1023 \<Longrightarrow> table_frame pm dir i \<noteq> Some f"
    and va: "pd_index va < 1023"
  shows "translate (clear_table f 1024 (pm(entry dir d := e))) dir va = translate pm dir va"
proof -
  have dir: "aligned dir" using assms(1) by (simp add: tables_ok_def)
  note here = dir_new_table(1) [OF dir assms(2-4) index_less(1) new, of pm va]
  show ?thesis
  proof (cases "pd_index va = d")
    case True
    with here absent show ?thesis
      using new by (simp add: translate_def Let_def) (simp add: present_def)
  next
    case False
    show ?thesis
    proof (rule translate_cong)
      show "clear_table f 1024 (pm(entry dir d := e)) (entry dir (pd_index va)) = pm (entry dir (pd_index va))"
        using here False by simp
      fix p assume p: "table_frame pm dir (pd_index va) = Some p"
      then have "p \<noteq> f" "p \<noteq> dir" using fresh va assms(1) by (auto simp: tables_ok_def)
      then show "clear_table f 1024 (pm(entry dir d := e)) (entry p (pt_index va)) = pm (entry p (pt_index va))"
        using table_frame_aligned [OF p] assms(2,4) dir
        by (simp add: clear_table_other entry_eq_iff)
    qed
  qed
qed

lemma tables_ok_new_table:
  assumes "tables_ok pm dir" "aligned f" "f \<noteq> dir" "d < 1023" "present e" "\<not> large e" "page_of e = f"
    and "\<And>i. i < 1023 \<Longrightarrow> table_frame pm dir i \<noteq> Some f"
  shows "tables_ok (clear_table f 1024 (pm(entry dir d := e))) dir"
  using assms dir_new_table(2) [of dir f d _ e pm]
  by (auto simp: tables_ok_def split: if_splits)

section \<open>Mapping refines the update of the address space\<close>

lemma pmm_fields [frame_simps]:
  "pmm_inv (s\<lparr>pmem := pm\<rparr>) = pmm_inv s" "pmm_inv (s\<lparr>tlb_flushes := fl\<rparr>) = pmm_inv s"
  "pmm_inv (s\<lparr>mem_num_vpages := n\<rparr>) = pmm_inv s" "pmm_inv (s\<lparr>cr3 := c\<rparr>) = pmm_inv s"
  "free_frame (s\<lparr>pmem := pm\<rparr>) = free_frame s" "free_frame (s\<lparr>tlb_flushes := fl\<rparr>) = free_frame s"
  "free_frame (s\<lparr>mem_num_vpages := n\<rparr>) = free_frame s" "free_frame (s\<lparr>cr3 := c\<rparr>) = free_frame s"
  by (auto simp: pmm_inv_def free_frame_def pmm_frames_def pmm_used_def fun_eq_iff)

lemma self_map_fields [frame_simps]:
  "self_map (s\<lparr>tlb_flushes := fl\<rparr>) = self_map s" "self_map (s\<lparr>mem_num_vpages := n\<rparr>) = self_map s"
  "self_map (pmm_take k s) = self_map s"
  by (simp_all add: self_map_def pmm_take_def)

lemma pmm_take_paging [frame_simps]:
  "pmem (pmm_take k s) = pmem s" "cr3 (pmm_take k s) = cr3 s" "tlb_flushes (pmm_take k s) = tlb_flushes s"
  "mem_num_vpages (pmm_take k s) = mem_num_vpages s" "initial_page_dir (pmm_take k s) = initial_page_dir s"
  by (simp_all add: pmm_take_def)

lemma self_map_pmem:
  "self_map s \<Longrightarrow> pm (entry (cr3 s) 1023) = pmem s (entry (cr3 s) 1023) \<Longrightarrow> self_map (s\<lparr>pmem := pm\<rparr>)"
  by (simp add: self_map_def)

lemma clear_loop:
  assumes "self_map s" "present (pmem s (entry (cr3 s) d))" "d < 1024"
    and f: "f = page_of (pmem s (entry (cr3 s) d))" "f \<noteq> cr3 s" and "k \<le> 1024"
  shows "for_each [0..<k] (\<lambda>i s. vwrite (entry (REC_PAGE_TABLE d) i) 0 s) s =
    Ret () (s\<lparr>pmem := clear_table f k (pmem s)\<rparr>)"
  using assms(6)
proof (induction k)
  case 0
  show ?case by (simp add: clear_table_def)
next
  case (Suc k)
  let ?t = "s\<lparr>pmem := clear_table f k (pmem s)\<rparr>"
  have al: "aligned f" "aligned (cr3 s)" using assms(1) f by (simp_all add: self_map_def)
  have same: "pmem ?t (entry (cr3 s) j) = pmem s (entry (cr3 s) j)" if "j < 1024" for j
    using al f(2) that Suc.prems by (simp add: clear_table_other)
  have "self_map ?t" using assms(1) same by (intro self_map_pmem) auto
  then have "vwrite (entry (REC_PAGE_TABLE d) k) 0 ?t = Ret () (?t\<lparr>pmem := (pmem ?t)(entry f k := 0)\<rparr>)"
    using vwrite_table [of ?t d k 0] same [of d] assms(2,3) Suc.prems f by simp
  with Suc show ?case
    by (simp add: for_each_append clear_table_Suc upt_Suc_append del: upt_Suc fun_upd_apply)
qed

lemma map_entry_present:
  assumes "self_map s" "tables_ok (pmem s) (cr3 s)" "table_frame (pmem s) (cr3 s) (pd_index v) = Some p"
    and "pd_index v < 1023"
  shows "mem_map_entry v ph fl s = Ret () (s\<lparr>pmem := (pmem s)(entry p (pt_index v) := page_of ph OR (fl AND 0x3FF)),
    mem_num_vpages := mem_num_vpages s + 1, tlb_flushes := v # tlb_flushes s\<rparr>)"
  using assms table_frameD [OF assms(3)]
  by (simp add: mem_map_entry_def Let_def vread_dir vwrite_table invalidate_def present_def page_of_def)

text \<open>The new table of an absent entry, with the flags of the page.\<close>

lemma map_entry_absent:
  fixes fl :: u32
  assumes "self_map s" and d: "pd_index v < 1023" "\<not> present (pmem s (entry (cr3 s) (pd_index v)))"
    and a: "pmm_alloc_page_frame s = Ret f u" "pmem u = pmem s" "cr3 u = cr3 s"
    and f: "aligned f" "f \<noteq> cr3 s"
  defines "e \<equiv> f OR (fl AND 0x3FF) OR 1 OR 2"
  defines "pm \<equiv> clear_table f 1024 ((pmem s)(entry (cr3 s) (pd_index v) := e))"
  shows "mem_map_entry v ph fl s = Ret () (u\<lparr>pmem := pm(entry f (pt_index v) := page_of ph OR (fl AND 0x3FF)),
    mem_num_vpages := mem_num_vpages u + 1,
    tlb_flushes := v # REC_PAGE_TABLE (pd_index v) # tlb_flushes u\<rparr>)"
proof -
  have e3: "f OR (fl AND 0x3FF) OR 3 = e" by (simp add: e_def)
  have u: "self_map u" using assms(1) a by (simp add: self_map_def)
  have al: "aligned (cr3 s)" using assms(1) by (simp add: self_map_def)
  have e: "present e" "page_of e = f" unfolding e_def using page_of_or_flags(1) [OF f(1)] present_or(1) by blast+
  let ?w = "u\<lparr>pmem := (pmem s)(entry (cr3 s) (pd_index v) := e),
    tlb_flushes := REC_PAGE_TABLE (pd_index v) # tlb_flushes u\<rparr>"
  have w: "vwrite (entry REC_PAGE_DIR (pd_index v)) e u = Ret () (u\<lparr>pmem := (pmem s)(entry (cr3 s) (pd_index v) := e)\<rparr>)"
    using u a d(1) by (simp add: vwrite_dir)
  have sw: "self_map ?w" using u a d(1) al by (auto simp: self_map_def entry_eq_iff)
  have clear: "for_each [0..<1024] (\<lambda>i s. vwrite (entry (REC_PAGE_TABLE (pd_index v)) i) 0 s) ?w = Ret () (?w\<lparr>pmem := pm\<rparr>)"
    using clear_loop [OF sw, of "pd_index v" f 1024] e f(2) a(3) by (simp add: pm_def)
  have spm: "self_map (?w\<lparr>pmem := pm\<rparr>)"
    using sw al f a(3) by (intro self_map_pmem) (auto simp: pm_def clear_table_other)
  have dpm: "pm (entry (cr3 s) (pd_index v)) = e"
    using al f by (simp add: pm_def clear_table_other)
  have "vwrite (entry (REC_PAGE_TABLE (pd_index v)) (pt_index v)) (page_of ph OR (fl AND 0x3FF)) (?w\<lparr>pmem := pm\<rparr>)
      = Ret () (?w\<lparr>pmem := pm(entry f (pt_index v) := page_of ph OR (fl AND 0x3FF))\<rparr>)"
    using vwrite_table [OF spm, of "pd_index v" "pt_index v"] dpm e a(3) by simp
  with clear w assms(1) a(1) d show ?thesis
    by (simp add: mem_map_entry_def Let_def vread_dir invalidate_def page_of_def [symmetric]
        e3 present_def del: upt_Suc)
qed

text \<open>An address can be mapped: it is below the recursive window, its table is there or a frame is free
  for it, and a kernel address is mapped from the initial directory.\<close>

definition has_table :: "'a mm_state_scheme \<Rightarrow> u32 \<Rightarrow> bool" where
  "has_table s v \<longleftrightarrow> table_frame (pmem s) (cr3 s) (pd_index v) \<noteq> None"

definition own_half :: "'a mm_state_scheme \<Rightarrow> u32 \<Rightarrow> bool" where
  "own_half s v \<longleftrightarrow> v < 0xFFC00000 \<and> (v < KERNEL_START \<or> mem_get_current_page_dir s = initial_page_dir s)"

definition can_map :: "'a mm_state_scheme \<Rightarrow> u32 \<Rightarrow> u32 \<Rightarrow> bool" where
  "can_map s v fl \<longleftrightarrow> own_half s v \<and> fl AND 1 = 1 \<and>
     (has_table s v \<or> \<not> present (pmem s (entry (cr3 s) (pd_index v))) \<and> fl AND 0x80 = 0 \<and>
        \<not> pmm_frames s \<subseteq> pmm_used s)"

lemma own_half_run: "own_half s v \<Longrightarrow> enter_kernel_dir v s = (fst (enter_kernel_dir v s), s) \<and>
    (initial_page_dir t = initial_page_dir s \<longrightarrow> leave_kernel_dir b (fst (enter_kernel_dir v s)) t = t)"
  by (auto simp: own_half_def enter_kernel_dir_def leave_kernel_dir_def Let_def not_le)

text \<open>A page-table write keeps the invariant.\<close>

lemma set_pte_keeps:
  assumes inv: "paging_inv s" and d: "table_frame (pmem s) (cr3 s) (pd_index v) = Some p" "pd_index v < 1023"
  shows "paging_inv (s\<lparr>pmem := (pmem s)(entry p (pt_index v) := e)\<rparr>)"
    and "vmap (s\<lparr>pmem := (pmem s)(entry p (pt_index v) := e)\<rparr>) =
      amap_set v (if present e then Some e else None) (vmap s)"
proof -
  have ok: "tables_ok (pmem s) (cr3 s)" and sm: "self_map s" using inv by (auto simp: paging_inv_def)
  note pte = dir_set_pte [OF ok d, of "pt_index v" _ e]
  have "self_map (s\<lparr>pmem := (pmem s)(entry p (pt_index v) := e)\<rparr>)"
    by (rule self_map_pmem [OF sm]) (rule pte(1), simp_all)
  moreover have "tables_ok ((pmem s)(entry p (pt_index v) := e)) (cr3 s)"
    using ok pte(2) by (simp add: tables_ok_def del: fun_upd_apply)
  ultimately show "paging_inv (s\<lparr>pmem := (pmem s)(entry p (pt_index v) := e)\<rparr>)"
    using inv pte(2) by (simp add: paging_inv_def frame_simps del: fun_upd_apply)
  show "vmap (s\<lparr>pmem := (pmem s)(entry p (pt_index v) := e)\<rparr>) =
      amap_set v (if present e then Some e else None) (vmap s)"
    using translate_set_pte [OF ok d] d(2) same_page_iff
    by (auto simp: vmap_def amap_set_def low_index fun_eq_iff simp del: fun_upd_apply)
qed

lemma new_table_keeps:
  assumes inv: "paging_inv s" and d: "pd_index v < 1023" "\<not> present (pmem s (entry (cr3 s) (pd_index v)))"
    and room: "\<not> pmm_frames s \<subseteq> pmm_used s" and e: "present e" "\<not> large e" "page_of e = frame_addr k"
    and k: "k = Min (pmm_frames s - pmm_used s)"
  defines "t \<equiv> (pmm_take k s)\<lparr>pmem := clear_table (frame_addr k) 1024 ((pmem s)(entry (cr3 s) (pd_index v) := e))\<rparr>"
  shows "paging_inv t" "vmap t = vmap s" "table_frame (pmem t) (cr3 t) (pd_index v) = Some (frame_addr k)"
    "frame_addr k \<noteq> cr3 s"
proof -
  have ok: "tables_ok (pmem s) (cr3 s)" and sm: "self_map s" and pmm: "pmm_inv s"
    using inv by (auto simp: paging_inv_def)
  have kf: "k \<in> pmm_frames s - pmm_used s" using pmm_alloc_found(2) [OF pmm room] k by simp
  then have k64: "k < 65536" using pmm by (auto simp: pmm_frames_def pmm_inv_def)
  have free: "free_frame s (frame_addr k)" using kf by (auto simp: free_frame_def)
  have al: "aligned (frame_addr k)" "aligned (cr3 s)"
    using k64 ok by (simp_all add: aligned_iff unat_frame_addr tables_ok_def)
  show ne: "frame_addr k \<noteq> cr3 s" using inv free by (auto simp: paging_inv_def)
  have fresh: "table_frame (pmem s) (cr3 s) i \<noteq> Some (frame_addr k)" if "i < 1023" for i
    using inv free that by (auto simp: paging_inv_def)
  note dir = dir_new_table [OF al(2,1) ne d(1) _ e, where pm = "pmem s"]
  have nofree: "free_frame t p \<Longrightarrow> free_frame s p \<and> p \<noteq> frame_addr k" for p
  proof -
    assume "free_frame t p"
    then obtain j where j: "j \<in> pmm_frames s" "j \<notin> pmm_used s" "j \<noteq> k" "p = frame_addr j"
      using pmm k64 by (auto simp: t_def frame_simps free_frame_def pmm_used_take)
    then have "j < 65536" using pmm by (auto simp: pmm_frames_def pmm_inv_def)
    with k64 j(3,4) have "p \<noteq> frame_addr k" using frame_addr_div [of j] frame_addr_div [of k] by force
    with j show "free_frame s p \<and> p \<noteq> frame_addr k" by (auto simp: free_frame_def)
  qed
  have "self_map (pmm_take k s)" using sm by (simp add: frame_simps)
  then have "self_map t" unfolding t_def
    by (rule self_map_pmem) (use dir(1) [of 1023] d(1) in \<open>simp add: frame_simps\<close>)
  moreover have "tables_ok (pmem t) (cr3 t)"
    unfolding t_def using tables_ok_new_table [OF ok al(1) ne d(1) e fresh] by (simp add: frame_simps)
  moreover have "pmm_inv t" using pmm by (simp add: t_def frame_simps)
  moreover have "\<not> free_frame t (cr3 t)" using nofree inv by (auto simp: paging_inv_def t_def frame_simps)
  moreover have "\<not> free_frame t p" if "i < 1023" "table_frame (pmem t) (cr3 t) i = Some p" for i p
    using that nofree inv dir(2) [of i] by (auto simp: paging_inv_def t_def frame_simps split: if_splits)
  ultimately show "paging_inv t" by (simp add: paging_inv_def)
  show "vmap t = vmap s"
    using translate_new_table [OF ok al(1) ne d(1) e d(2) fresh]
    by (auto simp: vmap_def t_def frame_simps low_index fun_eq_iff)
  show "table_frame (pmem t) (cr3 t) (pd_index v) = Some (frame_addr k)"
    using dir(2) [of "pd_index v"] d(1) by (simp add: t_def frame_simps)
qed

lemma paging_inv_counters [frame_simps]:
  "paging_inv (s\<lparr>tlb_flushes := fl\<rparr>) = paging_inv s" "paging_inv (s\<lparr>mem_num_vpages := n\<rparr>) = paging_inv s"
  "vmap (s\<lparr>tlb_flushes := fl\<rparr>) = vmap s" "vmap (s\<lparr>mem_num_vpages := n\<rparr>) = vmap s"
  "vmap (s\<lparr>total_alloc := n\<rparr>) = vmap s" "vmap (s\<lparr>physical_memory_bitmap := bm\<rparr>) = vmap s"
  by (simp_all add: paging_inv_def frame_simps vmap_def fun_eq_iff)

lemma map_entry_refines:
  assumes inv: "paging_inv s" and can: "can_map s v fl"
  shows "\<exists>t. mem_map_entry v ph fl s = Ret () t \<and> paging_inv t \<and> vmap t = amap_set v (Some ph) (vmap s) \<and>
    cr3 t = cr3 s \<and> initial_page_dir t = initial_page_dir s \<and> page_frame_max t = page_frame_max s \<and> has_table t v \<and>
    (\<forall>i<1023. \<forall>p. table_frame (pmem t) (cr3 t) i = Some p \<longrightarrow> table_frame (pmem s) (cr3 s) i = Some p \<or> free_frame s p)"
proof -
  have low: "pd_index v < 1023" and fl: "fl AND 1 = 1" using can by (auto simp: can_map_def own_half_def low_index)
  have ok: "tables_ok (pmem s) (cr3 s)" and sm: "self_map s" and pmm: "pmm_inv s"
    using inv by (auto simp: paging_inv_def)
  let ?e = "page_of ph OR (fl AND 0x3FF)"
  have pte: "present ?e" "page_of ?e = page_of ph" using present_or(2) [OF fl] page_of_or_flags(2) by auto
  then have set: "amap_set v (if present ?e then Some ?e else None) m = amap_set v (Some ph) m" for m
    by (simp add: amap_set_def fun_eq_iff)
  show ?thesis
  proof (cases "has_table s v")
    case True
    then obtain p where p: "table_frame (pmem s) (cr3 s) (pd_index v) = Some p" by (auto simp: has_table_def)
    note keep = set_pte_keeps [OF inv p low, of ?e, unfolded set]
    note tf = dir_set_pte(2) [OF ok p low, of "pt_index v" _ ?e]
    show ?thesis using map_entry_present [OF sm ok p low, of ph fl] keep tf p
      by (simp add: frame_simps has_table_def del: fun_upd_apply)
  next
    case False
    then have d: "\<not> present (pmem s (entry (cr3 s) (pd_index v)))" and big: "fl AND 0x80 = 0"
      and room: "\<not> pmm_frames s \<subseteq> pmm_used s"
      using can by (auto simp: can_map_def)
    define k where "k = Min (pmm_frames s - pmm_used s)"
    have alloc: "pmm_alloc_page_frame s = Ret (frame_addr k) (pmm_take k s)" and kf: "k \<in> pmm_frames s"
      using pmm_alloc_found [OF pmm room] by (auto simp: k_def)
    then have "k < 1048576" using pmm by (auto simp: pmm_frames_def pmm_inv_def)
    then have al: "aligned (frame_addr k)" by (simp add: aligned_iff unat_frame_addr)
    define e where "e = frame_addr k OR (fl AND 0x3FF) OR 1 OR 2"
    have e: "present e" "\<not> large e" "page_of e = frame_addr k"
      unfolding e_def using page_of_or_flags(1) [OF al] present_or(1) not_large_or [OF al big] by blast+
    define t where "t = (pmm_take k s)\<lparr>pmem :=
      clear_table (frame_addr k) 1024 ((pmem s)(entry (cr3 s) (pd_index v) := e))\<rparr>"
    note new = new_table_keeps [OF inv low d room e k_def, folded t_def]
    note keep = set_pte_keeps [OF new(1) new(3) low, of ?e, unfolded set]
    have "mem_map_entry v ph fl s = Ret () (t\<lparr>pmem := (pmem t)(entry (frame_addr k) (pt_index v) := ?e),
        mem_num_vpages := mem_num_vpages s + 1,
        tlb_flushes := v # REC_PAGE_TABLE (pd_index v) # tlb_flushes s\<rparr>)"
      using map_entry_absent [OF sm low d alloc _ _ al new(4), of ph fl]
      by (simp add: frame_simps t_def e_def del: fun_upd_apply)
    moreover have "tables_ok (pmem t) (cr3 t)" using new(1) by (simp add: paging_inv_def)
    note tf = dir_set_pte(2) [OF this new(3) low, of "pt_index v" _ ?e]
    moreover have "cr3 t = cr3 s" "initial_page_dir t = initial_page_dir s" "page_frame_max t = page_frame_max s"
      by (simp_all add: t_def pmm_take_def)
    moreover have "free_frame s (frame_addr k)"
      using pmm_alloc_found(2) [OF pmm room] by (auto simp: k_def free_frame_def)
    moreover have "table_frame (pmem t) (cr3 s) i = Some p \<longrightarrow> table_frame (pmem s) (cr3 s) i = Some p \<or> p = frame_addr k"
      if "i < 1023" for i p
      using dir_new_table(2) [OF _ al new(4) low _ e, of i "pmem s"] that ok by (simp add: t_def frame_simps tables_ok_def)
    ultimately show ?thesis using keep new(2,3) by (auto simp: frame_simps has_table_def simp del: fun_upd_apply)
  qed
qed

text \<open>What mapping costs: at most one frame; and a slot of the directory that could be used for mapping
  still can.\<close>

definition slot_ok :: "'a mm_state_scheme \<Rightarrow> nat \<Rightarrow> bool" where
  "slot_ok s i \<longleftrightarrow> table_frame (pmem s) (cr3 s) i \<noteq> None \<or> \<not> present (pmem s (entry (cr3 s) i))"

lemma pmm_sets_fields [frame_simps]:
  "pmm_frames (s\<lparr>pmem := pm\<rparr>) = pmm_frames s" "pmm_frames (s\<lparr>tlb_flushes := fl\<rparr>) = pmm_frames s"
  "pmm_frames (s\<lparr>mem_num_vpages := n\<rparr>) = pmm_frames s" "pmm_used (s\<lparr>pmem := pm\<rparr>) = pmm_used s"
  "pmm_used (s\<lparr>tlb_flushes := fl\<rparr>) = pmm_used s" "pmm_used (s\<lparr>mem_num_vpages := n\<rparr>) = pmm_used s"
  by (simp_all add: pmm_frames_def pmm_used_def)

lemma map_entry_cost:
  assumes inv: "paging_inv s" and can: "can_map s v fl" and run: "mem_map_entry v ph fl s = Ret () t"
  shows "pmm_frames t = pmm_frames s" and "\<exists>k. pmm_used t \<subseteq> insert k (pmm_used s)"
    and "i < 1023 \<Longrightarrow> slot_ok s i \<Longrightarrow> slot_ok t i"
proof -
  have low: "pd_index v < 1023" using can by (auto simp: can_map_def own_half_def low_index)
  have ok: "tables_ok (pmem s) (cr3 s)" and sm: "self_map s" and pmm: "pmm_inv s"
    using inv by (auto simp: paging_inv_def)
  let ?e = "page_of ph OR (fl AND 0x3FF)"
  have "pmm_frames t = pmm_frames s \<and> (\<exists>k. pmm_used t \<subseteq> insert k (pmm_used s)) \<and>
    (i < 1023 \<longrightarrow> slot_ok s i \<longrightarrow> slot_ok t i)"
  proof (cases "has_table s v")
    case True
    then obtain p where p: "table_frame (pmem s) (cr3 s) (pd_index v) = Some p" by (auto simp: has_table_def)
    have t: "t = s\<lparr>pmem := (pmem s)(entry p (pt_index v) := ?e), mem_num_vpages := mem_num_vpages s + 1, tlb_flushes := v # tlb_flushes s\<rparr>"
      using map_entry_present [OF sm ok p low, of ph fl] run by simp
    show ?thesis using dir_set_pte [OF ok p low, of "pt_index v" _ ?e]
      by (auto simp: t frame_simps slot_ok_def simp del: fun_upd_apply)
  next
    case False
    then have d: "\<not> present (pmem s (entry (cr3 s) (pd_index v)))" and big: "fl AND 0x80 = 0"
      and room: "\<not> pmm_frames s \<subseteq> pmm_used s"
      using can by (auto simp: can_map_def)
    define k where "k = Min (pmm_frames s - pmm_used s)"
    have alloc: "pmm_alloc_page_frame s = Ret (frame_addr k) (pmm_take k s)" and kf: "k \<in> pmm_frames s"
      using pmm_alloc_found [OF pmm room] by (auto simp: k_def)
    then have k: "k < 65536" using pmm by (auto simp: pmm_frames_def pmm_inv_def)
    then have al: "aligned (frame_addr k)" by (simp add: aligned_iff unat_frame_addr)
    define e where "e = frame_addr k OR (fl AND 0x3FF) OR 1 OR 2"
    have e: "present e" "\<not> large e" "page_of e = frame_addr k"
      unfolding e_def using page_of_or_flags(1) [OF al] present_or(1) not_large_or [OF al big] by blast+
    define w where "w = (pmm_take k s)\<lparr>pmem :=
      clear_table (frame_addr k) 1024 ((pmem s)(entry (cr3 s) (pd_index v) := e))\<rparr>"
    note new = new_table_keeps [OF inv low d room e k_def, folded w_def]
    have t: "t = w\<lparr>pmem := (pmem w)(entry (frame_addr k) (pt_index v) := ?e),
        mem_num_vpages := mem_num_vpages s + 1, tlb_flushes := v # REC_PAGE_TABLE (pd_index v) # tlb_flushes s\<rparr>"
      using map_entry_absent [OF sm low d alloc _ _ al new(4), of ph fl] run
      by (simp add: frame_simps w_def e_def del: fun_upd_apply)
    have "tables_ok (pmem w) (cr3 w)" using new(1) by (simp add: paging_inv_def)
    note tf = dir_set_pte [OF this new(3) low, of "pt_index v" _ ?e]
    have "aligned (cr3 s)" using ok by (simp add: tables_ok_def)
    note nt = dir_new_table [OF this al new(4) low _ e, where pm = "pmem s"]
    have c: "cr3 w = cr3 s" by (simp add: w_def frame_simps)
    have "slot_ok t i" if "i < 1023" "slot_ok s i"
      using tf(1) [of i] tf(2) [of i] nt(1) [of i] nt(2) [of i] that e
      by (auto simp: t slot_ok_def c frame_simps w_def simp del: fun_upd_apply split: if_splits)
    then show ?thesis using pmm k by (auto simp: t w_def frame_simps pmm_used_take)
  qed
  then show "pmm_frames t = pmm_frames s" and "\<exists>k. pmm_used t \<subseteq> insert k (pmm_used s)"
    and "i < 1023 \<Longrightarrow> slot_ok s i \<Longrightarrow> slot_ok t i" by blast+
qed

section \<open>Unmapping\<close>

abbreviation free_frames :: "'a mm_state_scheme \<Rightarrow> nat set" where
  "free_frames s \<equiv> pmm_frames s - pmm_used s"

abbreviation frame_no :: "u32 \<Rightarrow> nat" where
  "frame_no a \<equiv> unat a div 4096"

lemma pmm_free_any:
  assumes "pmm_inv s" and "unat (page_frame_max s) < 65536"
  shows "\<exists>n bm. pmm_free_page_frame a s = Ret () (s\<lparr>total_alloc := n, physical_memory_bitmap := bm\<rparr>) \<and>
    length bm = 8192 \<and> (\<forall>j. bitmap_get (physical_memory_bitmap s) j \<longrightarrow> j = unat a div 4096 \<or> bitmap_get bm j) \<and>
    (\<forall>j\<in>pmm_frames s. bitmap_get bm j \<longleftrightarrow> j \<noteq> unat a div 4096 \<and> bitmap_get (physical_memory_bitmap s) j)"
proof -
  let ?k = "unat a div 4096"
  have fi: "unat (a div 0x1000) = ?k" by (simp add: unat_div)
  consider (out) "a div 0x1000 < page_frame_min s \<or> page_frame_max s < a div 0x1000"
    | (inside) "\<not> a div 0x1000 < page_frame_min s" "\<not> page_frame_max s < a div 0x1000" by blast
  then show ?thesis
  proof cases
    case out
    then have "?k \<notin> pmm_frames s" using fi by (auto simp: pmm_frames_def u32_less_iff)
    with out show ?thesis using assms(1)
      by (intro exI [of _ "total_alloc s"] exI [of _ "physical_memory_bitmap s"])
        (auto simp: pmm_free_page_frame_def pmm_inv_def)
  next
    case inside
    then have "?k \<le> unat (page_frame_max s)" using fi by (simp add: u32_less_iff)
    then have k: "?k div 8 < length (physical_memory_bitmap s)" using assms by (simp add: pmm_inv_def)
    show ?thesis
    proof (cases "bitmap_get (physical_memory_bitmap s) ?k")
      case True
      with inside k have "pmm_free_page_frame a s = Ret () (s\<lparr>total_alloc := total_alloc s - 1,
          physical_memory_bitmap := (physical_memory_bitmap s)[?k div 8 :=
            physical_memory_bitmap s ! (?k div 8) AND NOT (2 ^ (?k mod 8))]\<rparr>)"
        by (simp add: pmm_free_page_frame_def Let_def frame_div_mod shifted_bit fi bitmap_get_def)
      with assms(1) show ?thesis
        by (intro exI conjI) (assumption, simp add: pmm_inv_def, simp_all add: bitmap_clear [OF k])
    next
      case False
      with inside k have "pmm_free_page_frame a s = Ret () s"
        by (simp add: pmm_free_page_frame_def Let_def frame_div_mod shifted_bit fi bitmap_get_def)
      then show ?thesis using assms(1) False
        by (intro exI [of _ "total_alloc s"] exI [of _ "physical_memory_bitmap s"]) (auto simp: pmm_inv_def)
    qed
  qed
qed

text \<open>Giving back a frame that is neither the directory nor one of its tables keeps the invariant.\<close>

lemma pmm_free_keeps:
  assumes inv: "paging_inv s" and small: "unat (page_frame_max s) < 65536" and a: "aligned a"
    and "a \<noteq> cr3 s" "\<And>i. i < 1023 \<Longrightarrow> table_frame (pmem s) (cr3 s) i \<noteq> Some a"
  shows "\<exists>n bm. pmm_free_page_frame a s = Ret () (s\<lparr>total_alloc := n, physical_memory_bitmap := bm\<rparr>) \<and>
    paging_inv (s\<lparr>total_alloc := n, physical_memory_bitmap := bm\<rparr>) \<and>
    free_frames (s\<lparr>total_alloc := n, physical_memory_bitmap := bm\<rparr>) = free_frames s \<union> pmm_frames s \<inter> {frame_no a}"
proof -
  have pmm: "pmm_inv s" using inv by (simp add: paging_inv_def)
  from pmm_free_any [OF this small, of a] obtain n bm where
    bm: "pmm_free_page_frame a s = Ret () (s\<lparr>total_alloc := n, physical_memory_bitmap := bm\<rparr>)" "length bm = 8192"
      "\<And>j. bitmap_get (physical_memory_bitmap s) j \<Longrightarrow> j = unat a div 4096 \<or> bitmap_get bm j"
      "\<And>j. j \<in> pmm_frames s \<Longrightarrow> bitmap_get bm j \<longleftrightarrow> j \<noteq> frame_no a \<and> bitmap_get (physical_memory_bitmap s) j"
    by blast
  let ?t = "s\<lparr>total_alloc := n, physical_memory_bitmap := bm\<rparr>"
  have free: "free_frame s p \<or> p = a" if ft: "free_frame ?t p" for p
  proof -
    from ft obtain k where k: "k \<in> pmm_frames s" "k \<notin> pmm_used ?t" "p = frame_addr k"
      by (auto simp: free_frame_def pmm_frames_def)
    then have k64: "k < 65536" using pmm by (auto simp: pmm_frames_def pmm_inv_def)
    have "frame_addr (unat a div 4096) = a"
    proof -
      have "unat a div 4096 < 1048576" using u32_less_size [of a] by (simp add: div_less_iff_less_mult del: u32_less_size)
      then have "unat (frame_addr (unat a div 4096)) = unat (page_of a)" by (simp add: unat_frame_addr unat_page_of)
      with a show ?thesis by (simp add: word_unat_eq_iff)
    qed
    with k bm(3) [of k] k64 show ?thesis by (auto simp: free_frame_def pmm_used_def)
  qed
  have "pmm_inv ?t" using pmm bm(2) by (simp add: pmm_inv_def)
  moreover have "self_map ?t" using inv by (simp add: paging_inv_def self_map_def)
  ultimately have "paging_inv ?t" using inv assms(4,5) free by (auto simp: paging_inv_def)
  moreover have "free_frames ?t = free_frames s \<union> pmm_frames s \<inter> {frame_no a}"
  proof -
    have "j < 65536" if "j \<in> pmm_frames s" for j using that pmm by (auto simp: pmm_frames_def pmm_inv_def)
    moreover have "pmm_frames ?t = pmm_frames s" by (simp add: pmm_frames_def)
    ultimately show ?thesis using bm(4) by (auto simp: pmm_used_def)
  qed
  ultimately show ?thesis using bm(1) by blast
qed

lemma for_ret_search:
  assumes "\<And>i. i \<in> set is \<Longrightarrow> c i s = Ret (if P i then Some v else None) s"
  shows "for_ret is c s = Ret (if \<exists>i\<in>set is. P i then Some v else None) s"
  using assms by (induction "is") auto

lemma table_in_use_run:
  assumes "self_map s" "table_frame (pmem s) (cr3 s) d = Some p" "d < 1023"
  shows "table_in_use (REC_PAGE_TABLE d) s =
    Ret (if \<exists>i<1024. present (pmem s (entry p i)) then Some () else None) s"
proof -
  have "table_in_use (REC_PAGE_TABLE d) s =
      Ret (if \<exists>i\<in>set [0..<1024]. present (pmem s (entry p i)) then Some () else None) s"
    unfolding table_in_use_def
    by (rule for_ret_search)
      (use table_frameD [OF assms(2)] assms in \<open>simp add: vread_table present_def [symmetric]\<close>)
  then show ?thesis by (simp add: Bex_def lessThan_def [symmetric] del: upt_Suc)
qed

text \<open>Dropping a page table without entries changes nothing that is mapped.\<close>

lemma drop_table:
  assumes inv: "paging_inv s" and d: "table_frame (pmem s) (cr3 s) d = Some p" "d < 1023"
    and empty: "\<not> (\<exists>i<1024. present (pmem s (entry p i)))"
  defines "t \<equiv> s\<lparr>pmem := (pmem s)(entry (cr3 s) d := 0)\<rparr>"
  shows "paging_inv t" "vmap t = vmap s" "p \<noteq> cr3 t" "\<And>i. i < 1023 \<Longrightarrow> table_frame (pmem t) (cr3 t) i \<noteq> Some p"
    "\<And>i. i < 1023 \<Longrightarrow> table_frame (pmem t) (cr3 s) i = (if i = d then None else table_frame (pmem s) (cr3 s) i)"
proof -
  have ok: "tables_ok (pmem s) (cr3 s)" and sm: "self_map s" using inv by (auto simp: paging_inv_def)
  then have al: "aligned (cr3 s)" "aligned p" by (simp_all add: tables_ok_def table_frame_aligned [OF d(1)])
  have ent: "pmem t (entry (cr3 s) i) = (if i = d then 0 else pmem s (entry (cr3 s) i))" if "i < 1024" for i
    using that d(2) al by (simp add: t_def entry_eq_iff)
  have tf: "table_frame (pmem t) (cr3 s) i = (if i = d then None else table_frame (pmem s) (cr3 s) i)" if "i < 1024" for i
    unfolding table_frame_def ent [OF that] by (simp add: present_def)
  then show "table_frame (pmem t) (cr3 s) i = (if i = d then None else table_frame (pmem s) (cr3 s) i)" if "i < 1023" for i
    using that by simp
  have "self_map t" unfolding t_def by (rule self_map_pmem [OF sm]) (use d(2) al in \<open>simp add: entry_eq_iff\<close>)
  moreover have "tables_ok (pmem t) (cr3 t)"
    using ok tf by (simp add: tables_ok_def) (simp add: t_def)
  ultimately show "paging_inv t" using inv tf by (auto simp: paging_inv_def t_def frame_simps split: if_splits)
  show "p \<noteq> cr3 t" using ok d by (auto simp: tables_ok_def t_def)
  show "table_frame (pmem t) (cr3 t) i \<noteq> Some p" if "i < 1023" for i
    using tf [of i] that ok d by (auto simp: tables_ok_def t_def split: if_splits)
  have "translate (pmem t) (cr3 s) va = translate (pmem s) (cr3 s) va" if va: "pd_index va < 1023" for va
  proof (cases "pd_index va = d")
    case True
    have "pmem t (entry (cr3 s) d) = 0" using ent [of d] d(2) by simp
    moreover have "\<not> present (pmem s (entry p (pt_index va)))" using empty by simp
    ultimately show ?thesis using True table_frameD [OF d(1)] by (simp add: translate_def Let_def) (simp add: present_def)
  next
    case False
    show ?thesis
    proof (rule translate_cong)
      show "pmem t (entry (cr3 s) (pd_index va)) = pmem s (entry (cr3 s) (pd_index va))" using ent False by simp
      fix q assume q: "table_frame (pmem s) (cr3 s) (pd_index va) = Some q"
      then have "q \<noteq> cr3 s" using ok va by (auto simp: tables_ok_def)
      then show "pmem t (entry q (pt_index va)) = pmem s (entry q (pt_index va))"
        using table_frame_aligned [OF q] al d(2) by (auto simp: t_def entry_eq_iff)
    qed
  qed
  then show "vmap t = vmap s" by (auto simp: vmap_def t_def low_index fun_eq_iff)
qed

definition can_unmap :: "'a mm_state_scheme \<Rightarrow> u32 \<Rightarrow> bool" where
  "can_unmap s v \<longleftrightarrow> own_half s v \<and> unat (page_frame_max s) < 65536 \<and>
     (has_table s v \<or> \<not> present (pmem s (entry (cr3 s) (pd_index v)))) \<and>
     (\<forall>pa. vmap s v = Some pa \<longrightarrow> page_of pa \<noteq> cr3 s \<and>
        (\<forall>i<1023. table_frame (pmem s) (cr3 s) i \<noteq> Some (page_of pa)))"

lemma page_of_plus_offset: "page_of (page_of e + (va AND 0xFFF)) = page_of e"
proof -
  have "unat (page_of e) + unat (va AND 0xFFF) < 4294967296"
  proof -
    have "unat e div 4096 < 1048576" using u32_less_size [of e] by (simp add: div_less_iff_less_mult del: u32_less_size)
    moreover have "unat va mod 4096 < 4096" by simp
    ultimately have "unat e div 4096 * 4096 + unat va mod 4096 < 4294967296" by linarith
    then show ?thesis by (simp add: unat_page_of unat_offset)
  qed
  then have "unat (page_of e + (va AND 0xFFF)) = unat e div 4096 * 4096 + unat va mod 4096"
    by (simp add: unat_add_u32 unat_page_of unat_offset)
  then show ?thesis by (simp add: word_unat_eq_iff unat_page_of [of "page_of e + _"] unat_page_of [of e] div_add1_eq)
qed

lemma translate_by_page: "page_of va = page_of v \<Longrightarrow> translate pm dir v = None \<Longrightarrow> translate pm dir va = None"
  by (auto simp: translate_def same_page_iff Let_def split: if_splits)

lemma amap_none: "vmap s v = None \<Longrightarrow> pd_index v < 1023 \<Longrightarrow> amap_set v None (vmap s) = vmap s"
  using translate_by_page [of _ v "pmem s" "cr3 s"]
  by (auto simp: amap_set_def vmap_def fun_eq_iff low_index)

text \<open>The end of \<^verbatim>\<open>mem_unmap_page\<close>: an empty page table of the user half is given back.\<close>

lemma reclaim_table:
  assumes inv: "paging_inv s" and small: "unat (page_frame_max s) < 65536"
    and d: "table_frame (pmem s) (cr3 s) d = Some p" "d < 1023"
  shows "\<exists>t. bind (table_in_use (REC_PAGE_TABLE d) s) (\<lambda>used s.
      bind (if used = None \<and> user
            then bind (vread (entry REC_PAGE_DIR d) s) (\<lambda>e s. bind (vwrite (entry REC_PAGE_DIR d) 0 s) (\<lambda>_ s.
                 bind (pmm_free_page_frame (e AND PAGE_FLAG_FRAME) s) (\<lambda>_ s. Ret () (invalidate (REC_PAGE_TABLE d) s))))
            else Ret () s) (\<lambda>_ s. Ret True s)) = Ret True t \<and>
    paging_inv t \<and> vmap t = vmap s \<and> cr3 t = cr3 s \<and> initial_page_dir t = initial_page_dir s \<and> pmm_frames t = pmm_frames s \<and>
    (let gone = user \<and> \<not> (\<exists>i<1024. present (pmem s (entry p i))) in
      (\<forall>i<1023. table_frame (pmem t) (cr3 t) i = (if i = d \<and> gone then None else table_frame (pmem s) (cr3 s) i)) \<and>
      free_frames t = free_frames s \<union> pmm_frames s \<inter> (if gone then {frame_no p} else {}))"
proof -
  have sm: "self_map s" using inv by (simp add: paging_inv_def)
  note run = table_in_use_run [OF sm d]
  show ?thesis
  proof (cases "(\<exists>i<1024. present (pmem s (entry p i))) \<or> \<not> user")
    case True
    then show ?thesis using inv run by auto
  next
    case False
    then have empty: "\<not> (\<exists>i<1024. present (pmem s (entry p i)))" and user by auto
    let ?t = "s\<lparr>pmem := (pmem s)(entry (cr3 s) d := 0)\<rparr>"
    note drop = drop_table [OF inv d empty]
    from pmm_free_keeps [OF drop(1) _ table_frame_aligned [OF d(1)] drop(3,4)] small obtain n bm where
      free: "pmm_free_page_frame p ?t = Ret () (?t\<lparr>total_alloc := n, physical_memory_bitmap := bm\<rparr>)"
        "paging_inv (?t\<lparr>total_alloc := n, physical_memory_bitmap := bm\<rparr>)"
        "free_frames (?t\<lparr>total_alloc := n, physical_memory_bitmap := bm\<rparr>) = free_frames s \<union> pmm_frames s \<inter> {frame_no p}"
      by (auto simp: frame_simps)
    moreover have "pmem s (entry (cr3 s) d) AND PAGE_FLAG_FRAME = p"
      using table_frameD [OF d(1)] by (simp add: page_of_def)
    moreover have "vmap (?t\<lparr>total_alloc := n, physical_memory_bitmap := bm\<rparr>) = vmap s"
      using drop(2) by (simp add: frame_simps)
    moreover have "pmm_frames (?t\<lparr>total_alloc := n, physical_memory_bitmap := bm\<rparr>) = pmm_frames s" by (simp add: pmm_frames_def)
    ultimately show ?thesis
      using run empty \<open>user\<close> sm d(2) drop(5)
      by (simp add: vread_dir vwrite_dir invalidate_def frame_simps Let_def del: fun_upd_apply)
  qed
qed

text \<open>The page is the only one mapped in its table, a table of the user half.\<close>

definition last_page :: "'a mm_state_scheme \<Rightarrow> u32 \<Rightarrow> bool" where
  "last_page s v \<longleftrightarrow> v < KERNEL_START \<and> vmap s v \<noteq> None \<and>
     (\<forall>va. pd_index va = pd_index v \<longrightarrow> page_of va \<noteq> page_of v \<longrightarrow> vmap s va = None)"

lemma page_with_index:
  assumes "d < 1024" "i < 1024"
  shows "\<exists>va. pd_index va = d \<and> pt_index va = i"
proof -
  define a where "a = d * 4194304 + i * 4096"
  have "a < 4294967296" using assms unfolding a_def by linarith
  then have u: "unat (of_nat a :: u32) = a" by (rule unat_of_nat_u32)
  have "i * 4096 div 4194304 = 0" using assms by simp
  then have "a div 4194304 = d" using div_mult_self3 [of 4194304 d "i * 4096"] by (simp add: a_def)
  moreover have "a div 4096 mod 1024 = i"
  proof -
    have "a = (d * 1024 + i) * 4096" by (simp add: a_def)
    then have "a div 4096 = d * 1024 + i" by (simp del: mult_Suc_right)
    then show ?thesis using assms(2) by simp
  qed
  ultimately show ?thesis using u by (intro exI [of _ "of_nat a"]) (simp add: pd_index_nat pt_index_nat)
qed

lemma last_page_iff:
  assumes p: "table_frame (pmem s) (cr3 s) (pd_index v) = Some p" and d: "pd_index v < 1023" and m: "vmap s v \<noteq> None"
  shows "last_page s v \<longleftrightarrow> v < KERNEL_START \<and> \<not> (\<exists>i<1024. i \<noteq> pt_index v \<and> present (pmem s (entry p i)))"
proof -
  have tr: "vmap s va = None \<longleftrightarrow> \<not> present (pmem s (entry p (pt_index va)))" if "pd_index va = pd_index v" for va
    using table_frameD [OF p] d that by (auto simp: vmap_def low_index translate_def Let_def)
  have "(\<forall>va. pd_index va = pd_index v \<longrightarrow> page_of va \<noteq> page_of v \<longrightarrow> vmap s va = None) \<longleftrightarrow>
      \<not> (\<exists>i<1024. i \<noteq> pt_index v \<and> present (pmem s (entry p i)))"
  proof
    assume a: "\<forall>va. pd_index va = pd_index v \<longrightarrow> page_of va \<noteq> page_of v \<longrightarrow> vmap s va = None"
    show "\<not> (\<exists>i<1024. i \<noteq> pt_index v \<and> present (pmem s (entry p i)))"
    proof
      assume "\<exists>i<1024. i \<noteq> pt_index v \<and> present (pmem s (entry p i))"
      then obtain i where i: "i < 1024" "i \<noteq> pt_index v" "present (pmem s (entry p i))" by blast
      from page_with_index [OF index_less(1) [of v] i(1)] obtain va where va: "pd_index va = pd_index v" "pt_index va = i" by blast
      with a i(2) have "vmap s va = None" by (auto simp: same_page_iff)
      with tr [OF va(1)] va(2) i(3) show False by simp
    qed
  next
    assume n: "\<not> (\<exists>i<1024. i \<noteq> pt_index v \<and> present (pmem s (entry p i)))"
    show "\<forall>va. pd_index va = pd_index v \<longrightarrow> page_of va \<noteq> page_of v \<longrightarrow> vmap s va = None"
    proof (intro allI impI)
      fix va assume "pd_index va = pd_index v" "page_of va \<noteq> page_of v"
      then have "pt_index va \<noteq> pt_index v" "pd_index va = pd_index v" by (auto simp: same_page_iff)
      then show "vmap s va = None" using n tr [of va] index_less(2) [of va] by blast
    qed
  qed
  with m show ?thesis by (simp add: last_page_def)
qed

text \<open>The frames that unmapping a page gives back: the frame of the page and, with the last page of a
  table, the frame of the table.\<close>

definition given_back :: "'a mm_state_scheme \<Rightarrow> u32 \<Rightarrow> u32 set" where
  "given_back s v = {pa. vmap s v = Some pa} \<union>
     {p. last_page s v \<and> table_frame (pmem s) (cr3 s) (pd_index v) = Some p}"

lemma frame_no_page: "frame_no (page_of a) = frame_no a"
  by (simp add: unat_page_of)

lemma frame_no_vmap: "frame_no (page_of e + (v AND 0xFFF)) = frame_no (page_of e)"
  using frame_no_page [of "page_of e + (v AND 0xFFF)"] by (simp only: page_of_plus_offset)

lemma unmap_entry_refines:
  assumes inv: "paging_inv s" and can: "can_unmap s v"
  shows "\<exists>b t. mem_unmap_entry v s = Ret b t \<and> paging_inv t \<and> vmap t = amap_set v None (vmap s) \<and>
    cr3 t = cr3 s \<and> initial_page_dir t = initial_page_dir s \<and> pmm_frames t = pmm_frames s \<and>
    (\<forall>i<1023. table_frame (pmem t) (cr3 t) i =
      (if i = pd_index v \<and> last_page s v then None else table_frame (pmem s) (cr3 s) i)) \<and>
    free_frames t = free_frames s \<union> pmm_frames s \<inter> frame_no ` given_back s v"
proof -
  have low: "v < 0xFFC00000" and d: "pd_index v < 1023" and small: "unat (page_frame_max s) < 65536"
    using can by (auto simp: can_unmap_def own_half_def low_index)
  have ok: "tables_ok (pmem s) (cr3 s)" and sm: "self_map s" using inv by (auto simp: paging_inv_def)
  show ?thesis
  proof (cases "has_table s v")
    case False
    then have ab: "\<not> present (pmem s (entry (cr3 s) (pd_index v)))" using can by (auto simp: can_unmap_def)
    then have "vmap s v = None" by (simp add: vmap_def translate_def Let_def)
    then show ?thesis using inv amap_none [OF _ d, of s] ab sm d
      by (auto simp: mem_unmap_entry_def Let_def vread_dir present_def given_back_def last_page_def)
  next
    case True
    then obtain p where p: "table_frame (pmem s) (cr3 s) (pd_index v) = Some p" by (auto simp: has_table_def)
    let ?e = "pmem s (entry p (pt_index v))"
    have rd: "vread (entry REC_PAGE_DIR (pd_index v)) s = Ret (pmem s (entry (cr3 s) (pd_index v))) s"
        "vread (entry (REC_PAGE_TABLE (pd_index v)) (pt_index v)) s = Ret ?e s"
        "pmem s (entry (cr3 s) (pd_index v)) AND PAGE_FLAG_PRESENT \<noteq> 0"
      using sm d table_frameD [OF p] by (simp_all add: vread_dir vread_table present_def)
    have tr: "vmap s v = (if present ?e then Some (page_of ?e + (v AND 0xFFF)) else None)"
      using low table_frameD [OF p] by (simp add: vmap_def translate_def Let_def)
    show ?thesis
    proof (cases "present ?e")
      case False
      then show ?thesis using inv amap_none [OF _ d, of s] rd tr
        by (auto simp: mem_unmap_entry_def Let_def present_def given_back_def last_page_def)
    next
      case True
      have other: "page_of ?e \<noteq> cr3 s" "\<And>i. i < 1023 \<Longrightarrow> table_frame (pmem s) (cr3 s) i \<noteq> Some (page_of ?e)"
        using can tr True page_of_plus_offset [of ?e v] by (auto simp: can_unmap_def)
      from pmm_free_keeps [OF inv small aligned_page_of other] obtain n bm where
        free: "pmm_free_page_frame (page_of ?e) s = Ret () (s\<lparr>total_alloc := n, physical_memory_bitmap := bm\<rparr>)"
          "paging_inv (s\<lparr>total_alloc := n, physical_memory_bitmap := bm\<rparr>)"
          "free_frames (s\<lparr>total_alloc := n, physical_memory_bitmap := bm\<rparr>) = free_frames s \<union> pmm_frames s \<inter> {frame_no (page_of ?e)}"
        by auto
      define u where "u = (if page_of ?e \<noteq> 0 then s\<lparr>total_alloc := n, physical_memory_bitmap := bm\<rparr> else s)"
      have u: "(if page_of ?e \<noteq> 0 then pmm_free_page_frame (page_of ?e) s else Ret () s) = Ret () u"
          "paging_inv u" "pmem u = pmem s" "cr3 u = cr3 s" "vmap u = vmap s" "page_frame_max u = page_frame_max s"
          "initial_page_dir u = initial_page_dir s" "pmm_frames u = pmm_frames s"
        using free inv by (auto simp: u_def vmap_def fun_eq_iff pmm_frames_def)
      have zero: "0 \<notin> pmm_frames s" using inv by (auto simp: paging_inv_def pmm_frames_def pmm_inv_def)
      have fu: "free_frames u = free_frames s \<union> pmm_frames s \<inter> {frame_no (page_of ?e)}"
        using free(3) zero by (cases "page_of ?e = 0") (simp_all add: u_def)
      have pu: "table_frame (pmem u) (cr3 u) (pd_index v) = Some p" using p u by simp
      define w where "w = u\<lparr>pmem := (pmem u)(entry p (pt_index v) := 0)\<rparr>"
      note keep = set_pte_keeps [OF u(2) pu d, of 0, folded w_def]
      have wr: "vwrite (entry (REC_PAGE_TABLE (pd_index v)) (pt_index v)) 0 u = Ret () w"
        using vwrite_table [of u "pd_index v" "pt_index v" 0] u(2) table_frameD [OF pu]
        by (simp add: w_def paging_inv_def)
      have w: "vmap w = amap_set v None (vmap s)" "cr3 w = cr3 s" "initial_page_dir w = initial_page_dir s"
          "page_frame_max w = page_frame_max s"
        using keep(2) u by (simp_all add: present_def) (simp_all add: w_def u)
      have pw: "table_frame (pmem w) (cr3 w) (pd_index v) = Some p"
        using dir_set_pte(2) [of "pmem u" "cr3 u" "pd_index v" p "pt_index v" "pd_index v" 0] u(2) pu d
        by (simp add: w_def paging_inv_def del: fun_upd_apply)
      have al: "aligned (cr3 s)" "aligned p" using ok table_frame_aligned [OF p] by (simp_all add: tables_ok_def)
      have gone: "(v < KERNEL_START \<and> \<not> (\<exists>i<1024. present (pmem w (entry p i)))) \<longleftrightarrow> last_page s v"
      proof -
        have no_present: "\<not> present 0" by (simp add: present_def)
        have "pmem w (entry p i) = (if i = pt_index v then 0 else pmem s (entry p i))" if "i < 1024" for i
          using that al by (simp add: w_def u(3) entry_eq_iff)
        then have "(\<exists>i<1024. present (pmem w (entry p i))) \<longleftrightarrow> (\<exists>i<1024. i \<noteq> pt_index v \<and> present (pmem s (entry p i)))"
          using no_present by (auto split: if_splits)
        then show ?thesis using last_page_iff [OF p d] tr True by simp
      qed
      have tw: "table_frame (pmem w) (cr3 w) i = table_frame (pmem s) (cr3 s) i" if "i < 1023" for i
        using dir_set_pte(2) [of "pmem u" "cr3 u" "pd_index v" p "pt_index v" i 0] u(2,3,4) pu d that
        by (simp add: w_def paging_inv_def del: fun_upd_apply)
      let ?x = "invalidate v (w\<lparr>mem_num_vpages := mem_num_vpages w - 1\<rparr>)"
      have "paging_inv ?x" "unat (page_frame_max ?x) < 65536" "table_frame (pmem ?x) (cr3 ?x) (pd_index v) = Some p"
        using keep(1) w small pw by (simp_all add: invalidate_def frame_simps)
      from reclaim_table [OF this d, of "v < KERNEL_START"] obtain t where t:
        "mem_unmap_entry v s = Ret True t" "paging_inv t" "vmap t = vmap ?x" "cr3 t = cr3 ?x"
        "initial_page_dir t = initial_page_dir ?x" "pmm_frames t = pmm_frames ?x"
        "\<forall>i<1023. table_frame (pmem t) (cr3 t) i = (if i = pd_index v \<and> last_page s v then None else table_frame (pmem ?x) (cr3 ?x) i)"
        "free_frames t = free_frames ?x \<union> pmm_frames ?x \<inter> (if last_page s v then {frame_no p} else {})"
        using rd True u(1) wr gone by (auto simp: mem_unmap_entry_def Let_def present_def page_of_def [symmetric] invalidate_def)
      have x: "pmm_frames ?x = pmm_frames s" "free_frames ?x = free_frames u"
        using u(8) by (simp_all add: invalidate_def w_def frame_simps)
      have "frame_no ` given_back s v = {frame_no (page_of ?e)} \<union> (if last_page s v then {frame_no p} else {})"
        using tr True p frame_no_vmap [of ?e v] by (auto simp: given_back_def)
      then have "free_frames t = free_frames s \<union> pmm_frames s \<inter> frame_no ` given_back s v"
        by (subst t(8), subst x(2), subst x(1), subst fu) auto
      moreover have "\<forall>i<1023. table_frame (pmem t) (cr3 t) i =
          (if i = pd_index v \<and> last_page s v then None else table_frame (pmem s) (cr3 s) i)"
        using t(7) tw by (simp add: invalidate_def)
      ultimately show ?thesis using t(1-6) x(1) w by (auto simp: invalidate_def frame_simps)
    qed
  qed
qed

section \<open>Properties of mapping\<close>

text \<open>C1: mapping a page refines the update of the address space: afterwards the addresses of the page
  translate to the given frame and every other address translates as before, whether the page table
  was there or had to be allocated; the well-formedness of the directory and of the frame allocator
  is kept.\<close>

theorem mem_map_page_refines:
  assumes "paging_inv s" and "can_map s v fl"
  shows "\<exists>t. mem_map_page v ph fl s = Ret () t \<and> paging_inv t \<and> cr3 t = cr3 s \<and>
    vmap t = amap_set v (Some ph) (vmap s)"
proof -
  from map_entry_refines [OF assms] obtain t where t: "mem_map_entry v ph fl s = Ret () t" "paging_inv t"
      "vmap t = amap_set v (Some ph) (vmap s)" "cr3 t = cr3 s" "initial_page_dir t = initial_page_dir s"
    by blast
  have "own_half s v" using assms(2) by (simp add: can_map_def)
  note run = own_half_run [OF this, of t True]
  then show ?thesis using t
    by (intro exI [of _ t]) (simp add: mem_map_page_def split_beta, metis bind.simps(1) prod.sel(2))
qed

text \<open>C2: unmapping a page removes exactly this page from the address space and keeps the
  well-formedness. The frame of the page becomes free; if it was the last page of its table in the
  user half, the table is taken out of the directory and its frame becomes free too, and no other
  table and no other frame is given back.\<close>

theorem mem_unmap_page_refines:
  assumes "paging_inv s" and "can_unmap s v"
  shows "\<exists>t. mem_unmap_page v s = Ret () t \<and> paging_inv t \<and> cr3 t = cr3 s \<and> vmap t = amap_set v None (vmap s) \<and>
    (\<forall>i<1023. table_frame (pmem t) (cr3 t) i =
      (if i = pd_index v \<and> last_page s v then None else table_frame (pmem s) (cr3 s) i)) \<and>
    pmm_frames t = pmm_frames s \<and>
    free_frames t = free_frames s \<union> pmm_frames s \<inter> frame_no ` given_back s v"
proof -
  from unmap_entry_refines [OF assms] obtain b t where t: "mem_unmap_entry v s = Ret b t" "paging_inv t"
      "vmap t = amap_set v None (vmap s)" "cr3 t = cr3 s" "initial_page_dir t = initial_page_dir s"
      "pmm_frames t = pmm_frames s"
      "\<forall>i<1023. table_frame (pmem t) (cr3 t) i =
        (if i = pd_index v \<and> last_page s v then None else table_frame (pmem s) (cr3 s) i)"
      "free_frames t = free_frames s \<union> pmm_frames s \<inter> frame_no ` given_back s v"
    by blast
  have "own_half s v" using assms(2) by (simp add: can_unmap_def)
  note run = own_half_run [OF this, of t b]
  then show ?thesis using t
    by (intro exI [of _ t]) (simp add: mem_unmap_page_def split_beta, metis bind.simps(1) prod.sel(2))
qed

section \<open>The directories of the kernel image\<close>

text \<open>The layout the linker gives to the two arrays: page aligned, in the kernel image, apart.\<close>

definition dirs_layout :: "u32 \<Rightarrow> u32 \<Rightarrow> bool" where
  "dirs_layout ipd pds \<longleftrightarrow> aligned ipd \<and> aligned pds \<and> KERNEL_START \<le> ipd \<and> KERNEL_START \<le> pds \<and>
     unat pds + 0x100000 < 4294967296 \<and> (unat ipd < unat pds \<or> unat pds + 0x100000 \<le> unat ipd)"

lemma unat_page_dir:
  "dirs_layout ipd pds \<Longrightarrow> i < 256 \<Longrightarrow> unat (pds + of_nat i * 0x1000) = unat pds + i * 4096"
  by (simp add: dirs_layout_def unat_add_u32 unat_mult_u32 unat_of_nat_u32)

lemma aligned_kernel: "aligned a \<Longrightarrow> KERNEL_START \<le> a \<Longrightarrow> aligned (a - KERNEL_START)"
proof -
  assume "aligned a" "KERNEL_START \<le> a"
  then have "unat (a - KERNEL_START) = unat a - 3221225472" "3221225472 \<le> unat a" "4096 dvd unat a"
    by (simp_all add: unat_sub_u32 u32_le_iff aligned_iff dvd_eq_mod_eq_0)
  moreover have "4096 dvd (3221225472 :: nat)" by simp
  ultimately show ?thesis by (simp add: aligned_iff dvd_eq_mod_eq_0 [symmetric] dvd_diff_nat)
qed

lemma dir_addr_facts:
  assumes "dirs_layout ipd pds" "i < 256"
  shows "aligned (pds + of_nat i * 0x1000 - KERNEL_START)" "pds + of_nat i * 0x1000 \<noteq> ipd"
    "pds + of_nat i * 0x1000 \<noteq> 0"
    and "j < 256 \<Longrightarrow> pds + of_nat i * 0x1000 = pds + of_nat j * 0x1000 \<longleftrightarrow> i = j"
proof -
  note u = unat_page_dir [OF assms(1)]
  have "KERNEL_START \<le> pds + of_nat i * 0x1000"
    using u [OF assms(2)] assms(1) by (simp add: dirs_layout_def u32_le_iff)
  moreover have "aligned (pds + of_nat i * 0x1000)"
    using u [OF assms(2)] assms(1) by (simp add: dirs_layout_def aligned_iff)
  ultimately show "aligned (pds + of_nat i * 0x1000 - KERNEL_START)" by (simp add: aligned_kernel)
  show "pds + of_nat i * 0x1000 \<noteq> ipd" "pds + of_nat i * 0x1000 \<noteq> 0"
    using u [OF assms(2)] assms by (auto simp: dirs_layout_def word_unat_eq_iff u32_le_iff)
  show "j < 256 \<Longrightarrow> pds + of_nat i * 0x1000 = pds + of_nat j * 0x1000 \<longleftrightarrow> i = j"
    using u [OF assms(2)] u [of j] by (auto simp: word_unat_eq_iff)
qed

lemma dir_entry_eq_iff:
  "aligned (a - KERNEL_START) \<Longrightarrow> aligned (b - KERNEL_START) \<Longrightarrow> x < 1024 \<Longrightarrow> y < 1024 \<Longrightarrow>
    dir_entry a x = dir_entry b y \<longleftrightarrow> a = b \<and> x = y"
  by (simp add: dir_entry_def entry_eq_iff)

text \<open>Copying entries \<open>xs\<close> of the initial directory to another one.\<close>

lemma copy_entries:
  assumes "aligned (ipd - KERNEL_START)" "aligned (pd - KERNEL_START)" "pd \<noteq> ipd" "set xs \<subseteq> {..<1024}"
    and "aligned (qd - KERNEL_START)" "y < 1024"
  shows "fold (\<lambda>x pm. pm(dir_entry pd x := f (pm (dir_entry ipd x)))) xs pm (dir_entry qd y) =
    (if qd = pd \<and> y \<in> set xs then f (pm (dir_entry ipd y)) else pm (dir_entry qd y))"
  using assms(4)
proof (induction xs arbitrary: pm)
  case (Cons x xs)
  have "(pm(dir_entry pd x := f (pm (dir_entry ipd x)))) (dir_entry ipd y) = pm (dir_entry ipd y)"
    using assms Cons.prems by (simp add: dir_entry_eq_iff)
  moreover have "dir_entry qd y = dir_entry pd x \<longleftrightarrow> qd = pd \<and> y = x"
    using assms Cons.prems by (intro dir_entry_eq_iff) auto
  ultimately show ?case using Cons by (simp del: fun_upd_apply) (auto simp: fun_upd_apply)
qed simp

lemma copy_entries_other:
  assumes "\<And>x. x \<in> set xs \<Longrightarrow> a \<noteq> dir_entry pd x"
  shows "fold (\<lambda>x pm. pm(dir_entry pd x := g x pm)) xs pm a = pm a"
  using assms by (induction xs arbitrary: pm) auto

lemma sync_dir_entry:
  assumes "aligned (ipd - KERNEL_START)" "aligned (pd - KERNEL_START)" "pd \<noteq> ipd"
    and "aligned (qd - KERNEL_START)" "y < 1024"
  shows "sync_dir ipd pd pm (dir_entry qd y) =
    (if qd = pd \<and> 768 \<le> y then pm (dir_entry ipd y) AND NOT PAGE_FLAG_OWNER else pm (dir_entry qd y))"
  unfolding sync_dir_def
  by (subst copy_entries [OF assms(1-3) _ assms(4,5), where f = "\<lambda>v. v AND NOT PAGE_FLAG_OWNER"])
    (use assms(5) in \<open>auto simp del: upt_rec_numeral\<close>)

lemma sync_fold:
  assumes lay: "dirs_layout ipd pds" and "n \<le> 256" and q: "aligned (qd - KERNEL_START)" "y < 1024"
  shows "fold (\<lambda>i pm. if used i then sync_dir ipd (pds + of_nat i * 0x1000) pm else pm) [0..<n] pm (dir_entry qd y) =
    (if 768 \<le> y \<and> (\<exists>i<n. used i \<and> qd = pds + of_nat i * 0x1000)
     then pm (dir_entry ipd y) AND NOT PAGE_FLAG_OWNER else pm (dir_entry qd y))"
  using assms(2) q
proof (induction n arbitrary: qd y)
  case (Suc n)
  have ipd: "aligned (ipd - KERNEL_START)" using lay by (simp add: dirs_layout_def aligned_kernel)
  have n: "n < 256" "n \<le> 256" using Suc.prems(1) by simp_all
  note d = dir_addr_facts [OF lay n(1)]
  let ?f = "fold (\<lambda>i pm. if used i then sync_dir ipd (pds + of_nat i * 0x1000) pm else pm) [0..<n] pm"
  have "ipd \<noteq> pds + of_nat i * 0x1000" if "i < n" for i
    using dir_addr_facts(2) [OF lay, of i] that n(1) by simp
  then have "?f (dir_entry ipd y) = pm (dir_entry ipd y)"
    using Suc.IH [OF n(2) ipd Suc.prems(3)] by auto
  moreover have "sync_dir ipd (pds + of_nat n * 0x1000) ?f (dir_entry qd y) =
      (if qd = pds + of_nat n * 0x1000 \<and> 768 \<le> y then ?f (dir_entry ipd y) AND NOT PAGE_FLAG_OWNER
       else ?f (dir_entry qd y))"
    using d(1,2) ipd Suc.prems by (intro sync_dir_entry) auto
  ultimately show ?case
    using Suc.IH [OF n(2) Suc.prems(2,3)] by (auto simp: less_Suc_eq)
qed simp

text \<open>The arrays of \<^verbatim>\<open>memory.c\<close> as the linker and C leave them.\<close>

definition dirs_inv :: "'a mm_state_scheme \<Rightarrow> bool" where
  "dirs_inv s \<longleftrightarrow> dirs_layout (initial_page_dir s) (page_dirs s) \<and> length (page_dirs_used s) = 256"

lemma sync_page_dirs_at:
  assumes "dirs_inv s" "aligned (qd - KERNEL_START)" "y < 1024"
  shows "pmem (sync_page_dirs s) (dir_entry qd y) =
    (if 768 \<le> y \<and> (\<exists>i<256. page_dirs_used s ! i \<noteq> 0 \<and> qd = page_dir_addr i s)
     then pmem s (dir_entry (initial_page_dir s) y) AND NOT PAGE_FLAG_OWNER else pmem s (dir_entry qd y))"
  using assms sync_fold [of "initial_page_dir s" "page_dirs s" 256 qd y "\<lambda>i. page_dirs_used s ! i \<noteq> 0"]
  unfolding sync_page_dirs_def dirs_inv_def page_dir_addr_def by (simp del: upt_rec_numeral)

lemma sync_page_dirs_form: "sync_page_dirs s = s\<lparr>pmem := pmem (sync_page_dirs s)\<rparr>"
  by (simp add: sync_page_dirs_def)

text \<open>C32: after \<^verbatim>\<open>sync_page_dirs\<close> every directory in use has the kernel half of the initial directory,
  all 256 entries of it less the owner flag, so also entry 1023: the recursive slot of each directory
  leads to the initial directory and not to itself. The user halves and the directories that are not
  in use are as before.\<close>

theorem sync_page_dirs_entries:
  assumes "dirs_inv s" and "i < 256" and "x < 1024"
  shows "pmem (sync_page_dirs s) (dir_entry (page_dir_addr i s) x) =
    (if page_dirs_used s ! i \<noteq> 0 \<and> 768 \<le> x
     then pmem s (dir_entry (initial_page_dir s) x) AND NOT PAGE_FLAG_OWNER
     else pmem s (dir_entry (page_dir_addr i s) x))"
proof -
  have lay: "dirs_layout (initial_page_dir s) (page_dirs s)" using assms(1) by (simp add: dirs_inv_def)
  note d = dir_addr_facts [OF lay assms(2)]
  have "(\<exists>j<256. page_dirs_used s ! j \<noteq> 0 \<and> page_dir_addr i s = page_dir_addr j s) \<longleftrightarrow> page_dirs_used s ! i \<noteq> 0"
    using d(4) assms(2) by (auto simp: page_dir_addr_def)
  then show ?thesis
    using sync_page_dirs_at [OF assms(1) _ assms(3), of "page_dir_addr i s"] d(1) by (auto simp: page_dir_addr_def)
qed

section \<open>Directories as an allocator\<close>

lemma find_dir_None: "find_dir P is = None \<longleftrightarrow> (\<forall>i\<in>set is. \<not> P i)"
  by (induction P "is" rule: find_dir.induct) auto

lemma find_dir_upt: "find_dir P [m..<n] = Some i \<longleftrightarrow> m \<le> i \<and> i < n \<and> P i \<and> (\<forall>j. m \<le> j \<and> j < i \<longrightarrow> \<not> P j)"
proof (induction "n - m" arbitrary: m)
  case 0
  then show ?case by auto
next
  case (Suc k)
  then have "m < n" "find_dir P [Suc m..<n] = Some i \<longleftrightarrow>
      Suc m \<le> i \<and> i < n \<and> P i \<and> (\<forall>j. Suc m \<le> j \<and> j < i \<longrightarrow> \<not> P j)"
    by auto
  then show ?case by (auto simp: upt_conv_Cons) (metis Suc_leI le_neq_implies_less)+
qed

definition dir_slots :: "'a mm_state_scheme \<Rightarrow> nat set" where
  "dir_slots s = {i. i < 256 \<and> page_dirs_used s ! i \<noteq> 0}"

lemma new_page_dir_found:
  assumes "dirs_inv s" and "\<not> {..<256} \<subseteq> dir_slots s"
  defines "i \<equiv> Min ({..<256} - dir_slots s)"
  shows "find_dir (\<lambda>i. page_dirs_used s ! i = 0) [0..<256] = Some i" and "i < 256" "page_dirs_used s ! i = 0"
proof -
  have fin: "finite ({..<256} - dir_slots s)" by simp
  then have "i \<in> {..<256} - dir_slots s" unfolding i_def using assms(2) by (intro Min_in) auto
  then show i: "i < 256" "page_dirs_used s ! i = 0" by (auto simp: dir_slots_def)
  have "page_dirs_used s ! j \<noteq> 0" if "j < i" for j
  proof
    assume "page_dirs_used s ! j = 0"
    then have "i \<le> j" unfolding i_def using that i(1) by (intro Min_le [OF fin]) (auto simp: dir_slots_def)
    with that show False by simp
  qed
  with i show "find_dir (\<lambda>i. page_dirs_used s ! i = 0) [0..<256] = Some i" by (subst find_dir_upt) auto
qed

text \<open>The new directory, and what becomes of the others.\<close>

lemma vmm_new_page_dir_run:
  assumes "dirs_inv s" and "\<not> {..<256} \<subseteq> dir_slots s"
  defines "i \<equiv> Min ({..<256} - dir_slots s)"
  shows "\<exists>pm. vmm_new_page_dir s = Ret (page_dir_addr i s) (s\<lparr>page_dirs_used := (page_dirs_used s)[i := 1], pmem := pm\<rparr>) \<and>
    (\<forall>j x. j < 256 \<longrightarrow> x < 1024 \<longrightarrow> pm (dir_entry (page_dir_addr j s) x) =
      (if j = i \<and> x = 1023 then (page_dir_addr i s - KERNEL_START) OR PAGE_FLAG_PRESENT OR PAGE_FLAG_WRITE
       else if 768 \<le> x \<and> (j = i \<or> page_dirs_used s ! j \<noteq> 0)
       then pmem s (dir_entry (initial_page_dir s) x) AND NOT PAGE_FLAG_OWNER
       else if j = i then 0 else pmem s (dir_entry (page_dir_addr j s) x))) \<and>
    (\<forall>x<1024. pm (dir_entry (initial_page_dir s) x) = pmem s (dir_entry (initial_page_dir s) x))"
proof -
  note found = new_page_dir_found [OF assms(1,2), folded i_def]
  have lay: "dirs_layout (initial_page_dir s) (page_dirs s)" and len: "length (page_dirs_used s) = 256"
    using assms(1) by (auto simp: dirs_inv_def)
  note d = dir_addr_facts [OF lay]
  have ipd: "aligned (initial_page_dir s - KERNEL_START)" using lay by (simp add: dirs_layout_def aligned_kernel)
  let ?pd = "page_dir_addr i s"
  define pm0 where "pm0 = fold (\<lambda>x pm. pm(dir_entry ?pd x := 0)) [0..<1024] (pmem s)"
  define s1 where "s1 = s\<lparr>page_dirs_used := (page_dirs_used s)[i := 1], pmem := pm0\<rparr>"
  define pm where "pm = (pmem (sync_page_dirs s1))(dir_entry ?pd 1023 := (?pd - KERNEL_START) OR PAGE_FLAG_PRESENT OR PAGE_FLAG_WRITE)"
  have inv1: "dirs_inv s1" using lay len by (simp add: dirs_inv_def s1_def)
  have same: "page_dir_addr j s1 = page_dir_addr j s" for j by (simp add: s1_def page_dir_addr_def)
  have pd: "aligned (?pd - KERNEL_START)" "?pd \<noteq> initial_page_dir s"
    using d(1,2) [OF found(2)] by (simp_all add: page_dir_addr_def)
  have pm0: "pm0 (dir_entry qd x) = (if qd = ?pd then 0 else pmem s (dir_entry qd x))"
    if "aligned (qd - KERNEL_START)" "x < 1024" for qd x
    unfolding pm0_def
    using copy_entries [OF ipd pd _ that, of "[0..<1024]" "\<lambda>_. 0" "pmem s"] that(2)
    by (auto simp: lessThan_atLeast0 simp del: upt_rec_numeral)
  have run: "vmm_new_page_dir s = Ret ?pd (s\<lparr>page_dirs_used := (page_dirs_used s)[i := 1], pmem := pm\<rparr>)"
  proof -
    have "vmm_new_page_dir s = Ret ?pd ((sync_page_dirs s1)\<lparr>pmem := pm\<rparr>)"
      using found(1) by (simp add: vmm_new_page_dir_def Let_def page_dir_addr_def pm_def s1_def pm0_def
          del: upt_rec_numeral)
    moreover have "(sync_page_dirs s1)\<lparr>pmem := pm\<rparr> = s1\<lparr>pmem := pm\<rparr>" by (subst sync_page_dirs_form) simp
    ultimately show ?thesis by (simp add: s1_def)
  qed
  have at: "pm (dir_entry qd x) =
      (if qd = ?pd \<and> x = 1023 then (?pd - KERNEL_START) OR PAGE_FLAG_PRESENT OR PAGE_FLAG_WRITE
       else if 768 \<le> x \<and> (\<exists>j<256. page_dirs_used s1 ! j \<noteq> 0 \<and> qd = page_dir_addr j s)
       then pmem s (dir_entry (initial_page_dir s) x) AND NOT PAGE_FLAG_OWNER
       else if qd = ?pd then 0 else pmem s (dir_entry qd x))"
    if q: "aligned (qd - KERNEL_START)" "x < 1024" for qd x
  proof -
    have "pmem s1 (dir_entry (initial_page_dir s1) x) = pmem s (dir_entry (initial_page_dir s) x)"
      using pm0 [OF ipd q(2)] pd(2) by (simp add: s1_def)
    moreover have "pmem s1 (dir_entry qd x) = (if qd = ?pd then 0 else pmem s (dir_entry qd x))"
      using pm0 [OF q] by (simp add: s1_def)
    ultimately show ?thesis
      using q pd(1) sync_page_dirs_at [OF inv1 q] by (auto simp: pm_def dir_entry_eq_iff same)
  qed
  have used: "page_dirs_used s1 ! j \<noteq> 0 \<longleftrightarrow> j = i \<or> page_dirs_used s ! j \<noteq> 0" if "j < 256" for j
    using that len by (cases "j = i") (simp_all add: s1_def nth_list_update)
  have "pm (dir_entry (page_dir_addr j s) x) =
      (if j = i \<and> x = 1023 then (?pd - KERNEL_START) OR PAGE_FLAG_PRESENT OR PAGE_FLAG_WRITE
       else if 768 \<le> x \<and> (j = i \<or> page_dirs_used s ! j \<noteq> 0)
       then pmem s (dir_entry (initial_page_dir s) x) AND NOT PAGE_FLAG_OWNER
       else if j = i then 0 else pmem s (dir_entry (page_dir_addr j s) x))" if jx: "j < 256" "x < 1024" for j x
  proof -
    have inj: "page_dir_addr j s = page_dir_addr k s \<longleftrightarrow> j = k" if "k < 256" for k
      using d(4) [OF jx(1) that] by (simp add: page_dir_addr_def)
    have ex: "(\<exists>k<256. page_dirs_used s1 ! k \<noteq> 0 \<and> page_dir_addr j s = page_dir_addr k s) \<longleftrightarrow> j = i \<or> page_dirs_used s ! j \<noteq> 0"
      using inj used jx(1) by auto
    have "aligned (page_dir_addr j s - KERNEL_START)" using d(1) [OF jx(1)] by (simp add: page_dir_addr_def)
    from at [OF this jx(2), unfolded ex inj [OF found(2)]] show ?thesis by auto
  qed
  moreover have "pm (dir_entry (initial_page_dir s) x) = pmem s (dir_entry (initial_page_dir s) x)" if "x < 1024" for x
  proof -
    have "\<not> (\<exists>j<256. page_dirs_used s1 ! j \<noteq> 0 \<and> initial_page_dir s = page_dir_addr j s)"
      using d(2) unfolding page_dir_addr_def by metis
    then show ?thesis using at [OF ipd that] pd(2) by metis
  qed
  ultimately show ?thesis using run by blast
qed

text \<open>For any place of the array the directories are an allocator of the 256 addresses.\<close>

interpretation vmm: id_allocator "\<lambda>s. dirs_inv s \<and> page_dirs s = pds" "\<lambda>s. {..<256}" dir_slots
  "\<lambda>i. pds + of_nat i * 0x1000" vmm_new_page_dir for pds
proof unfold_locales
  fix s :: "'a mm_state_scheme"
  show "finite {..<256 :: nat}" by simp
  assume inv: "dirs_inv s \<and> page_dirs s = pds"
  then have lay: "dirs_layout (initial_page_dir s) pds" by (auto simp: dirs_inv_def)
  show "inj_on (\<lambda>i. pds + of_nat i * 0x1000) {..<256}"
    using dir_addr_facts(4) [OF lay] by (intro inj_onI) auto
  show "pds + of_nat k * 0x1000 \<noteq> 0" if "k \<in> {..<256}" for k
    using dir_addr_facts(3) [OF lay] that by simp
  show "vmm_new_page_dir s = Ret 0 s" if "{..<256} \<subseteq> dir_slots s"
  proof -
    have "find_dir (\<lambda>i. page_dirs_used s ! i = 0) [0..<256] = None"
      using that by (subst find_dir_None) (auto simp: dir_slots_def)
    then show ?thesis by (simp add: vmm_new_page_dir_def)
  qed
  show "\<exists>t. vmm_new_page_dir s = Ret (pds + of_nat (Min ({..<256} - dir_slots s)) * 0x1000) t \<and>
      (dirs_inv t \<and> page_dirs t = pds) \<and> {..<256 :: nat} = {..<256} \<and>
      dir_slots t = insert (Min ({..<256} - dir_slots s)) (dir_slots s)" if "\<not> {..<256} \<subseteq> dir_slots s"
  proof -
    define i where "i = Min ({..<256} - dir_slots s)"
    from vmm_new_page_dir_run [of s] inv that obtain pm where
      pm: "vmm_new_page_dir s = Ret (page_dir_addr i s) (s\<lparr>page_dirs_used := (page_dirs_used s)[i := 1], pmem := pm\<rparr>)"
      unfolding i_def by blast
    have "i < 256" using new_page_dir_found(2) [of s] inv that by (simp add: i_def)
    then have "dir_slots (s\<lparr>page_dirs_used := (page_dirs_used s)[i := 1], pmem := pm\<rparr>) = insert i (dir_slots s)"
      using inv by (auto simp: dir_slots_def dirs_inv_def nth_list_update)
    with pm inv show ?thesis unfolding i_def [symmetric] by (auto simp: page_dir_addr_def dirs_inv_def)
  qed
qed

section \<open>Initialisation\<close>

text \<open>What \<^verbatim>\<open>boot.s\<close> hands over: paging is on with the initial directory, which has only 4 MB pages.\<close>

definition boot_paging :: "'a mm_state_scheme \<Rightarrow> bool" where
  "boot_paging s \<longleftrightarrow> dirs_inv s \<and> length (physical_memory_bitmap s) = 8192 \<and>
     cr3 s = initial_page_dir s - KERNEL_START \<and>
     (\<forall>i<1023. table_frame (pmem s) (cr3 s) i = None)"

lemma outside_page_dirs:
  assumes lay: "dirs_layout ipd pds" and "x < 1024"
  shows "\<not> unat (dir_entry ipd x - (pds - KERNEL_START)) < 0x100000"
proof -
  have al: "aligned (ipd - KERNEL_START)" "unat (pds - KERNEL_START) = unat pds - 3221225472"
      "unat (ipd - KERNEL_START) = unat ipd - 3221225472"
    using lay by (simp_all add: dirs_layout_def aligned_kernel unat_sub_u32)
  have e: "unat (dir_entry ipd x) = unat ipd - 3221225472 + 4 * x"
    using al assms(2) by (simp add: dir_entry_def unat_entry)
  have K: "3221225472 \<le> unat pds" "3221225472 \<le> unat ipd" using lay by (simp_all add: dirs_layout_def u32_le_iff)
  have dv: "4096 dvd unat pds" "4096 dvd unat ipd" using lay by (simp_all add: dirs_layout_def aligned_iff dvd_eq_mod_eq_0)
  show ?thesis
  proof (cases "unat pds + 0x100000 \<le> unat ipd")
    case True
    then have "pds - KERNEL_START \<le> dir_entry ipd x" using e al K by (simp add: u32_le_iff)
    then show ?thesis using e al K True by (simp add: unat_sub_u32)
  next
    case False
    then have "unat ipd < unat pds" using lay by (auto simp: dirs_layout_def)
    then have "unat ipd + 4096 \<le> unat pds" using dv by (auto elim!: dvdE)
    then have "unat (dir_entry ipd x) < unat (pds - KERNEL_START)" using e al K assms(2) by simp
    then have "unat (dir_entry ipd x - (pds - KERNEL_START)) =
        4294967296 - (unat (pds - KERNEL_START) - unat (dir_entry ipd x))"
      by (subst unat_diff_swap) (auto simp: unat_sub_u32 u32_le_iff)
    moreover have "unat pds + 0x100000 < 4294967296" using lay by (simp add: dirs_layout_def)
    ultimately show ?thesis using K al by simp
  qed
qed

lemma init_memory_run:
  assumes b: "boot_paging s"
  shows "\<exists>pm fl used. init_memory high start s = (pmm_init start high s)\<lparr>mem_num_vpages := 0, pmem := pm,
      tlb_flushes := fl, page_dirs_used := used\<rparr> \<and> used = (replicate 64 0 @ drop 64 (page_dirs_used s))[0 := 1] \<and>
    (\<forall>x<1024. pm (dir_entry (initial_page_dir s) x) =
       (if x = 0 then 0 else if x = 1023 then (initial_page_dir s - KERNEL_START) OR 1 OR 2
        else pmem s (dir_entry (initial_page_dir s) x)))"
proof -
  have lay: "dirs_layout (initial_page_dir s) (page_dirs s)" using b by (simp add: boot_paging_def dirs_inv_def)
  let ?i = "initial_page_dir s" and ?p0 = "page_dirs s"
  have ipd: "aligned (?i - KERNEL_START)" using lay by (simp add: dirs_layout_def aligned_kernel)
  have p0: "aligned (?p0 - KERNEL_START)" "?p0 \<noteq> ?i" using dir_addr_facts(1,2) [OF lay, of 0] by simp_all
  define pm1 where "pm1 = (pmem s)(dir_entry ?i 0 := 0, dir_entry ?i 1023 := (?i - KERNEL_START) OR 1 OR 2)"
  define pm2 where "pm2 = (\<lambda>a. if unat (a - (?p0 - KERNEL_START)) < 0x1000 * 256 then 0 else pm1 a)"
  define pm where "pm = fold (\<lambda>x pm. pm(dir_entry (page_dir_addr 0 s) x := pm (dir_entry ?i x))) [0..<1024] pm2"
  define used where "used = (replicate 64 0 @ drop 64 (page_dirs_used s))[0 := 1]"
  have run: "init_memory high start s = (pmm_init start high s)\<lparr>mem_num_vpages := 0, pmem := pm,
      tlb_flushes := 0xFFFFF000 # 0 # tlb_flushes s, page_dirs_used := used\<rparr>"
    unfolding init_memory_def pm_def pm2_def pm1_def used_def
    by (simp add: Let_def invalidate_def pmm_init_def page_dir_addr_def del: upt_rec_numeral cong: if_cong)
  have "pm (dir_entry ?i x) = pm2 (dir_entry ?i x)" if "x < 1024" for x
    unfolding pm_def page_dir_addr_def
    using copy_entries [OF ipd p0 _ ipd that, of "[0..<1024]" "\<lambda>v. v" pm2] p0(2)
    by (auto simp: lessThan_atLeast0 simp del: upt_rec_numeral)
  moreover have "pm2 (dir_entry ?i x) = pm1 (dir_entry ?i x)" if "x < 1024" for x
    using outside_page_dirs [OF lay that] by (simp add: pm2_def)
  moreover have "pm1 (dir_entry ?i x) = (if x = 0 then 0 else if x = 1023 then (?i - KERNEL_START) OR 1 OR 2
      else pmem s (dir_entry ?i x))" if "x < 1024" for x
    using that ipd by (auto simp: pm1_def dir_entry_eq_iff)
  ultimately show ?thesis using run used_def by metis
qed

lemma init_memory_ready:
  assumes "boot_paging s"
    and "unat (initial_page_dir s - KERNEL_START) < unat start" "unat start \<le> 0xFFFFF000" "unat high \<le> 0x10000000"
    and "\<forall>i. 64 \<le> i \<and> i < 256 \<longrightarrow> page_dirs_used s ! i = 0"
  shows "paging_inv (init_memory high start s) \<and> dirs_inv (init_memory high start s) \<and>
    pmm_used (init_memory high start s) = {} \<and> dir_slots (init_memory high start s) = {0}"
proof -
  let ?t = "init_memory high start s" and ?c = "initial_page_dir s - KERNEL_START"
  from init_memory_run [OF assms(1), of high start] obtain pm fl used where
    run: "?t = (pmm_init start high s)\<lparr>mem_num_vpages := 0, pmem := pm, tlb_flushes := fl, page_dirs_used := used\<rparr>"
    and used: "used = (replicate 64 0 @ drop 64 (page_dirs_used s))[0 := 1]"
    and pm: "\<And>x. x < 1024 \<Longrightarrow> pm (dir_entry (initial_page_dir s) x) =
       (if x = 0 then 0 else if x = 1023 then ?c OR 1 OR 2 else pmem s (dir_entry (initial_page_dir s) x))"
    by blast
  have b: "dirs_inv s" "length (physical_memory_bitmap s) = 8192" "cr3 s = ?c"
      "\<And>i. i < 1023 \<Longrightarrow> table_frame (pmem s) ?c i = None"
    using assms(1) by (auto simp: boot_paging_def)
  have al: "aligned ?c" using b(1) by (simp add: dirs_inv_def dirs_layout_def aligned_kernel)
  have fields: "pmem ?t = pm" "cr3 ?t = ?c" "page_dirs_used ?t = used" "initial_page_dir ?t = initial_page_dir s"
      "page_dirs ?t = page_dirs s"
    using b(3) by (simp_all add: run pmm_init_def)
  have lu: "length used = 256" using b(1) by (simp add: used dirs_inv_def)
  have dirs: "dirs_inv ?t" using b(1) lu by (simp add: dirs_inv_def fields)
  have none: "table_frame pm ?c i = None" if "i < 1023" for i
    using pm [of i] b(4) [OF that] that by (auto simp: table_frame_def dir_entry_def present_def)
  note free = pmm_init_free [OF b(2) _ assms(3,4)]
  have pmm: "pmm_inv ?t" "pmm_used ?t = {}" "pmm_frames ?t = {(unat start + 4095) div 4096..<unat high div 4096}"
    using free assms(2) by (simp_all add: run pmm_inv_def pmm_used_def pmm_frames_def)
  have "\<not> free_frame ?t ?c"
  proof
    assume "free_frame ?t ?c"
    then obtain k where k: "(unat start + 4095) div 4096 \<le> k" "k < unat high div 4096" "?c = frame_addr k"
      unfolding free_frame_def pmm by auto
    have "k < 1048576" using k(2) assms(4) by (auto simp: less_mult_imp_div_less)
    then have "unat ?c = k * 4096" using k(3) unat_frame_addr [of k] by simp
    with k(1) assms(2) show False by linarith
  qed
  moreover have "self_map ?t"
  proof -
    have last: "pm (entry ?c 1023) = ?c OR 1 OR 2" using pm [of 1023] by (simp add: dir_entry_def)
    have "present (?c OR 1 OR 2)" "\<not> large (?c OR 1 OR 2)" "page_of (?c OR 1 OR 2) = ?c"
      using present_or(1) [of ?c 0] not_large_or [OF al, of 0] page_of_or_flags(1) [OF al, of 0] by simp_all
    then show ?thesis by (simp only: self_map_def Let_def fields last al) simp
  qed
  ultimately have "paging_inv ?t" using pmm none al by (simp add: paging_inv_def tables_ok_def fields)
  moreover have "dir_slots ?t = {0}"
  proof -
    have "used ! i = (if i = 0 then 1 else 0)" if "i < 256" for i
      using that assms(5) b(1) lu by (cases "i = 0") (auto simp: used nth_append dirs_inv_def)
    then show ?thesis by (auto simp: dir_slots_def fields split: if_splits)
  qed
  ultimately show ?thesis using dirs pmm by simp
qed

text \<open>C6: \<^verbatim>\<open>init_memory\<close> turns the state the boot code leaves into one where mapping is correct: the
  directory is well formed, its last slot leads to itself, all frames above the kernel image are free
  and no directory but the first is in use.\<close>

theorem init_memory_paging_inv:
  assumes "boot_paging s"
    and "unat (initial_page_dir s - KERNEL_START) < unat start" "unat start \<le> 0xFFFFF000" "unat high \<le> 0x10000000"
    and "\<forall>i. 64 \<le> i \<and> i < 256 \<longrightarrow> page_dirs_used s ! i = 0"
  shows "paging_inv (init_memory high start s) \<and> dirs_inv (init_memory high start s) \<and>
    pmm_used (init_memory high start s) = {} \<and> dir_slots (init_memory high start s) = {0}"
  using assms by (rule init_memory_ready)

text \<open>128 MB of memory and a kernel image below 2 MB.\<close>

abbreviation "booted \<equiv> init_memory 0x8000000 0x200000 (boot_mm 0xC0105000 0xC0106000)"

lemma boot_mm_paging: "boot_paging (boot_mm 0xC0105000 0xC0106000)"
  by (simp add: boot_paging_def dirs_inv_def dirs_layout_def boot_mm_def page_of_def table_frame_def present_def)

lemma booted_inv: "paging_inv booted" "dirs_inv booted" "pmm_used booted = {}" "dir_slots booted = {0}"
  using init_memory_ready [OF boot_mm_paging, of "0x200000" "0x8000000"]
  by (simp_all add: boot_mm_def)

lemma booted_fields: "cr3 booted = 0x105000" "initial_page_dir booted = 0xC0105000"
    "page_frame_max booted = 0x8000" "pmm_frames booted = {512..<32768}"
    "x < 1024 \<Longrightarrow> pmem booted (entry 0x105000 x) = (if x = 1023 then 0x105003 else 0)"
proof -
  from init_memory_run [OF boot_mm_paging, of "0x8000000" "0x200000"] obtain pm fl used where
    run: "booted = boot_pmm\<lparr>mem_num_vpages := 0, pmem := pm, tlb_flushes := fl, page_dirs_used := used\<rparr>"
    and all: "\<forall>x<1024. pm (dir_entry (initial_page_dir (boot_mm 0xC0105000 0xC0106000)) x) =
       (if x = 0 then 0 else if x = 1023 then (initial_page_dir (boot_mm 0xC0105000 0xC0106000) - KERNEL_START) OR 1 OR 2
        else pmem (boot_mm 0xC0105000 0xC0106000) (dir_entry (initial_page_dir (boot_mm 0xC0105000 0xC0106000)) x))"
    by blast
  have "initial_page_dir (boot_mm 0xC0105000 0xC0106000) = 0xC0105000" "pmem (boot_mm 0xC0105000 0xC0106000) = (\<lambda>_. 0)"
    by (simp_all add: boot_mm_def)
  with all have pm: "x < 1024 \<Longrightarrow> pm (dir_entry 0xC0105000 x) = (if x = 1023 then 0x105003 else 0)" for x
    by simp
  have boot: "cr3 boot_pmm = 0x105000" "initial_page_dir boot_pmm = 0xC0105000" "page_frame_max boot_pmm = 0x8000"
    by (simp_all add: pmm_init_def boot_mm_def)
  show "cr3 booted = 0x105000" "initial_page_dir booted = 0xC0105000" "page_frame_max booted = 0x8000"
      "pmm_frames booted = {512..<32768}"
    unfolding run using boot boot_pmm_free(3) by (simp_all add: pmm_frames_def)
  show "x < 1024 \<Longrightarrow> pmem booted (entry 0x105000 x) = (if x = 1023 then 0x105003 else 0)"
    unfolding run using pm [of x] by (simp add: dir_entry_def)
qed

lemma booted_no_table: "i < 1023 \<Longrightarrow> table_frame (pmem booted) (cr3 booted) i = None"
  using booted_fields(5) [of i] by (simp add: table_frame_def booted_fields(1) present_def)

lemma booted_can_map: "can_map booted 0x400000 7"
proof -
  have "pd_index 0x400000 = 1" by (simp add: pd_index_nat)
  then show ?thesis using booted_fields booted_inv(3)
    by (simp add: can_map_def own_half_def present_def)
qed

theorem init_memory_paging_inv_witness: "paging_inv booted \<and> pmm_used booted = {}"
  using init_memory_paging_inv [OF boot_mm_paging, of "0x200000" "0x8000000"] by (simp add: boot_mm_def)

text \<open>C4: a new page directory has an empty user half, the kernel half of the initial directory (less
  the owner flags) and the recursive slot that leads to itself; its user half gets none of the
  entries of any other directory, whose user halves are left as they are.\<close>

theorem vmm_new_page_dir_entries:
  assumes "dirs_inv s" and "\<not> {..<256} \<subseteq> dir_slots s"
  shows "\<exists>i t. i < 256 \<and> page_dirs_used s ! i = 0 \<and> vmm_new_page_dir s = Ret (page_dir_addr i s) t \<and>
    dirs_inv t \<and> dir_slots t = insert i (dir_slots s) \<and>
    (\<forall>x<768. pmem t (dir_entry (page_dir_addr i s) x) = 0) \<and>
    (\<forall>x. 768 \<le> x \<and> x < 1023 \<longrightarrow> pmem t (dir_entry (page_dir_addr i s) x) =
        pmem s (dir_entry (initial_page_dir s) x) AND NOT PAGE_FLAG_OWNER) \<and>
    page_of (pmem t (dir_entry (page_dir_addr i s) 1023)) = page_dir_addr i s - KERNEL_START \<and>
    (\<forall>j x. j < 256 \<and> j \<noteq> i \<and> x < 768 \<longrightarrow>
        pmem t (dir_entry (page_dir_addr j s) x) = pmem s (dir_entry (page_dir_addr j s) x))"
proof -
  define i where "i = Min ({..<256} - dir_slots s)"
  note found = new_page_dir_found [OF assms, folded i_def]
  have lay: "dirs_layout (initial_page_dir s) (page_dirs s)" using assms(1) by (simp add: dirs_inv_def)
  from vmm_new_page_dir_run [OF assms, folded i_def] obtain pm where
    run: "vmm_new_page_dir s = Ret (page_dir_addr i s) (s\<lparr>page_dirs_used := (page_dirs_used s)[i := 1], pmem := pm\<rparr>)"
    and pm: "\<And>j x. j < 256 \<Longrightarrow> x < 1024 \<Longrightarrow> pm (dir_entry (page_dir_addr j s) x) =
      (if j = i \<and> x = 1023 then (page_dir_addr i s - KERNEL_START) OR PAGE_FLAG_PRESENT OR PAGE_FLAG_WRITE
       else if 768 \<le> x \<and> (j = i \<or> page_dirs_used s ! j \<noteq> 0)
       then pmem s (dir_entry (initial_page_dir s) x) AND NOT PAGE_FLAG_OWNER
       else if j = i then 0 else pmem s (dir_entry (page_dir_addr j s) x))"
    by blast
  have "aligned (page_dir_addr i s - KERNEL_START)"
    using dir_addr_facts(1) [OF lay found(2)] by (simp add: page_dir_addr_def)
  from page_of_or_flags(1) [OF this, of 0]
  have own: "page_of (pm (dir_entry (page_dir_addr i s) 1023)) = page_dir_addr i s - KERNEL_START"
    using pm [OF found(2), of 1023] by simp
  have slots: "dir_slots (s\<lparr>page_dirs_used := (page_dirs_used s)[i := 1], pmem := pm\<rparr>) = insert i (dir_slots s)"
    using assms(1) found(2) by (auto simp: dir_slots_def dirs_inv_def nth_list_update)
  have "dirs_inv (s\<lparr>page_dirs_used := (page_dirs_used s)[i := 1], pmem := pm\<rparr>)"
    using assms(1) by (simp add: dirs_inv_def)
  with run found own slots pm show ?thesis
    by (intro exI [of _ i] exI [of _ "s\<lparr>page_dirs_used := (page_dirs_used s)[i := 1], pmem := pm\<rparr>"]) simp
qed

text \<open>C8: creating a page directory leaves every other directory in use without a recursive slot of its
  own: its last entry leads to the initial directory, so code that runs with such a directory and
  maps a user page edits the tables of the initial directory.\<close>

theorem new_page_dir_takes_recursive_slots:
  assumes "dirs_inv s" and "\<not> {..<256} \<subseteq> dir_slots s" and "j \<in> dir_slots s"
    and "page_of (pmem s (dir_entry (initial_page_dir s) 1023)) = initial_page_dir s - KERNEL_START"
  shows "\<exists>pd t. vmm_new_page_dir s = Ret pd t \<and> \<not> self_map (mem_change_page_dir (page_dir_addr j t) t) \<and>
    page_of (pmem t (dir_entry (page_dir_addr j t) 1023)) = initial_page_dir t - KERNEL_START"
proof -
  define i where "i = Min ({..<256} - dir_slots s)"
  note found = new_page_dir_found [OF assms(1,2), folded i_def]
  have j: "j < 256" "page_dirs_used s ! j \<noteq> 0" using assms(3) by (auto simp: dir_slots_def)
  have lay: "dirs_layout (initial_page_dir s) (page_dirs s)" using assms(1) by (simp add: dirs_inv_def)
  from vmm_new_page_dir_run [OF assms(1,2), folded i_def] obtain pm where
    run: "vmm_new_page_dir s = Ret (page_dir_addr i s) (s\<lparr>page_dirs_used := (page_dirs_used s)[i := 1], pmem := pm\<rparr>)"
    and pm: "\<And>j x. j < 256 \<Longrightarrow> x < 1024 \<Longrightarrow> pm (dir_entry (page_dir_addr j s) x) =
      (if j = i \<and> x = 1023 then (page_dir_addr i s - KERNEL_START) OR PAGE_FLAG_PRESENT OR PAGE_FLAG_WRITE
       else if 768 \<le> x \<and> (j = i \<or> page_dirs_used s ! j \<noteq> 0)
       then pmem s (dir_entry (initial_page_dir s) x) AND NOT PAGE_FLAG_OWNER
       else if j = i then 0 else pmem s (dir_entry (page_dir_addr j s) x))"
    by blast
  have "j \<noteq> i" using j(2) found(3) by auto
  then have "pm (dir_entry (page_dir_addr j s) 1023) = pmem s (dir_entry (initial_page_dir s) 1023) AND NOT PAGE_FLAG_OWNER"
    using pm [OF j(1), of 1023] j(2) by simp
  moreover have "page_of (e AND NOT PAGE_FLAG_OWNER) = page_of e" for e
  proof -
    have "NOT PAGE_FLAG_OWNER AND PAGE_FLAG_FRAME = PAGE_FLAG_FRAME" by simp
    then show ?thesis by (simp only: page_of_def and.assoc)
  qed
  ultimately have slot: "page_of (pm (dir_entry (page_dir_addr j s) 1023)) = initial_page_dir s - KERNEL_START"
    using assms(4) by (simp only:)
  have "page_dir_addr j s - KERNEL_START \<noteq> initial_page_dir s - KERNEL_START"
    using dir_addr_facts(2) [OF lay j(1)] by (simp add: page_dir_addr_def)
  with run slot show ?thesis
    by (simp add: self_map_def mem_change_page_dir_def Let_def dir_entry_def page_dir_addr_def)
qed

text \<open>C5: mapping a frame at an address that is free and unmapping it again restores the address
  space, whatever becomes of the page table in between.\<close>

theorem map_unmap_roundtrip:
  assumes "paging_inv s" "can_map s v fl" "vmap s v = None" "unat (page_frame_max s) < 65536"
    and "\<not> free_frame s (page_of ph)" "page_of ph \<noteq> cr3 s"
    and "\<forall>i<1023. table_frame (pmem s) (cr3 s) i \<noteq> Some (page_of ph)"
  shows "\<exists>t u. mem_map_page v ph fl s = Ret () t \<and> vmap t \<noteq> vmap s \<and> mem_unmap_page v t = Ret () u \<and>
    vmap u = vmap s \<and> paging_inv u"
proof -
  from map_entry_refines [OF assms(1,2)] obtain t where t: "mem_map_entry v ph fl s = Ret () t" "paging_inv t"
      "vmap t = amap_set v (Some ph) (vmap s)" "cr3 t = cr3 s" "initial_page_dir t = initial_page_dir s"
      "page_frame_max t = page_frame_max s" "has_table t v"
      "\<And>i p. i < 1023 \<Longrightarrow> table_frame (pmem t) (cr3 t) i = Some p \<Longrightarrow> table_frame (pmem s) (cr3 s) i = Some p \<or> free_frame s p"
    by blast
  have half: "own_half s v" "own_half t v" using assms(2) t(4,5) by (auto simp: can_map_def own_half_def mem_get_current_page_dir_def)
  have tv: "vmap t v = Some (page_of ph + (v AND 0xFFF))" using t(3) by (simp add: amap_set_def)
  have "can_unmap t v"
    using t(4,6,7,8) half(2) assms(4-7) tv by (auto simp: can_unmap_def page_of_plus_offset)
  from unmap_entry_refines [OF t(2) this] obtain b u where u: "mem_unmap_entry v t = Ret b u" "paging_inv u"
      "vmap u = amap_set v None (vmap t)" "initial_page_dir u = initial_page_dir t"
    by blast
  have "amap_set v None (vmap t) = amap_set v None (vmap s)" by (auto simp: t(3) amap_set_def fun_eq_iff)
  also have "\<dots> = vmap s" using assms(3) half(1) by (intro amap_none) (auto simp: own_half_def low_index)
  finally have "vmap u = vmap s" using u(3) by simp
  moreover have "mem_map_page v ph fl s = Ret () t"
    using t(1,5) own_half_run [OF half(1), of t True] by (simp add: mem_map_page_def split_beta) (metis bind.simps(1) prod.sel(2))
  moreover have "mem_unmap_page v t = Ret () u"
    using u(1,4) own_half_run [OF half(2), of u b] by (simp add: mem_unmap_page_def split_beta) (metis bind.simps(1) prod.sel(2))
  moreover have "vmap t \<noteq> vmap s" using tv assms(3) by auto
  ultimately show ?thesis using u(2) by blast
qed

section \<open>The properties at a booted machine\<close>

theorem mem_map_page_refines_witness:
  "\<exists>t. mem_map_page 0x400000 0x300000 7 booted = Ret () t \<and> vmap t = amap_set 0x400000 (Some 0x300000) (vmap booted)"
  using mem_map_page_refines [OF booted_inv(1) booted_can_map] by blast

lemma booted_not_free: "\<not> free_frame booted 0x100000"
proof
  assume "free_frame booted 0x100000"
  then obtain k where k: "512 \<le> k" "k < 32768" "0x100000 = frame_addr k"
    unfolding free_frame_def booted_fields by auto
  then have "unat (0x100000 :: u32) = k * 4096" using unat_frame_addr [of k] by simp
  with k(1) show False by simp
qed

lemma booted_unmapped: "pd_index va = 1 \<Longrightarrow> vmap booted va = None"
  using booted_fields by (simp add: vmap_def translate_def present_def Let_def)

theorem mem_unmap_page_refines_witness:
  "\<exists>s t p. mem_map_page 0x400000 0x100000 7 booted = Ret () s \<and> table_frame (pmem s) (cr3 s) 1 = Some p \<and>
    mem_unmap_page 0x400000 s = Ret () t \<and> vmap t 0x400000 = None \<and> table_frame (pmem t) (cr3 t) 1 = None \<and>
    (frame_no p \<in> pmm_frames s \<longrightarrow> frame_no p \<in> free_frames t)"
proof -
  have pd: "pd_index 0x400000 = 1" by (simp add: pd_index_nat)
  from map_entry_refines [OF booted_inv(1) booted_can_map, of "0x100000"] obtain s where
    s: "mem_map_entry 0x400000 0x100000 7 booted = Ret () s" "paging_inv s"
      "vmap s = amap_set 0x400000 (Some 0x100000) (vmap booted)" "cr3 s = cr3 booted"
      "initial_page_dir s = initial_page_dir booted" "page_frame_max s = page_frame_max booted" "has_table s 0x400000"
      "\<And>i p. i < 1023 \<Longrightarrow> table_frame (pmem s) (cr3 s) i = Some p \<Longrightarrow> table_frame (pmem booted) (cr3 booted) i = Some p \<or> free_frame booted p"
    by blast
  have half: "own_half booted 0x400000" "own_half s 0x400000"
    using booted_can_map s(4,5) by (auto simp: can_map_def own_half_def)
  have run: "mem_map_page 0x400000 0x100000 7 booted = Ret () s"
    using s(1,5) own_half_run [OF half(1), of s True] by (simp add: mem_map_page_def split_beta) (metis bind.simps(1) prod.sel(2))
  have sv: "vmap s 0x400000 = Some 0x100000" using s(3) by (simp add: amap_set_def page_of_def)
  have can: "can_unmap s 0x400000"
    using s(4,6,7,8) half(2) sv booted_not_free booted_fields booted_no_table by (auto simp: can_unmap_def page_of_def)
  have "last_page s 0x400000"
    using sv s(3) booted_unmapped pd by (auto simp: last_page_def amap_set_def)
  moreover obtain p where p: "table_frame (pmem s) (cr3 s) 1 = Some p" using s(7) pd by (auto simp: has_table_def)
  ultimately have gb: "p \<in> given_back s 0x400000" and lp: "last_page s 0x400000" using pd by (simp_all add: given_back_def)
  from mem_unmap_page_refines [OF s(2) can] obtain t where t: "mem_unmap_page 0x400000 s = Ret () t"
    "vmap t = amap_set 0x400000 None (vmap s)" "table_frame (pmem t) (cr3 t) 1 = None"
    "free_frames t = free_frames s \<union> pmm_frames s \<inter> frame_no ` given_back s 0x400000"
    using lp pd by auto
  have "frame_no p \<in> free_frames t" if "frame_no p \<in> pmm_frames s"
    unfolding t(4) using that gb by blast
  with run p t(1-3) show ?thesis by (intro exI [of _ s] exI [of _ t] exI [of _ p]) (simp add: amap_set_def)
qed

theorem sync_page_dirs_entries_witness:
  "pmem (sync_page_dirs booted) (dir_entry (page_dir_addr 0 booted) 1023) = 0x105003"
proof -
  have "0 \<in> dir_slots booted" using booted_inv(4) by simp
  then have "page_dirs_used booted ! 0 \<noteq> 0" by (simp add: dir_slots_def)
  then show ?thesis
    using sync_page_dirs_entries [OF booted_inv(2), of 0 1023] booted_fields(5) [of 1023]
    by (simp add: booted_fields(2) dir_entry_def)
qed

lemma booted_room: "\<not> {..<256} \<subseteq> dir_slots booted"
proof
  assume "{..<256} \<subseteq> dir_slots booted"
  then have "1 \<in> dir_slots booted" by auto
  then show False by (simp add: booted_inv(4))
qed

theorem vmm_new_page_dir_entries_witness:
  "\<exists>i t. vmm_new_page_dir booted = Ret (page_dir_addr i booted) t \<and> dir_slots t = {i, 0}"
  using vmm_new_page_dir_entries [OF booted_inv(2) booted_room] booted_inv(4) by auto

theorem new_page_dir_takes_recursive_slots_witness:
  "\<exists>pd t. vmm_new_page_dir booted = Ret pd t \<and> \<not> self_map (mem_change_page_dir (page_dir_addr 0 t) t)"
proof -
  have "page_of (pmem booted (dir_entry (initial_page_dir booted) 1023)) = initial_page_dir booted - KERNEL_START"
    using booted_fields(5) [of 1023] by (simp add: booted_fields(2) dir_entry_def page_of_def)
  from new_page_dir_takes_recursive_slots [OF booted_inv(2) booted_room _ this, of 0] booted_inv(4)
  show ?thesis by auto
qed

theorem map_unmap_roundtrip_witness:
  "\<exists>t u. mem_map_page 0x400000 0x100000 7 booted = Ret () t \<and> mem_unmap_page 0x400000 t = Ret () u \<and>
    vmap u = vmap booted"
proof -
  have "vmap booted 0x400000 = None"
    using booted_fields by (simp add: vmap_def translate_def pd_index_nat present_def Let_def)
  then show ?thesis using booted_not_free
    using map_unmap_roundtrip [OF booted_inv(1) booted_can_map, of "0x100000"] booted_fields booted_no_table
    by (simp add: page_of_def) blast
qed

end
