(* ===== verification/Heap.thy ===== *)
theory Heap
  imports Paging "HOL-Library.Signed_Division"
begin

unbundle bit_operations_syntax

text \<open>
  The kernel heap: \<^verbatim>\<open>MM/heap.c\<close>.

  A block is a packed header of 17 bytes followed by its payload; the headers are in byte memory
  like everything else, and \<open>hdr m a\<close> reads the one at \<open>a\<close>. The blocks form a doubly linked list
  through their headers, in address order and without gaps.

  The abstract heap is the list of the sizes of the blocks with their \<open>used\<close> flags: \<open>alloc_blocks\<close>
  is first fit with splitting, \<open>coalesce\<close> joins neighbours that are free. The lemmas show that
  \<^verbatim>\<open>kmalloc\<close> and \<^verbatim>\<open>kfree\<close> implement them, that the payloads handed out never overlap, and that
  writing into a payload damages no header.
\<close>

section \<open>Blocks\<close>

record heap_block =
  hb_magic :: u32
  hb_size :: u32
  hb_used :: bool
  hb_next :: u32
  hb_prev :: u32

definition SIZEOF_heap_block :: nat where "SIZEOF_heap_block = 17"
definition HEAP_MAGIC :: u32 where "HEAP_MAGIC = 0xDEADBEEF"
definition HEAP_THRESHOLD :: u32 where "HEAP_THRESHOLD = 0x10000"

definition hdr :: "memory \<Rightarrow> u32 \<Rightarrow> heap_block" where
  "hdr m a = \<lparr>hb_magic = load32 m a, hb_size = load32 m (a + 4), hb_used = (m (a + 8) \<noteq> 0),
     hb_next = load32 m (a + 9), hb_prev = load32 m (a + 13)\<rparr>"

definition put_magic :: "u32 \<Rightarrow> u32 \<Rightarrow> 'a machine_scheme \<Rightarrow> 'a machine_scheme" where
  "put_magic a v s = s\<lparr>mem := store32 a v (mem s)\<rparr>"
definition put_size :: "u32 \<Rightarrow> u32 \<Rightarrow> 'a machine_scheme \<Rightarrow> 'a machine_scheme" where
  "put_size a v s = s\<lparr>mem := store32 (a + 4) v (mem s)\<rparr>"
definition put_used :: "u32 \<Rightarrow> bool \<Rightarrow> 'a machine_scheme \<Rightarrow> 'a machine_scheme" where
  "put_used a b s = s\<lparr>mem := (mem s)(a + 8 := if b then 1 else 0)\<rparr>"
definition put_next :: "u32 \<Rightarrow> u32 \<Rightarrow> 'a machine_scheme \<Rightarrow> 'a machine_scheme" where
  "put_next a v s = s\<lparr>mem := store32 (a + 9) v (mem s)\<rparr>"
definition put_prev :: "u32 \<Rightarrow> u32 \<Rightarrow> 'a machine_scheme \<Rightarrow> 'a machine_scheme" where
  "put_prev a v s = s\<lparr>mem := store32 (a + 13) v (mem s)\<rparr>"

abbreviation "blk s a \<equiv> hdr (mem s) a"

record heap_state = mm_state +
  heap_head :: u32
  heap_start :: u32
  kmalloc_initalized :: bool
  heap_size :: u32

section \<open>The allocator\<close>

text \<open>The page numbers are C \<^verbatim>\<open>int\<close>s, with signed division for the new top.\<close>

definition map_heap_page :: "int \<Rightarrow> nat \<Rightarrow> 'a heap_state_scheme \<Rightarrow> (unit, 'a heap_state_scheme) res" where
  "map_heap_page old_page_top i s =
     bind (pmm_alloc_page_frame s) (\<lambda>phys s.
     if phys = 0 then kernel_panic (print (str ''No memory left for heap\<newline>'') s)
     else mem_map_page (KERNEL_MALLOC + of_int (old_page_top + int i) * 0x1000) phys
            (PAGE_FLAG_PRESENT OR PAGE_FLAG_WRITE OR PAGE_FLAG_OWNER) s)"

definition change_heap_size :: "u32 \<Rightarrow> 'a heap_state_scheme \<Rightarrow> (unit, 'a heap_state_scheme) res" where
  "change_heap_size new_heap_size s =
     (let old_page_top = sint (CEIL_DIV (heap_size s) 0x1000);
          new_page_top = (sint new_heap_size + 0x1000 - 1) sdiv 0x1000 in
      bind (for_each [0..<nat (new_page_top - old_page_top)] (map_heap_page old_page_top) s) (\<lambda>_ s.
      Ret () (s\<lparr>heap_size := of_int new_page_top * 0x1000\<rparr>)))"

definition kmalloc_init :: "'a heap_state_scheme \<Rightarrow> (unit, 'a heap_state_scheme) res" where
  "kmalloc_init s =
     (if kmalloc_initalized s then Ret () s else
      bind (change_heap_size HEAP_THRESHOLD (s\<lparr>heap_start := KERNEL_MALLOC, heap_size := 0\<rparr>)) (\<lambda>_ s.
      let s = s\<lparr>kmalloc_initalized := True\<rparr>;
          s = s\<lparr>heap_head := heap_start s\<rparr>;
          h = heap_head s;
          s = put_magic h HEAP_MAGIC s;
          s = put_size h (heap_size s - of_nat SIZEOF_heap_block) s;
          s = put_used h False s;
          s = put_next h 0 s
      in Ret () (put_prev h 0 s)))"

text \<open>The scan for the first block that fits; the result is \<^verbatim>\<open>current\<close> and \<^verbatim>\<open>prev\<close>.\<close>

definition find_fit :: "u32 \<Rightarrow> 'a heap_state_scheme \<Rightarrow> (u32 \<times> u32, 'a heap_state_scheme) res" where
  "find_fit sz s =
     loop (\<lambda>(current, prev) s. current \<noteq> 0 \<and> (hb_used (blk s current) \<or> hb_size (blk s current) < sz))
       (\<lambda>(current, prev) s. Ret (hb_next (blk s current), current) s) (heap_head s, 0) s"

text \<open>Taking a block, split when what remains can hold a header and 8 bytes. \<^verbatim>\<open>kmalloc\<close> has this
  code twice, for a block it found and for one it made.\<close>

definition take_block :: "u32 \<Rightarrow> u32 \<Rightarrow> 'a machine_scheme \<Rightarrow> 'a machine_scheme" where
  "take_block current sz s =
     (let remaning = hb_size (blk s current) - sz;
          s = (if remaning \<ge> of_nat SIZEOF_heap_block + 8 then
                 let new_block = current + of_nat SIZEOF_heap_block + sz;
                     s = put_magic new_block HEAP_MAGIC s;
                     s = put_size new_block (remaning - of_nat SIZEOF_heap_block) s;
                     s = put_used new_block False s;
                     s = put_next new_block (hb_next (blk s current)) s;
                     s = put_prev new_block current s;
                     s = (if hb_next (blk s current) \<noteq> 0 then put_prev (hb_next (blk s current)) new_block s else s);
                     s = put_size current sz s
                 in put_next current new_block s
               else s)
      in put_used current True s)"

text \<open>The code that appends the block at \<open>d\<close> to its predecessor at \<open>c\<close>; \<^verbatim>\<open>kmalloc\<close> and \<^verbatim>\<open>kfree\<close>
  both have it.\<close>

definition join_blocks :: "u32 \<Rightarrow> u32 \<Rightarrow> 'a machine_scheme \<Rightarrow> 'a machine_scheme" where
  "join_blocks c d s =
     (let s = put_size c (hb_size (blk s c) + (of_nat SIZEOF_heap_block + hb_size (blk s d))) s;
          s = put_next c (hb_next (blk s d)) s
      in if hb_next (blk s c) \<noteq> 0 then put_prev (hb_next (blk s c)) c s else s)"

text \<open>The part of \<^verbatim>\<open>kmalloc\<close> after the scan found nothing; \<open>prev\<close> is the last block. First what is
  done once the heap has grown, then the computation of the new size.\<close>

definition kmalloc_place :: "u32 \<Rightarrow> u32 \<Rightarrow> u32 \<Rightarrow> unit \<Rightarrow> 'a heap_state_scheme \<Rightarrow> (u32, 'a heap_state_scheme) res" where
  "kmalloc_place sz prev old_heap_size _ s =
      (let new_block = heap_start s + old_heap_size;
           s = put_magic new_block HEAP_MAGIC s;
           s = put_size new_block (heap_size s - old_heap_size - of_nat SIZEOF_heap_block) s;
           s = put_used new_block False s;
           s = put_next new_block 0 s;
           s = put_prev new_block prev s;
           s = (if prev \<noteq> 0 then put_next prev new_block s else s\<lparr>heap_head := new_block\<rparr>);
           (new_block, s) =
             (if prev \<noteq> 0 \<and> \<not> hb_used (blk s prev) then (prev, join_blocks prev new_block s)
              else (new_block, s))
       in Ret (new_block + of_nat SIZEOF_heap_block) (take_block new_block sz s))"

definition kmalloc_grow :: "u32 \<Rightarrow> u32 \<Rightarrow> 'a heap_state_scheme \<Rightarrow> (u32, 'a heap_state_scheme) res" where
  "kmalloc_grow sz prev s =
      (let total_needed = sz + of_nat SIZEOF_heap_block;
           total_needed = (if prev \<noteq> 0 \<and> \<not> hb_used (blk s prev)
                           then if total_needed > hb_size (blk s prev) then total_needed - hb_size (blk s prev) else 0
                           else total_needed);
           expand_size = CEIL_DIV total_needed HEAP_THRESHOLD * HEAP_THRESHOLD;
           expand_size = (if expand_size = 0 then HEAP_THRESHOLD else expand_size);
           old_heap_size = heap_size s in
       bind (change_heap_size (old_heap_size + expand_size) s) (kmalloc_place sz prev old_heap_size))"

definition kmalloc :: "u32 \<Rightarrow> 'a heap_state_scheme \<Rightarrow> (u32, 'a heap_state_scheme) res" where
  "kmalloc sz s =
     bind (if kmalloc_initalized s then Ret () s else kmalloc_init s) (\<lambda>_ s.
     if sz = 0 then Ret 0 s else
     let sz = (sz + 7) AND NOT 7 in
     bind (find_fit sz s) (\<lambda>(current, prev) s.
     if current \<noteq> 0 then Ret (current + of_nat SIZEOF_heap_block) (take_block current sz s)
     else kmalloc_grow sz prev s))"

text \<open>The joins of \<^verbatim>\<open>kfree\<close>, with the next block and then with the previous one.\<close>

definition free_right :: "u32 \<Rightarrow> 'a machine_scheme \<Rightarrow> 'a machine_scheme" where
  "free_right block s =
     (let nxt = hb_next (blk s block) in
      if nxt \<noteq> 0 \<and> \<not> hb_used (blk s nxt) then join_blocks block nxt s else s)"

definition free_left :: "u32 \<Rightarrow> 'a machine_scheme \<Rightarrow> 'a machine_scheme" where
  "free_left block s =
     (let prv = hb_prev (blk s block) in
      if prv \<noteq> 0 \<and> \<not> hb_used (blk s prv) then
        let s = put_size prv (hb_size (blk s prv) + (of_nat SIZEOF_heap_block + hb_size (blk s block))) s;
            s = put_next prv (hb_next (blk s block)) s
        in if hb_next (blk s block) \<noteq> 0 then put_prev (hb_next (blk s block)) (hb_prev (blk s block)) s else s
      else s)"

definition kfree :: "u32 \<Rightarrow> 'a heap_state_scheme \<Rightarrow> (unit, 'a heap_state_scheme) res" where
  "kfree ptr s =
     bind (if kmalloc_initalized s then Ret () s else kmalloc_init s) (\<lambda>_ s.
     if ptr = 0 then Ret () s
     else if ptr < KERNEL_MALLOC \<or> ptr \<ge> KERNEL_MALLOC + heap_size s
     then Ret () (print (str ''kfree error: pointer outside heap\<newline>'') s)
     else
       let block = ptr - of_nat SIZEOF_heap_block in
       if hb_magic (blk s block) \<noteq> HEAP_MAGIC
       then Ret () (print (str ''kfree error: a block magic is not equal 0xDEADBEEF\<newline>'') s)
       else if \<not> hb_used (blk s block)
       then Ret () (print (str ''kfree error: freeing an unused block\<newline>'') s)
       else
         Ret () (free_left block (free_right block (put_used block False s))))"

section \<open>Headers as values\<close>

lemma apart_shift: "apart (a + x) n (a + y) k \<longleftrightarrow> n \<le> unat (y - x) \<and> k \<le> unat (x - y)"
  by (simp add: apart_def)

lemma apart_shift0: "apart a n (a + y) k \<longleftrightarrow> n \<le> unat y \<and> k \<le> unat (- y)"
  "apart (a + x) n a k \<longleftrightarrow> n \<le> unat (- x) \<and> k \<le> unat x"
  using apart_shift [of a 0 n y k] apart_shift [of a x n 0 k] by simp_all

lemma byte_store32: "4 \<le> unat (x - a) \<Longrightarrow> store32 a v m x = m x"
  by (simp add: store32_def store_bytes_outside)

lemma byte_store32_shift: "4 \<le> unat (y - x) \<Longrightarrow> store32 (a + x) v m (a + y) = m (a + y)"
  "4 \<le> unat y \<Longrightarrow> store32 a v m (a + y) = m (a + y)"
  by (simp_all add: byte_store32)

lemma unat_minus_1: "unat (- 1 :: u32) = 4294967295"
  by (simp add: unsigned_minus_1_eq_mask mask_eq_exp_minus_1)

lemma load32_byte: "apart a (Suc 0) b 4 \<Longrightarrow> load32 (m(a := v)) b = load32 m b"
  using load32_store_bytes_apart [of a "[v]" b m] store_bytes_snoc [of "[]" a v m] by simp

lemma hdr_put_same [simp]:
  "blk (put_magic a v s) a = (blk s a)\<lparr>hb_magic := v\<rparr>"
  "blk (put_size a v s) a = (blk s a)\<lparr>hb_size := v\<rparr>"
  "blk (put_used a b s) a = (blk s a)\<lparr>hb_used := b\<rparr>"
  "blk (put_next a v s) a = (blk s a)\<lparr>hb_next := v\<rparr>"
  "blk (put_prev a v s) a = (blk s a)\<lparr>hb_prev := v\<rparr>"
  by (simp_all add: hdr_def put_magic_def put_size_def put_used_def put_next_def put_prev_def
      load32_store32_apart apart_shift apart_shift0 byte_store32_shift load32_byte unat_minus_1)

text \<open>A write to one header does not touch a header apart from it.\<close>

lemma apart_sub:
  assumes "apart a n b k" "unat x + n' \<le> n" "unat y + k' \<le> k" "0 < n'" "0 < k'"
  shows "apart (a + x) n' (b + y) k'"
proof -
  have ne: "a \<noteq> b" using assms by (auto simp: apart_def)
  have ab: "unat (a - b) = 4294967296 - unat (b - a)" using ne by (rule unat_diff_swap)
  have d: "n \<le> unat (b - a)" "k \<le> unat (a - b)" using assms(1) by (auto simp: apart_def)
  have "unat x \<le> unat (b - a)" using d assms(2) by linarith
  then have s: "unat (b - a - x) = unat (b - a) - unat x" by (simp add: unat_sub_u32 u32_le_iff)
  have "unat (b - a - x) + unat y < 4294967296" using s ab d assms(3,5) u32_less_size [of "b - a"] by linarith
  then have e: "unat (b - a - x + y) = unat (b - a) - unat x + unat y" using s by (simp add: unat_add_u32)
  have eq: "b + y - (a + x) = b - a - x + y" by simp
  then have 1: "unat (b + y - (a + x)) = unat (b - a) - unat x + unat y" using e by (simp only:)
  have "b + y \<noteq> a + x"
  proof
    assume "b + y = a + x"
    then have "unat (b + y - (a + x)) = 0" by simp
    with 1 \<open>unat x \<le> unat (b - a)\<close> d(1) assms(2,4) show False by linarith
  qed
  then have "unat (a + x - (b + y)) = 4294967296 - unat (b + y - (a + x))" by (intro unat_diff_swap) simp
  with 1 ab d assms show ?thesis unfolding apart_def by linarith
qed

lemma hdr_put_apart:
  assumes "apart a 17 b 17"
  shows "blk (put_magic a v s) b = blk s b" "blk (put_size a v s) b = blk s b"
    "blk (put_used a u s) b = blk s b" "blk (put_next a v s) b = blk s b" "blk (put_prev a v s) b = blk s b"
proof -
  have 4: "apart (a + x) 4 (b + y) 4" if "unat x + 4 \<le> 17" "unat y + 4 \<le> 17" for x y
    using assms that by (rule apart_sub) simp_all
  have 1: "apart (a + x) (Suc 0) (b + y) 4" if "unat x + Suc 0 \<le> 17" "unat y + 4 \<le> 17" for x y
    using assms that by (rule apart_sub) simp_all
  have "apart (a + x) 4 (b + 8) 1" if "unat x + 4 \<le> 17" for x
    using assms that by (rule apart_sub) simp_all
  then have B: "store32 (a + x) v m (b + 8) = m (b + 8)" if "unat x + 4 \<le> 17" for x v m
    using that by (simp add: apart_def byte_store32)
  have C: "a + 8 \<noteq> b + 8" using assms by (auto simp: apart_def)
  show "blk (put_magic a v s) b = blk s b" "blk (put_size a v s) b = blk s b"
    "blk (put_used a u s) b = blk s b" "blk (put_next a v s) b = blk s b" "blk (put_prev a v s) b = blk s b"
    using 4 [of _ 0] 4 [of 0] 4 [of 0 0] 1 [of _ 0] B [of 0] C
    by (simp_all add: hdr_def put_magic_def put_size_def put_used_def put_next_def put_prev_def
        load32_store32_apart load32_byte 4 1 B)
qed

text \<open>Bytes outside a header.\<close>

definition off_header :: "nat \<Rightarrow> u32 \<Rightarrow> bool" where
  "off_header b x \<longleftrightarrow> unat x < b \<or> b + 17 \<le> unat x"

lemma off_header_diff:
  assumes "off_header b x" "b + 17 \<le> 4294967296"
  shows "17 \<le> unat (x - of_nat b)" "x \<noteq> of_nat b + 8"
proof -
  have b: "unat (of_nat b :: u32) = b" using assms(2) by (intro unat_of_nat_u32) simp
  show d: "17 \<le> unat (x - of_nat b)"
  proof (cases "b + 17 \<le> unat x")
    case True
    then show ?thesis using b by (simp add: unat_sub_u32 u32_le_iff)
  next
    case False
    then have lt: "unat x < b" using assms(1) by (simp add: off_header_def)
    then have "x \<noteq> of_nat b" using b by force
    then have "unat (x - of_nat b) = 4294967296 - unat (of_nat b - x)" by (rule unat_diff_swap)
    moreover have "unat (of_nat b - x) = b - unat x" using lt b by (simp add: unat_sub_u32 u32_le_iff)
    ultimately show ?thesis using assms(2) lt by linarith
  qed
  then show "x \<noteq> of_nat b + 8" by auto
qed

lemma store32_off:
  assumes "17 \<le> unat (x - b)" "unat y + 4 \<le> 17"
  shows "store32 (b + y) v m x = m x"
proof (rule byte_store32)
  have "unat (x - (b + y)) = unat (x - b - y)" by (simp add: diff_diff_add)
  also have "\<dots> = unat (x - b) - unat y" using assms by (intro unat_sub_u32) (simp add: u32_le_iff)
  finally show "4 \<le> unat (x - (b + y))" using assms by linarith
qed

lemma put_outside:
  assumes "off_header b x" "b + 17 \<le> 4294967296"
  shows "mem (put_magic (of_nat b) v s) x = mem s x" "mem (put_size (of_nat b) v s) x = mem s x"
    "mem (put_used (of_nat b) u s) x = mem s x" "mem (put_next (of_nat b) v s) x = mem s x"
    "mem (put_prev (of_nat b) v s) x = mem s x"
  using off_header_diff [OF assms] store32_off [of x "of_nat b" 0] store32_off [of x "of_nat b"]
  by (simp_all add: put_magic_def put_size_def put_used_def put_next_def put_prev_def)

lemma apart_nat:
  assumes "x + n \<le> y" "y + k \<le> 4294967296" "0 < n" "0 < k"
  shows "apart (of_nat x) n (of_nat y) k" "apart (of_nat y) k (of_nat x) n"
proof -
  have u: "unat (of_nat x :: u32) = x" "unat (of_nat y :: u32) = y" using assms by (simp_all add: unat_of_nat_u32)
  then have d: "unat (of_nat y - of_nat x :: u32) = y - x" using assms(1) by (simp add: unat_sub_u32 u32_le_iff)
  show "apart (of_nat x) n (of_nat y) k"
  proof (cases "x = y")
    case False
    then have "(of_nat x :: u32) \<noteq> of_nat y" using u by force
    from unat_diff_swap [OF this] have "unat (of_nat x - of_nat y :: u32) = 4294967296 - (y - x)"
      unfolding d .
    then show ?thesis using d assms by (auto simp: apart_def)
  qed (use assms in \<open>auto simp: apart_def\<close>)
  then show "apart (of_nat y) k (of_nat x) n" by (rule apart_sym)
qed

lemma hdr_put_nat:
  assumes "b + 17 \<le> c \<or> c + 17 \<le> b" "b + 17 \<le> 4294967296" "c + 17 \<le> 4294967296"
  shows "blk (put_magic (of_nat b) v s) (of_nat c) = blk s (of_nat c)"
    "blk (put_size (of_nat b) v s) (of_nat c) = blk s (of_nat c)"
    "blk (put_used (of_nat b) u s) (of_nat c) = blk s (of_nat c)"
    "blk (put_next (of_nat b) v s) (of_nat c) = blk s (of_nat c)"
    "blk (put_prev (of_nat b) v s) (of_nat c) = blk s (of_nat c)"
proof -
  have "apart (of_nat b) 17 (of_nat c) 17" using assms apart_nat [of b 17 c 17] apart_nat [of c 17 b 17] by auto
  then show "blk (put_magic (of_nat b) v s) (of_nat c) = blk s (of_nat c)"
    "blk (put_size (of_nat b) v s) (of_nat c) = blk s (of_nat c)"
    "blk (put_used (of_nat b) u s) (of_nat c) = blk s (of_nat c)"
    "blk (put_next (of_nat b) v s) (of_nat c) = blk s (of_nat c)"
    "blk (put_prev (of_nat b) v s) (of_nat c) = blk s (of_nat c)"
    by (rule hdr_put_apart)+
qed

section \<open>The list of blocks\<close>

type_synonym blocks = "(nat \<times> bool) list"

fun blocks_len :: "blocks \<Rightarrow> nat" where
  "blocks_len [] = 0"
| "blocks_len ((n, u) # bs) = 17 + n + blocks_len bs"

fun block_addrs :: "nat \<Rightarrow> blocks \<Rightarrow> nat list" where
  "block_addrs a [] = []"
| "block_addrs a ((n, u) # bs) = a # block_addrs (a + 17 + n) bs"

text \<open>\<open>hseg m p a bs nx\<close>: from address \<open>a\<close> on memory holds the headers of \<open>bs\<close>, the first one with
  \<^verbatim>\<open>prev\<close> link \<open>p\<close> and the last one with \<^verbatim>\<open>next\<close> link \<open>nx\<close>.\<close>

fun hseg :: "memory \<Rightarrow> u32 \<Rightarrow> nat \<Rightarrow> blocks \<Rightarrow> u32 \<Rightarrow> bool" where
  "hseg m p a [] nx = True"
| "hseg m p a ((n, u) # bs) nx \<longleftrightarrow>
     hdr m (of_nat a) = \<lparr>hb_magic = HEAP_MAGIC, hb_size = of_nat n, hb_used = u,
        hb_next = (if bs = [] then nx else of_nat (a + 17 + n)), hb_prev = p\<rparr> \<and>
     hseg m (of_nat a) (a + 17 + n) bs nx"

definition last_addr :: "u32 \<Rightarrow> nat \<Rightarrow> blocks \<Rightarrow> u32" where
  "last_addr p a bs = (if bs = [] then p else of_nat (last (block_addrs a bs)))"

lemma blocks_len_append [simp]: "blocks_len (bs @ cs) = blocks_len bs + blocks_len cs"
  by (induction bs) auto

lemma block_addrs_append [simp]: "block_addrs a (bs @ cs) = block_addrs a bs @ block_addrs (a + blocks_len bs) cs"
  by (induction bs arbitrary: a) (auto simp: add.assoc)

lemma block_addrs_Nil [simp]: "block_addrs a bs = [] \<longleftrightarrow> bs = []"
  by (cases bs) auto

lemma last_addr_simps [simp]:
  "last_addr p a [] = p" "last_addr p a (bs @ [b]) = of_nat (a + blocks_len bs)"
  by (cases b; simp add: last_addr_def)+

lemma last_addr_Cons [simp]: "last_addr p a ((n, u) # bs) = last_addr (of_nat a) (a + 17 + n) bs"
  by (simp add: last_addr_def)

lemma hseg_append:
  "hseg m p a (bs @ cs) nx \<longleftrightarrow>
     hseg m p a bs (if cs = [] then nx else of_nat (a + blocks_len bs)) \<and>
     hseg m (last_addr p a bs) (a + blocks_len bs) cs nx"
  by (induction bs arbitrary: p a) (auto simp: add.assoc)

lemma hseg_cong:
  "(\<And>x. x \<in> set (block_addrs a bs) \<Longrightarrow> hdr m' (of_nat x) = hdr m (of_nat x)) \<Longrightarrow> hseg m' p a bs nx = hseg m p a bs nx"
  by (induction bs arbitrary: p a) auto

lemma block_addrs_range: "x \<in> set (block_addrs a bs) \<Longrightarrow> a \<le> x \<and> x + 17 \<le> a + blocks_len bs"
  by (induction bs arbitrary: a) force+

section \<open>Taking a block\<close>

text \<open>The link to the block at \<open>d\<close>, or the null pointer at the end of the list.\<close>

definition link :: "bool \<Rightarrow> nat \<Rightarrow> u32" where
  "link b d = (if b then of_nat d else 0)"

lemma link_zero: "0 < d \<Longrightarrow> d < 4294967296 \<Longrightarrow> link b d = 0 \<longleftrightarrow> \<not> b"
proof -
  assume "0 < d" "d < 4294967296"
  then have "unat (of_nat d :: u32) \<noteq> 0" by (simp add: unat_of_nat_u32)
  then show ?thesis by (auto simp: link_def)
qed

lemma put_mem [simp]:
  "put_magic a v s = s\<lparr>mem := mem (put_magic a v s)\<rparr>" "put_size a v s = s\<lparr>mem := mem (put_size a v s)\<rparr>"
  "put_used a u s = s\<lparr>mem := mem (put_used a u s)\<rparr>" "put_next a v s = s\<lparr>mem := mem (put_next a v s)\<rparr>"
  "put_prev a v s = s\<lparr>mem := mem (put_prev a v s)\<rparr>" for s :: "'a machine_scheme"
  by (simp_all add: put_magic_def put_size_def put_used_def put_next_def put_prev_def)

declare put_mem [simp del]

definition only_mem :: "'a machine_scheme \<Rightarrow> 'a machine_scheme \<Rightarrow> bool" where
  "only_mem s t \<longleftrightarrow> t = s\<lparr>mem := mem t\<rparr>"

lemma only_mem_put [simp]:
  "only_mem s s" "only_mem s (put_magic a v t) \<longleftrightarrow> only_mem s t" "only_mem s (put_size a v t) \<longleftrightarrow> only_mem s t"
  "only_mem s (put_used a u t) \<longleftrightarrow> only_mem s t" "only_mem s (put_next a v t) \<longleftrightarrow> only_mem s t"
  "only_mem s (put_prev a v t) \<longleftrightarrow> only_mem s t"
  by (cases s; cases t; simp add: only_mem_def put_magic_def put_size_def put_used_def put_next_def put_prev_def)+

lemma only_mem_take [simp]: "only_mem s (take_block c n t) \<longleftrightarrow> only_mem s t"
  by (simp add: take_block_def Let_def)

lemma take_block_split:
  assumes h: "blk s (of_nat c) = \<lparr>hb_magic = HEAP_MAGIC, hb_size = of_nat m, hb_used = False,
      hb_next = link b (c + 17 + m), hb_prev = p\<rparr>"
    and sz: "n + 25 \<le> m" "0 < c" "c + 17 + m \<le> 4294967296" "b \<Longrightarrow> c + 17 + m + 17 \<le> 4294967296"
  defines "t \<equiv> take_block (of_nat c) (of_nat n) s"
  shows "blk t (of_nat c) = \<lparr>hb_magic = HEAP_MAGIC, hb_size = of_nat n, hb_used = True,
      hb_next = of_nat (c + 17 + n), hb_prev = p\<rparr>"
    and "blk t (of_nat (c + 17 + n)) = \<lparr>hb_magic = HEAP_MAGIC, hb_size = of_nat (m - n - 17), hb_used = False,
      hb_next = link b (c + 17 + m), hb_prev = of_nat c\<rparr>"
    and "b \<Longrightarrow> blk t (of_nat (c + 17 + m)) = (blk s (of_nat (c + 17 + m)))\<lparr>hb_prev := of_nat (c + 17 + n)\<rparr>"
    and "\<And>x. x + 17 \<le> c \<or> c + 17 + m + 17 \<le> x \<Longrightarrow> x + 17 \<le> 4294967296 \<Longrightarrow> blk t (of_nat x) = blk s (of_nat x)"
    and "\<And>x. off_header c x \<Longrightarrow> off_header (c + 17 + n) x \<Longrightarrow> (b \<longrightarrow> off_header (c + 17 + m) x) \<Longrightarrow> mem t x = mem s x"
proof -
  let ?c = "of_nat c :: u32" and ?e = "of_nat (c + 17 + n) :: u32" and ?d = "of_nat (c + 17 + m) :: u32"
  have rem: "of_nat m - of_nat n = (of_nat (m - n) :: u32)" using sz by simp
  have big: "(of_nat 17 + 8 :: u32) \<le> of_nat (m - n)"
    using sz by (simp add: u32_le_iff unat_of_nat_u32 del: of_nat_diff)
  have rest: "of_nat (m - n) - of_nat 17 = (of_nat (m - n - 17) :: u32)" using sz by simp
  have e: "?c + of_nat 17 + of_nat n = ?e" by simp
  have nz: "link b (c + 17 + m) \<noteq> 0 \<longleftrightarrow> b"
    using sz by (cases b) (auto simp: link_zero, simp add: link_def)
  define s5 where "s5 = put_prev ?e ?c (put_next ?e (link b (c + 17 + m)) (put_used ?e False
    (put_size ?e (of_nat (m - n - 17)) (put_magic ?e HEAP_MAGIC s))))"
  define s6 where "s6 = (if b then put_prev ?d ?e s5 else s5)"
  note at = hdr_put_nat hdr_put_same
  have ce: "blk (put_prev ?e v u) ?c = blk u ?c" "blk (put_next ?e v u) ?c = blk u ?c" "blk (put_used ?e w u) ?c = blk u ?c"
      "blk (put_size ?e v u) ?c = blk u ?c" "blk (put_magic ?e v u) ?c = blk u ?c" for u v w
    using sz by (intro hdr_put_nat; simp)+
  have c5: "blk s5 ?c = blk s ?c" by (simp add: s5_def ce del: of_nat_add)
  have nx: "hb_next (blk s5 ?c) = link b (c + 17 + m)" by (simp add: c5 h)
  have t: "t = put_used ?c True (put_next ?c ?e (put_size ?c (of_nat n) s6))"
    unfolding t_def take_block_def Let_def SIZEOF_heap_block_def h heap_block.select_convs rem e rest if_P [OF big]
    using nz by (cases b) (simp_all add: ce h s5_def s6_def link_def diff_diff_add del: of_nat_add of_nat_diff)
  have c6: "blk s6 ?c = blk s ?c"
    using sz by (simp add: s6_def c5 hdr_put_nat del: of_nat_add)
  show "blk t ?c = \<lparr>hb_magic = HEAP_MAGIC, hb_size = of_nat n, hb_used = True, hb_next = ?e, hb_prev = p\<rparr>"
    by (simp add: t c6 h)
  have tx: "blk t (of_nat x) = blk s6 (of_nat x)" if "x + 17 \<le> c \<or> c + 17 \<le> x" "x + 17 \<le> 4294967296" for x
  proof -
    have o: "c + 17 \<le> x \<or> x + 17 \<le> c" "c + 17 \<le> 4294967296" using that sz by auto
    show ?thesis unfolding t by (simp add: hdr_put_nat [OF o that(2)] del: of_nat_add)
  qed
  have "blk s6 ?e = blk s5 ?e"
    using sz by (simp add: s6_def hdr_put_nat del: of_nat_add)
  then show "blk t ?e = \<lparr>hb_magic = HEAP_MAGIC, hb_size = of_nat (m - n - 17), hb_used = False,
      hb_next = link b (c + 17 + m), hb_prev = ?c\<rparr>"
    using tx [of "c + 17 + n"] sz by (simp add: s5_def del: of_nat_add of_nat_diff)
  have x5: "blk s5 (of_nat x) = blk s (of_nat x)" if "x + 17 \<le> c + 17 + n \<or> c + 17 + n + 17 \<le> x" "x + 17 \<le> 4294967296" for x
  proof -
    have o: "c + 17 + n + 17 \<le> x \<or> x + 17 \<le> c + 17 + n" "c + 17 + n + 17 \<le> 4294967296" using that sz by auto
    show ?thesis unfolding s5_def by (simp add: hdr_put_nat [OF o that(2)] del: of_nat_add)
  qed
  show "blk t ?d = (blk s ?d)\<lparr>hb_prev := ?e\<rparr>" if b
    using tx [of "c + 17 + m"] x5 [of "c + 17 + m"] sz that by (simp add: s6_def del: of_nat_add)
  show "blk t (of_nat x) = blk s (of_nat x)" if "x + 17 \<le> c \<or> c + 17 + m + 17 \<le> x" "x + 17 \<le> 4294967296" for x
  proof -
    have "blk s6 (of_nat x) = blk s5 (of_nat x)"
    proof (cases b)
      case True
      have o: "c + 17 + m + 17 \<le> x \<or> x + 17 \<le> c + 17 + m" "c + 17 + m + 17 \<le> 4294967296"
        using that sz True by auto
      show ?thesis by (simp add: s6_def hdr_put_nat [OF o that(2)] del: of_nat_add)
    qed (simp add: s6_def)
    with tx [of x] x5 [of x] that sz show ?thesis by auto
  qed
  show "mem t x = mem s x" if "off_header c x" "off_header (c + 17 + n) x" "b \<longrightarrow> off_header (c + 17 + m) x" for x
    using that sz by (simp add: t s6_def s5_def put_outside del: of_nat_add)
qed

lemma take_block_whole:
  assumes h: "blk s (of_nat c) = \<lparr>hb_magic = HEAP_MAGIC, hb_size = of_nat m, hb_used = False, hb_next = nx, hb_prev = p\<rparr>"
    and sz: "n \<le> m" "m < n + 25" "c + 17 + m \<le> 4294967296"
  shows "take_block (of_nat c) (of_nat n) s = put_used (of_nat c) True s"
proof -
  have "\<not> (of_nat 17 + 8 :: u32) \<le> of_nat (m - n)"
    using sz by (simp add: u32_le_iff unat_of_nat_u32 del: of_nat_diff)
  moreover have "of_nat m - of_nat n = (of_nat (m - n) :: u32)" using sz by simp
  ultimately show ?thesis by (simp add: take_block_def SIZEOF_heap_block_def h del: of_nat_diff)
qed

text \<open>The abstract operations: splitting a block, first fit, and what they do to the list in memory.\<close>

definition split_sizes :: "nat \<Rightarrow> nat \<Rightarrow> blocks" where
  "split_sizes n m = (if n + 25 \<le> m then [(n, True), (m - n - 17, False)] else [(m, True)])"

lemma split_sizes_simps [simp]: "n \<le> m \<Longrightarrow> blocks_len (split_sizes n m) = 17 + m" "split_sizes n m \<noteq> []"
  by (auto simp: split_sizes_def)

lemma hseg_other_prev:
  assumes "hseg m p a ys nx"
    and "ys \<noteq> [] \<Longrightarrow> hdr m' (of_nat a) = (hdr m (of_nat a))\<lparr>hb_prev := q\<rparr>"
    and "\<And>x. x \<in> set (block_addrs a ys) \<Longrightarrow> x \<noteq> a \<Longrightarrow> hdr m' (of_nat x) = hdr m (of_nat x)"
  shows "hseg m' q a ys nx"
proof (cases ys)
  case (Cons y zs)
  obtain k u where y: "y = (k, u)" by fastforce
  have "hseg m' (of_nat a) (a + 17 + k) zs nx = hseg m (of_nat a) (a + 17 + k) zs nx"
  proof (rule hseg_cong)
    fix x assume x: "x \<in> set (block_addrs (a + 17 + k) zs)"
    then have "x \<noteq> a" using block_addrs_range by fastforce
    with x assms(3) [of x] show "hdr m' (of_nat x) = hdr m (of_nat x)" by (simp add: Cons y)
  qed
  with assms(1,2) show ?thesis by (simp add: Cons y)
qed simp

lemma hseg_block:
  assumes "hseg m p a (xs @ (k, u) # ys) nx" "c = a + blocks_len xs"
  shows "hdr m (of_nat c) = \<lparr>hb_magic = HEAP_MAGIC, hb_size = of_nat k, hb_used = u,
    hb_next = (if ys = [] then nx else of_nat (c + 17 + k)), hb_prev = last_addr p a xs\<rparr>"
  using assms by (simp add: hseg_append)

lemma take_block_hseg:
  assumes seg: "hseg (mem s) p a (xs @ (m, False) # ys) 0" and n: "n \<le> m" and c: "c = a + blocks_len xs"
    and a: "0 < a" "a + blocks_len (xs @ (m, False) # ys) \<le> 4294967296"
  shows "hseg (mem (take_block (of_nat c) (of_nat n) s)) p a (xs @ split_sizes n m @ ys) 0"
proof -
  let ?t = "take_block (of_nat c) (of_nat n) s" and ?d = "c + 17 + m"
  have h: "blk s (of_nat c) = \<lparr>hb_magic = HEAP_MAGIC, hb_size = of_nat m, hb_used = False,
      hb_next = link (ys \<noteq> []) ?d, hb_prev = last_addr p a xs\<rparr>"
    using hseg_block [OF seg c] by (simp add: link_def)
  have xs: "hseg (mem s) p a xs (of_nat c)" and ys: "hseg (mem s) (of_nat c) ?d ys 0"
    using seg c by (simp_all add: hseg_append add.assoc)
  have pos: "0 < c" "?d \<le> 4294967296" using a c by simp_all
  have d17: "ys \<noteq> [] \<Longrightarrow> ?d + 17 \<le> 4294967296" using a(2) c by (cases ys) auto
  have xr: "x + 17 \<le> c" if "x \<in> set (block_addrs a xs)" for x using block_addrs_range [OF that] c by simp
  have yr: "?d + 17 \<le> x \<and> x + 17 \<le> 4294967296" if "x \<in> set (block_addrs ?d ys)" "x \<noteq> ?d" for x
  proof (cases ys)
    case (Cons y zs)
    then obtain k u where "ys = (k, u) # zs" by (cases y) simp
    with that block_addrs_range [of x "?d + 17 + k" zs] a(2) c show ?thesis by auto
  qed (use that in simp)
  have yd: "?d \<in> set (block_addrs ?d ys)" if "ys \<noteq> []" using that by (cases ys) auto
  show ?thesis
  proof (cases "n + 25 \<le> m")
    case True
    note tb = take_block_split [OF h True pos d17]
    have "hseg (mem ?t) p a xs (of_nat c)"
      using xs tb(4) xr pos by (subst hseg_cong [of a xs "mem ?t" "mem s"]) force+
    moreover have "hseg (mem ?t) (of_nat (c + 17 + n)) ?d ys 0"
    proof (rule hseg_other_prev [OF ys])
      show "ys \<noteq> [] \<Longrightarrow> blk ?t (of_nat ?d) = (blk s (of_nat ?d))\<lparr>hb_prev := of_nat (c + 17 + n)\<rparr>"
        by (rule tb(3))
      show "blk ?t (of_nat x) = blk s (of_nat x)" if "x \<in> set (block_addrs ?d ys)" "x \<noteq> ?d" for x
        using tb(4) [of x] yr [OF that] by simp
    qed
    moreover have "c + 17 + n + 17 + (m - n - 17) = ?d" using True by simp
    ultimately show ?thesis
      using tb(1,2) True c by (simp add: split_sizes_def hseg_append link_def ac_simps del: of_nat_add of_nat_diff)
  next
    case False
    then have t: "?t = put_used (of_nat c) True s" using take_block_whole [OF h n _ pos(2)] by simp
    have off: "blk ?t (of_nat x) = blk s (of_nat x)" if "x + 17 \<le> c \<or> c + 17 \<le> x" "x + 17 \<le> 4294967296" for x
      unfolding t by (rule hdr_put_nat) (use that pos in auto)
    have "hseg (mem ?t) p a xs (of_nat c)"
      using xs off xr pos by (subst hseg_cong [of a xs "mem ?t" "mem s"]) force+
    moreover have "hseg (mem ?t) (of_nat c) ?d ys 0"
    proof -
      have "c + 17 \<le> x \<and> x + 17 \<le> 4294967296" if "x \<in> set (block_addrs ?d ys)" for x
        using block_addrs_range [OF that] a(2) c by simp
      with ys off show ?thesis by (subst hseg_cong [of ?d ys "mem ?t" "mem s"]) force+
    qed
    moreover have "blk ?t (of_nat c) = (blk s (of_nat c))\<lparr>hb_used := True\<rparr>" by (simp add: t)
    ultimately show ?thesis
      using h False n c by (simp add: split_sizes_def hseg_append link_def ac_simps del: of_nat_add)
  qed
qed

section \<open>The abstract heap\<close>

fun alloc_blocks :: "nat \<Rightarrow> nat \<Rightarrow> blocks \<Rightarrow> (nat \<times> blocks) option" where
  "alloc_blocks n a [] = None"
| "alloc_blocks n a ((m, u) # bs) =
     (if \<not> u \<and> n \<le> m then Some (a + 17, split_sizes n m @ bs)
      else map_option (\<lambda>(p, cs). (p, (m, u) # cs)) (alloc_blocks n (a + 17 + m) bs))"

fun grow_blocks :: "nat \<Rightarrow> blocks \<Rightarrow> blocks" where
  "grow_blocks e [] = [(e - 17, False)]"
| "grow_blocks e [(m, u)] = (if u then [(m, u), (e - 17, False)] else [(m + e, False)])"
| "grow_blocks e (b # bs) = b # grow_blocks e bs"

fun mark_free :: "nat \<Rightarrow> nat \<Rightarrow> blocks \<Rightarrow> blocks" where
  "mark_free p a [] = []"
| "mark_free p a ((m, u) # bs) = (m, if p = a + 17 then False else u) # mark_free p (a + 17 + m) bs"

fun coalesce :: "blocks \<Rightarrow> blocks" where
  "coalesce [] = []"
| "coalesce [b] = [b]"
| "coalesce ((m, u) # (n, w) # bs) =
     (if u \<or> w then (m, u) # coalesce ((n, w) # bs) else coalesce ((m + 17 + n, False) # bs))"

text \<open>The payloads in use, with their sizes, and the invariant that no two neighbours are free.\<close>

fun live :: "nat \<Rightarrow> blocks \<Rightarrow> (nat \<times> nat) set" where
  "live a [] = {}"
| "live a ((m, u) # bs) = (if u then {(a + 17, m)} else {}) \<union> live (a + 17 + m) bs"

fun no_adjacent :: "blocks \<Rightarrow> bool" where
  "no_adjacent ((m, u) # (n, w) # bs) \<longleftrightarrow> (u \<or> w) \<and> no_adjacent ((n, w) # bs)"
| "no_adjacent bs = True"

abbreviation "unfit n b \<equiv> snd b \<or> fst b < (n :: nat)"

lemma alloc_blocks_None: "alloc_blocks n a bs = None \<longleftrightarrow> (\<forall>b\<in>set bs. unfit n b)"
  by (induction n a bs rule: alloc_blocks.induct) auto

lemma alloc_blocks_Some:
  "alloc_blocks n a bs = Some (p, cs) \<Longrightarrow> \<exists>xs m ys. bs = xs @ (m, False) # ys \<and> n \<le> m \<and> (\<forall>b\<in>set xs. unfit n b) \<and>
     p = a + blocks_len xs + 17 \<and> cs = xs @ split_sizes n m @ ys"
proof (induction n a bs arbitrary: cs rule: alloc_blocks.induct)
  case (2 n a m u bs)
  show ?case
  proof (cases "\<not> u \<and> n \<le> m")
    case True
    with 2 show ?thesis by (intro exI [of _ "[]"]) auto
  next
    case False
    with 2(2) obtain ds where ds: "alloc_blocks n (a + 17 + m) bs = Some (p, ds)" "cs = (m, u) # ds" by auto
    from 2(1) [OF False ds(1)] obtain xs k ys where "bs = xs @ (k, False) # ys" "n \<le> k" "\<forall>b\<in>set xs. unfit n b"
        "p = a + 17 + m + blocks_len xs + 17" "ds = xs @ split_sizes n k @ ys" by blast
    with ds False show ?thesis by (intro exI [of _ "(m, u) # xs"]) auto
  qed
qed simp

lemma live_append: "live a (bs @ cs) = live a bs \<union> live (a + blocks_len bs) cs"
  by (induction bs arbitrary: a) (auto simp: ac_simps)

lemma live_range: "(x, k) \<in> live a bs \<Longrightarrow> a + 17 \<le> x \<and> x + k \<le> a + blocks_len bs"
  by (induction bs arbitrary: a) (fastforce split: if_splits)+

lemma no_adjacent_append:
  "no_adjacent (bs @ cs) \<longleftrightarrow> no_adjacent bs \<and> no_adjacent cs \<and> (bs \<noteq> [] \<and> cs \<noteq> [] \<longrightarrow> snd (last bs) \<or> snd (hd cs))"
  by (induction bs rule: no_adjacent.induct; cases cs) auto

text \<open>The live payloads are pairwise disjoint, and no header lies in one.\<close>

lemma live_disjoint:
  "(x, k) \<in> live a bs \<Longrightarrow> (y, l) \<in> live a bs \<Longrightarrow> (x, k) = (y, l) \<or> x + k + 17 \<le> y \<or> y + l + 17 \<le> x"
proof (induction bs arbitrary: a)
  case (Cons b bs)
  obtain m u where b: "b = (m, u)" by fastforce
  show ?case
    using Cons.prems Cons.IH [of "a + 17 + m"] live_range [of x k "a + 17 + m" bs] live_range [of y l "a + 17 + m" bs]
    by (auto simp: b split: if_splits)
qed simp

lemma live_off_header:
  assumes "(x, k) \<in> live a bs" "c \<in> set (block_addrs a bs)" "x \<le> unat v" "unat v < x + k"
  shows "off_header c v"
  using assms
proof (induction bs arbitrary: a)
  case (Cons b bs)
  obtain m u where b: "b = (m, u)" by fastforce
  show ?case
    using Cons.prems Cons.IH [of "a + 17 + m"] live_range [of x k "a + 17 + m" bs]
      block_addrs_range [of c "a + 17 + m" bs]
    by (auto simp: b off_header_def split: if_splits)
qed simp

lemma live_outside_free:
  assumes "(x, k) \<in> live a (xs @ (m, False) # ys)" "x \<le> unat v" "unat v < x + k"
    and "a + blocks_len xs \<le> c" "c + 17 \<le> a + blocks_len xs + 17 + m"
  shows "off_header c v"
  using assms live_range [of x k a xs] live_range [of x k "a + blocks_len xs + 17 + m" ys]
  by (auto simp: live_append off_header_def)

lemma live_alloc:
  assumes "alloc_blocks n a bs = Some (p, cs)"
  shows "\<exists>k\<ge>n. live a cs = insert (p, k) (live a bs) \<and> (p, k) \<notin> live a bs" and "blocks_len cs = blocks_len bs"
    and "no_adjacent bs \<Longrightarrow> no_adjacent cs" and "cs \<noteq> []"
    and "8 \<le> n \<Longrightarrow> \<forall>b\<in>set bs. 8 \<le> fst b \<Longrightarrow> \<forall>b\<in>set cs. 8 \<le> fst b"
proof -
  from alloc_blocks_Some [OF assms] obtain xs m ys where
    *: "bs = xs @ (m, False) # ys" "n \<le> m" "p = a + blocks_len xs + 17" "cs = xs @ split_sizes n m @ ys"
    by blast
  have "(p, k) \<notin> live a bs" for k
    using * live_range [of p k a xs] live_range [of p k "a + blocks_len xs + 17 + m" ys] by (auto simp: live_append)
  moreover have "live a cs = insert (p, if n + 25 \<le> m then n else m) (live a bs)"
    using * by (auto simp: live_append split_sizes_def ac_simps)
  ultimately show "\<exists>k\<ge>n. live a cs = insert (p, k) (live a bs) \<and> (p, k) \<notin> live a bs"
    using *(2) by (intro exI [of _ "if n + 25 \<le> m then n else m"]) auto
  show "blocks_len cs = blocks_len bs" using * by simp
  show "no_adjacent bs \<Longrightarrow> no_adjacent cs"
    using * by (cases ys) (auto simp: no_adjacent_append split_sizes_def)
  show "cs \<noteq> []" using * by simp
  show "8 \<le> n \<Longrightarrow> \<forall>b\<in>set bs. 8 \<le> fst b \<Longrightarrow> \<forall>b\<in>set cs. 8 \<le> fst b"
    using * by (auto simp: split_sizes_def)
qed

section \<open>First fit\<close>

text \<open>The scan passes over a prefix of blocks that do not fit.\<close>

lemma find_loop:
  fixes s :: "'a heap_state_scheme"
  assumes "hseg (mem s) p a (xs @ ys) 0" "\<forall>b\<in>set xs. unfit n b" "0 < a" "a + blocks_len (xs @ ys) < 4294967296"
    and "n < 4294967296"
  shows "loop (\<lambda>(current, prev) s. current \<noteq> 0 \<and> (hb_used (blk s current) \<or> hb_size (blk s current) < of_nat n))
      (\<lambda>(current, prev) s. Ret (hb_next (blk s current), current) s) (link (xs @ ys \<noteq> []) a, q) s =
    loop (\<lambda>(current, prev) s. current \<noteq> 0 \<and> (hb_used (blk s current) \<or> hb_size (blk s current) < of_nat n))
      (\<lambda>(current, prev) s. Ret (hb_next (blk s current), current) s)
      (link (ys \<noteq> []) (a + blocks_len xs), last_addr q a xs) s"
  using assms
proof (induction xs arbitrary: p a q)
  case (Cons b xs)
  obtain m u where b: "b = (m, u)" by fastforce
  have sm: "a < 4294967296" "m < 4294967296" using Cons.prems(4) by (simp_all add: b)
  have h: "blk s (of_nat a) = \<lparr>hb_magic = HEAP_MAGIC, hb_size = of_nat m, hb_used = u,
      hb_next = link (xs @ ys \<noteq> []) (a + 17 + m), hb_prev = p\<rparr>"
    using Cons.prems(1) by (simp add: b link_def)
  have nz: "(of_nat a :: u32) \<noteq> 0" using link_zero [OF Cons.prems(3) sm(1), of True] by (simp add: link_def)
  have "u \<or> (of_nat m :: u32) < of_nat n"
    using Cons.prems(2,5) sm by (auto simp: b u32_less_iff unat_of_nat_u32)
  then have go: "hb_used (blk s (of_nat a)) \<or> hb_size (blk s (of_nat a)) < of_nat n" by (simp add: h)
  have seg: "hseg (mem s) (of_nat a) (a + 17 + m) (xs @ ys) 0" using Cons.prems(1) by (simp add: b)
  have IH: "loop (\<lambda>(current, prev) s. current \<noteq> 0 \<and> (hb_used (blk s current) \<or> hb_size (blk s current) < of_nat n))
      (\<lambda>(current, prev) s. Ret (hb_next (blk s current), current) s) (link (xs @ ys \<noteq> []) (a + 17 + m), of_nat a) s =
    loop (\<lambda>(current, prev) s. current \<noteq> 0 \<and> (hb_used (blk s current) \<or> hb_size (blk s current) < of_nat n))
      (\<lambda>(current, prev) s. Ret (hb_next (blk s current), current) s)
      (link (ys \<noteq> []) (a + 17 + m + blocks_len xs), last_addr (of_nat a) (a + 17 + m) xs) s"
    by (rule Cons.IH [OF seg]) (use Cons.prems b in auto)
  have "link (b # xs @ ys \<noteq> []) a = of_nat a" by (simp add: link_def)
  moreover have "hb_next (blk s (of_nat a)) = link (xs @ ys \<noteq> []) (a + 17 + m)" by (simp add: h)
  ultimately show ?case
    using IH by (subst loop_step) (use nz go in \<open>simp_all add: b ac_simps del: of_nat_add\<close>)
qed simp

definition heap_inv :: "'a heap_state_scheme \<Rightarrow> blocks \<Rightarrow> bool" where
  "heap_inv s bs \<longleftrightarrow> kmalloc_initalized s \<and> heap_start s = KERNEL_MALLOC \<and> heap_head s = KERNEL_MALLOC \<and>
     bs \<noteq> [] \<and> hseg (mem s) 0 0xD0000000 bs 0 \<and> blocks_len bs = unat (heap_size s) \<and> no_adjacent bs \<and>
     (\<forall>b\<in>set bs. 8 \<le> fst b) \<and>
     unat (heap_size s) \<le> 0x2FC00000 \<and> unat (heap_size s) mod 0x1000 = 0"

abbreviation "HEAP \<equiv> (0xD0000000 :: nat)"

lemma find_fit_found:
  assumes inv: "heap_inv s (xs @ (m, False) # ys)" and "\<forall>b\<in>set xs. unfit n b" "n \<le> m"
  shows "find_fit (of_nat n) s = Ret (of_nat (HEAP + blocks_len xs), last_addr 0 HEAP xs) s"
proof -
  have seg: "hseg (mem s) 0 HEAP (xs @ (m, False) # ys) 0" and len: "HEAP + blocks_len (xs @ (m, False) # ys) < 4294967296"
    using inv by (auto simp: heap_inv_def)
  have "n < 4294967296" using assms(3) len by simp
  note run = find_loop [OF seg assms(2) _ len this, of 0]
  have "link True HEAP = KERNEL_MALLOC" by (simp add: link_def)
  moreover have "\<not> (of_nat m :: u32) < of_nat n" using assms(3) len by (simp add: u32_less_iff unat_of_nat_u32)
  ultimately show ?thesis
    using run inv hseg_block [OF seg refl] by (simp add: find_fit_def heap_inv_def link_def)
qed

lemma find_fit_none:
  assumes inv: "heap_inv s bs" and "\<forall>b\<in>set bs. unfit n b" "n < 4294967296"
  shows "find_fit (of_nat n) s = Ret (0, last_addr 0 HEAP bs) s"
proof -
  have seg: "hseg (mem s) 0 HEAP (bs @ []) 0" and len: "HEAP + blocks_len (bs @ []) < 4294967296" and ne: "bs \<noteq> []"
    using inv by (auto simp: heap_inv_def)
  note run = find_loop [OF seg assms(2) _ len assms(3), of 0]
  have "link True HEAP = KERNEL_MALLOC" by (simp add: link_def)
  then show ?thesis using run inv ne by (simp add: find_fit_def heap_inv_def link_def)
qed

text \<open>The rounding of the requested size.\<close>

definition round8 :: "nat \<Rightarrow> nat" where
  "round8 n = (n + 7) div 8 * 8"

lemma and_not_mask: "(x :: u32) AND NOT (mask k) = push_bit k (drop_bit k x)"
  by (rule bit_word_eqI) (auto simp: bit_simps)

lemma round8_word: "unat sz \<le> 0xFFFFFFF8 \<Longrightarrow> (sz + 7) AND NOT 7 = (of_nat (round8 (unat sz)) :: u32)"
proof -
  assume "unat sz \<le> 0xFFFFFFF8"
  then have u: "unat (sz + 7) = unat sz + 7" by (simp add: unat_add_u32)
  have "(7 :: u32) = mask 3" by (simp add: mask_eq_exp_minus_1)
  then have "(sz + 7) AND NOT 7 = push_bit 3 (drop_bit 3 (sz + 7))" by (metis and_not_mask)
  also have "\<dots> = of_nat (unat (sz + 7) div 8 * 8)"
    by (simp add: push_bit_eq_mult drop_bit_eq_div of_nat_mult word_unat_eq_iff unat_div unat_mult_u32 unat_of_nat mod_mult_left_eq)
  finally show ?thesis by (simp only: u round8_def)
qed

lemma round8_bounds: "n \<le> round8 n" "round8 n \<le> n + 7" "0 < n \<Longrightarrow> 0 < round8 n"
  unfolding round8_def by linarith+

section \<open>Allocation from the blocks there are\<close>

definition payload_kept :: "(nat \<times> nat) set \<Rightarrow> memory \<Rightarrow> memory \<Rightarrow> bool" where
  "payload_kept L m m' \<longleftrightarrow> (\<forall>(x, k)\<in>L. \<forall>v. x \<le> unat v \<and> unat v < x + k \<longrightarrow> m' v = m v)"

lemma payload_kept_trans: "payload_kept L m m' \<Longrightarrow> payload_kept L m' m'' \<Longrightarrow> payload_kept L m m''"
  by (fastforce simp: payload_kept_def)

lemma payload_kept_refl [simp]: "payload_kept L m m"
  by (auto simp: payload_kept_def)

lemma take_block_keeps:
  fixes s :: "'a heap_state_scheme"
  assumes seg: "hseg (mem s) p a (xs @ (m, False) # ys) 0" and n: "n \<le> m" and c: "c = a + blocks_len xs"
    and a: "0 < a" "a + blocks_len (xs @ (m, False) # ys) \<le> 4294967296"
  shows "payload_kept (live a (xs @ (m, False) # ys)) (mem s) (mem (take_block (of_nat c) (of_nat n) s))"
  unfolding payload_kept_def
proof (intro ballI allI impI, clarify)
  fix x k and v :: u32
  assume lv: "(x, k) \<in> live a (xs @ (m, False) # ys)" and v: "x \<le> unat v" "unat v < x + k"
  have h: "blk s (of_nat c) = \<lparr>hb_magic = HEAP_MAGIC, hb_size = of_nat m, hb_used = False,
      hb_next = link (ys \<noteq> []) (c + 17 + m), hb_prev = last_addr p a xs\<rparr>"
    using hseg_block [OF seg c] by (simp add: link_def)
  have pos: "0 < c" "c + 17 + m \<le> 4294967296" using a c by simp_all
  have d17: "ys \<noteq> [] \<Longrightarrow> c + 17 + m + 17 \<le> 4294967296" using a(2) c by (cases ys) auto
  have off: "off_header c v" using live_outside_free [OF lv v, of c] c by simp
  show "mem (take_block (of_nat c) (of_nat n) s) v = mem s v"
  proof (cases "n + 25 \<le> m")
    case True
    have "off_header (c + 17 + n) v" using live_outside_free [OF lv v, of "c + 17 + n"] c True by simp
    moreover have "off_header (c + 17 + m) v" if "ys \<noteq> []"
      by (rule live_off_header [OF lv _ v]) (use that c in \<open>cases ys; auto simp: ac_simps\<close>)
    ultimately show ?thesis using take_block_split(5) [OF h True pos d17] off by blast
  next
    case False
    then show ?thesis using take_block_whole [OF h n _ pos(2)] off pos by (simp add: put_outside)
  qed
qed

lemma only_mem_heap:
  fixes s t :: "'a heap_state_scheme"
  assumes "only_mem s t"
  shows "kmalloc_initalized t = kmalloc_initalized s" "heap_start t = heap_start s" "heap_head t = heap_head s"
    "heap_size t = heap_size s"
  using assms by (cases s; cases t; simp add: only_mem_def)+

text \<open>What an allocation guarantees: the block is one of the abstract allocator, everything in use is
  kept, and nothing but memory changes.\<close>

lemma take_block_heap_inv:
  fixes s :: "'a heap_state_scheme"
  assumes inv: "heap_inv s bs" and al: "alloc_blocks n HEAP bs = Some (p, cs)" and n8: "8 \<le> n"
  shows "find_fit (of_nat n) s = Ret (of_nat (p - 17), last_addr 0 HEAP (takeWhile (unfit n) bs)) s"
    and "heap_inv (take_block (of_nat (p - 17)) (of_nat n) s) cs"
    and "payload_kept (live HEAP bs) (mem s) (mem (take_block (of_nat (p - 17)) (of_nat n) s))"
    and "HEAP + 17 \<le> p" "p \<le> HEAP + blocks_len bs" "n \<le> blocks_len bs"
proof -
  from alloc_blocks_Some [OF al] obtain xs m ys where
    *: "bs = xs @ (m, False) # ys" "n \<le> m" "\<forall>b\<in>set xs. unfit n b" "p = HEAP + blocks_len xs + 17"
      "cs = xs @ split_sizes n m @ ys" by blast
  have seg: "hseg (mem s) 0 HEAP (xs @ (m, False) # ys) 0" and len: "HEAP + blocks_len (xs @ (m, False) # ys) \<le> 4294967296"
    using inv * by (auto simp: heap_inv_def)
  have "takeWhile (unfit n) bs = xs" using * by (simp add: takeWhile_append)
  then show "find_fit (of_nat n) s = Ret (of_nat (p - 17), last_addr 0 HEAP (takeWhile (unfit n) bs)) s"
    using find_fit_found [of s xs m ys n] inv * by simp
  have seg': "hseg (mem (take_block (of_nat (p - 17)) (of_nat n) s)) 0 HEAP cs 0"
    using take_block_hseg [OF seg *(2) refl _ len] * by simp
  have om: "only_mem s (take_block (of_nat (p - 17)) (of_nat n) s)" by simp
  show "heap_inv (take_block (of_nat (p - 17)) (of_nat n) s) cs"
    using inv n8 seg' live_alloc(3-5) [OF al]
    unfolding heap_inv_def only_mem_heap [OF om] live_alloc(2) [OF al] by blast
  show "payload_kept (live HEAP bs) (mem s) (mem (take_block (of_nat (p - 17)) (of_nat n) s))"
    using take_block_keeps [OF seg *(2) refl _ len] * by simp
  show "HEAP + 17 \<le> p" "p \<le> HEAP + blocks_len bs" "n \<le> blocks_len bs" using * by simp_all
qed

lemma kmalloc_fit:
  assumes inv: "heap_inv s bs" and sz: "sz \<noteq> 0" "unat sz \<le> 0xFFFFFFF8"
    and al: "alloc_blocks (round8 (unat sz)) HEAP bs = Some (p, cs)"
  shows "\<exists>t. kmalloc sz s = Ret (of_nat p) t \<and> heap_inv t cs \<and> only_mem s t \<and> payload_kept (live HEAP bs) (mem s) (mem t)"
proof -
  let ?n = "round8 (unat sz)" and ?c = "of_nat (p - 17) :: u32"
  have n8: "8 \<le> ?n" using round8_bounds(3) [of "unat sz"] sz(1) by (simp add: round8_def unat_gt_0)
  note tb = take_block_heap_inv [OF inv al n8]
  have len: "blocks_len bs \<le> 0x2FC00000" "kmalloc_initalized s" using inv by (auto simp: heap_inv_def)
  then have "link True (p - 17) \<noteq> 0" using tb(4,5) by (subst link_zero) auto
  then have nz: "?c \<noteq> 0" by (simp add: link_def del: of_nat_diff)
  have "?c + of_nat 17 = of_nat p" using tb(4) by simp
  then have "kmalloc sz s = Ret (of_nat p) (take_block ?c (of_nat ?n) s)"
    unfolding kmalloc_def Let_def round8_word [OF sz(2)] using nz len sz(1) tb(1)
    by (simp add: SIZEOF_heap_block_def del: of_nat_diff)
  with tb(2,3) show ?thesis by auto
qed

section \<open>Joining neighbours\<close>

lemma only_mem_join [simp]: "only_mem s (join_blocks c d t) \<longleftrightarrow> only_mem s t"
  by (simp add: join_blocks_def Let_def)

lemma join_blocks_run:
  assumes hc: "blk s (of_nat c) = \<lparr>hb_magic = HEAP_MAGIC, hb_size = of_nat k, hb_used = u, hb_next = of_nat d, hb_prev = p\<rparr>"
    and hd: "hb_size (blk s (of_nat d)) = of_nat j" "hb_next (blk s (of_nat d)) = link b e"
    and ad: "d = c + 17 + k" "e = d + 17 + j" "0 < c" "e \<le> 4294967296" "b \<Longrightarrow> e + 17 \<le> 4294967296"
  defines "t \<equiv> join_blocks (of_nat c) (of_nat d) s"
  shows "blk t (of_nat c) = \<lparr>hb_magic = HEAP_MAGIC, hb_size = of_nat (k + 17 + j), hb_used = u, hb_next = link b e, hb_prev = p\<rparr>"
    and "b \<Longrightarrow> blk t (of_nat e) = (blk s (of_nat e))\<lparr>hb_prev := of_nat c\<rparr>"
    and "\<And>x. x + 17 \<le> c \<or> e + 17 \<le> x \<Longrightarrow> x + 17 \<le> 4294967296 \<Longrightarrow> blk t (of_nat x) = blk s (of_nat x)"
    and "\<And>x. off_header c x \<Longrightarrow> (b \<longrightarrow> off_header e x) \<Longrightarrow> mem t x = mem s x"
    and "t = (if b then put_prev (of_nat e) (of_nat c) (put_next (of_nat c) (link b e) (put_size (of_nat c) (of_nat (k + 17 + j)) s))
      else put_next (of_nat c) (link b e) (put_size (of_nat c) (of_nat (k + 17 + j)) s))"
proof -
  define s2 where "s2 = put_next (of_nat c) (link b e) (put_size (of_nat c) (of_nat (k + 17 + j)) s)"
  have cd: "c + 17 \<le> d \<or> d + 17 \<le> c" "c + 17 \<le> 4294967296" "d + 17 \<le> 4294967296" using ad by auto
  have nz: "link b e \<noteq> 0 \<longleftrightarrow> b"
    using ad by (cases b) (auto simp: link_zero, simp add: link_def)
  have c2: "blk s2 (of_nat c) = \<lparr>hb_magic = HEAP_MAGIC, hb_size = of_nat (k + 17 + j), hb_used = u, hb_next = link b e, hb_prev = p\<rparr>"
    by (simp add: s2_def hc)
  have sz: "of_nat k + (of_nat 17 + of_nat j) = (of_nat (k + 17 + j) :: u32)" by simp
  have t: "t = (if b then put_prev (of_nat e) (of_nat c) s2 else s2)"
    unfolding t_def join_blocks_def Let_def SIZEOF_heap_block_def hc hd heap_block.select_convs sz
    using nz by (cases b) (simp_all add: hdr_put_nat [OF cd] hd s2_def link_def del: of_nat_add)
  then show "t = (if b then put_prev (of_nat e) (of_nat c) (put_next (of_nat c) (link b e) (put_size (of_nat c) (of_nat (k + 17 + j)) s))
      else put_next (of_nat c) (link b e) (put_size (of_nat c) (of_nat (k + 17 + j)) s))"
    by (simp add: s2_def)
  have ec: "e + 17 \<le> c \<or> c + 17 \<le> e" using ad by auto
  show "blk t (of_nat c) = \<lparr>hb_magic = HEAP_MAGIC, hb_size = of_nat (k + 17 + j), hb_used = u, hb_next = link b e, hb_prev = p\<rparr>"
    using c2 ad(5) cd(2) hdr_put_nat(5) [OF ec, of "of_nat c" s2] by (cases b) (simp_all add: t)
  have x2: "blk s2 (of_nat x) = blk s (of_nat x)" if o: "c + 17 \<le> x \<or> x + 17 \<le> c" "x + 17 \<le> 4294967296" for x
    unfolding s2_def by (simp add: hdr_put_nat [OF o(1) cd(2) o(2)])
  show "blk t (of_nat e) = (blk s (of_nat e))\<lparr>hb_prev := of_nat c\<rparr>" if b
  proof -
    have "blk s2 (of_nat e) = blk s (of_nat e)" by (rule x2) (use ec ad(5) that in auto)
    then show ?thesis using that by (simp add: t)
  qed
  show "blk t (of_nat x) = blk s (of_nat x)" if "x + 17 \<le> c \<or> e + 17 \<le> x" "x + 17 \<le> 4294967296" for x
  proof -
    have "c + 17 \<le> x \<or> x + 17 \<le> c" "b \<Longrightarrow> e + 17 \<le> x \<or> x + 17 \<le> e" using that ad by auto
    then show ?thesis using x2 [of x] that ad(5) hdr_put_nat(5) [of e x "of_nat c" s2] by (cases b) (simp_all add: t)
  qed
  show "mem t x = mem s x" if "off_header c x" "b \<longrightarrow> off_header e x" for x
    using that cd(2) ad(5) by (simp add: t s2_def put_outside)
qed

lemma join_hseg:
  assumes seg: "hseg (mem s) p a (xs @ (k, u) # (j, w) # ys) 0" and c: "c = a + blocks_len xs" "d = c + 17 + k"
    and a: "0 < a" "a + blocks_len (xs @ (k, u) # (j, w) # ys) \<le> 4294967296"
  shows "hseg (mem (join_blocks (of_nat c) (of_nat d) s)) p a (xs @ (k + 17 + j, u) # ys) 0"
    and "off_header c x \<Longrightarrow> (ys \<noteq> [] \<longrightarrow> off_header (d + 17 + j) x) \<Longrightarrow> mem (join_blocks (of_nat c) (of_nat d) s) x = mem s x"
proof -
  let ?t = "join_blocks (of_nat c) (of_nat d) s" and ?e = "d + 17 + j"
  have hc: "blk s (of_nat c) = \<lparr>hb_magic = HEAP_MAGIC, hb_size = of_nat k, hb_used = u, hb_next = of_nat d, hb_prev = last_addr p a xs\<rparr>"
    using hseg_block [OF seg c(1)] c(2) by simp
  have "hseg (mem s) p a ((xs @ [(k, u)]) @ (j, w) # ys) 0" using seg by simp
  from hseg_block [OF this] have hd: "hb_size (blk s (of_nat d)) = of_nat j" "hb_next (blk s (of_nat d)) = link (ys \<noteq> []) ?e"
    by (simp_all add: link_def c add.assoc)
  have xs: "hseg (mem s) p a xs (of_nat c)" and ys: "hseg (mem s) (of_nat d) ?e ys 0"
    using seg unfolding c by (simp_all add: hseg_append add.assoc)
  have pos: "0 < c" "?e \<le> 4294967296" using a c by simp_all
  have e17: "ys \<noteq> [] \<Longrightarrow> ?e + 17 \<le> 4294967296" using a(2) c by (cases ys) auto
  note jr = join_blocks_run [OF hc hd c(2) refl pos e17]
  show "off_header c x \<Longrightarrow> (ys \<noteq> [] \<longrightarrow> off_header (d + 17 + j) x) \<Longrightarrow> mem ?t x = mem s x" by (rule jr(4))
  have xr: "x + 17 \<le> c" if "x \<in> set (block_addrs a xs)" for x using block_addrs_range [OF that] c by simp
  have "hseg (mem ?t) p a xs (of_nat c) = hseg (mem s) p a xs (of_nat c)"
  proof (rule hseg_cong)
    fix x assume "x \<in> set (block_addrs a xs)"
    from xr [OF this] show "blk ?t (of_nat x) = blk s (of_nat x)" using pos c(2) by (intro jr(3)) auto
  qed
  with xs have "hseg (mem ?t) p a xs (of_nat c)" by simp
  moreover have "hseg (mem ?t) (of_nat c) ?e ys 0"
  proof (rule hseg_other_prev [OF ys])
    show "ys \<noteq> [] \<Longrightarrow> blk ?t (of_nat ?e) = (blk s (of_nat ?e))\<lparr>hb_prev := of_nat c\<rparr>" by (rule jr(2))
    show "blk ?t (of_nat x) = blk s (of_nat x)" if x: "x \<in> set (block_addrs ?e ys)" "x \<noteq> ?e" for x
    proof (cases ys)
      case (Cons y zs)
      then obtain l v where "ys = (l, v) # zs" by (cases y) simp
      with x block_addrs_range [of x "?e + 17 + l" zs] a(2) c show ?thesis by (intro jr(3)) auto
    qed (use x in simp)
  qed
  ultimately show "hseg (mem ?t) p a (xs @ (k + 17 + j, u) # ys) 0"
    using jr(1) c by (simp add: hseg_append link_def ac_simps del: of_nat_add)
qed

lemma set_used_hseg:
  assumes seg: "hseg (mem s) p a (xs @ (k, u) # ys) nx" and c: "c = a + blocks_len xs"
    and a: "a + blocks_len (xs @ (k, u) # ys) \<le> 4294967296"
  shows "hseg (mem (put_used (of_nat c) w s)) p a (xs @ (k, w) # ys) nx"
proof -
  have "blk (put_used (of_nat c) w s) (of_nat x) = blk s (of_nat x)" if "x + 17 \<le> c \<or> c + 17 \<le> x" "x + 17 \<le> 4294967296" for x
    by (rule hdr_put_nat) (use that a c in auto)
  moreover have "x + 17 \<le> c \<and> x + 17 \<le> 4294967296" if "x \<in> set (block_addrs a xs)" for x
    using block_addrs_range [OF that] c a by simp
  moreover have "c + 17 \<le> x \<and> x + 17 \<le> 4294967296" if "x \<in> set (block_addrs (c + 17 + k) ys)" for x
    using block_addrs_range [OF that] c a by simp
  ultimately have "hseg (mem (put_used (of_nat c) w s)) p a xs nx' = hseg (mem s) p a xs nx'"
      "hseg (mem (put_used (of_nat c) w s)) q (c + 17 + k) ys nx = hseg (mem s) q (c + 17 + k) ys nx" for nx' q
    by (intro hseg_cong; blast)+
  then show ?thesis using seg c by (simp add: hseg_append ac_simps)
qed

section \<open>Freeing\<close>

lemma coalesce_len [simp]: "blocks_len (coalesce bs) = blocks_len bs"
  by (induction bs rule: coalesce.induct) auto

lemma coalesce_live [simp]: "live a (coalesce bs) = live a bs"
  by (induction bs arbitrary: a rule: coalesce.induct) (auto simp: ac_simps)

lemma coalesce_Nil [simp]: "coalesce bs = [] \<longleftrightarrow> bs = []"
  by (induction bs rule: coalesce.induct) auto

lemma coalesce_hd: "bs \<noteq> [] \<Longrightarrow> snd (hd (coalesce bs)) = snd (hd bs)"
  by (induction bs rule: coalesce.induct) auto

lemma no_adjacent_Cons: "no_adjacent (b # bs) \<longleftrightarrow> no_adjacent bs \<and> (bs \<noteq> [] \<longrightarrow> snd b \<or> snd (hd bs))"
  by (cases b; cases bs) auto

lemma coalesce_no_adjacent [simp]: "no_adjacent (coalesce bs)"
proof (induction bs rule: coalesce.induct)
  case (3 m u n w bs)
  then show ?case using coalesce_hd [of "(n, w) # bs"] by (auto simp: no_adjacent_Cons)
qed simp_all

lemma coalesce_big: "\<forall>b\<in>set bs. 8 \<le> fst b \<Longrightarrow> \<forall>b\<in>set (coalesce bs). 8 \<le> fst b"
  by (induction bs rule: coalesce.induct) auto

lemma coalesce_id: "no_adjacent bs \<Longrightarrow> coalesce bs = bs"
  by (induction bs rule: coalesce.induct) (auto simp: no_adjacent_Cons)

lemma coalesce_append: "no_adjacent xs \<Longrightarrow> xs = [] \<or> snd (last xs) \<Longrightarrow> coalesce (xs @ ys) = xs @ coalesce ys"
proof (induction xs)
  case (Cons x xs)
  obtain m u where x: "x = (m, u)" by fastforce
  show ?case
  proof (cases xs)
    case Nil
    then show ?thesis using Cons.prems by (cases ys) (auto simp: x)
  next
    case (Cons y zs)
    obtain n w where y: "y = (n, w)" by fastforce
    have "coalesce (xs @ ys) = xs @ coalesce ys" using Cons.IH Cons.prems Cons by (auto simp: no_adjacent_Cons)
    moreover have "u \<or> w" using Cons.prems(1) Cons by (simp add: x y)
    ultimately show ?thesis using Cons by (cases u; cases w) (simp_all add: x y)
  qed
qed simp

lemma mark_free_len [simp]: "blocks_len (mark_free p a bs) = blocks_len bs" "mark_free p a bs = [] \<longleftrightarrow> bs = []"
  by (induction bs arbitrary: a) auto

lemma mark_free_other: "p < a + 17 \<or> a + blocks_len bs < p \<Longrightarrow> mark_free p a bs = bs"
  by (induction bs arbitrary: a) auto

lemma mark_free_at:
  assumes "p = a + blocks_len xs + 17"
  shows "mark_free p a (xs @ (k, u) # ys) = xs @ (k, False) # ys"
  using assms by (induction xs arbitrary: a) (auto simp: mark_free_other ac_simps)

lemma live_split:
  "(p, k) \<in> live a bs \<Longrightarrow> \<exists>xs ys. bs = xs @ (k, True) # ys \<and> p = a + blocks_len xs + 17"
proof (induction bs arbitrary: a)
  case (Cons b bs)
  obtain m u where b: "b = (m, u)" by fastforce
  show ?case
  proof (cases "u \<and> (p, k) = (a + 17, m)")
    case True
    then show ?thesis by (intro exI [of _ "[]"] exI [of _ bs]) (auto simp: b)
  next
    case False
    then have "(p, k) \<in> live (a + 17 + m) bs" using Cons.prems by (auto simp: b split: if_splits)
    from Cons.IH [OF this] obtain xs ys where "bs = xs @ (k, True) # ys" "p = a + 17 + m + blocks_len xs + 17" by blast
    then show ?thesis by (intro exI [of _ "b # xs"] exI [of _ ys]) (auto simp: b)
  qed
qed simp

lemma live_mark_free:
  assumes "(p, k) \<in> live a bs"
  shows "live a (mark_free p a bs) = live a bs - {(p, k)}"
proof -
  from live_split [OF assms] obtain xs ys where *: "bs = xs @ (k, True) # ys" "p = a + blocks_len xs + 17" by blast
  have "(p, k) \<notin> live a xs" "(p, k) \<notin> live (a + blocks_len xs + 17 + k) ys"
    using live_range [of p k a xs] live_range [of p k "a + blocks_len xs + 17 + k" ys] * by auto
  then show ?thesis using * by (auto simp: mark_free_at live_append)
qed

lemma heap_len_bounds:
  assumes "heap_inv s bs"
  shows "HEAP + blocks_len bs \<le> 4294967296" "hseg (mem s) 0 HEAP bs 0" "blocks_len bs \<le> 0x2FC00000"
  using assms by (auto simp: heap_inv_def)

lemma only_mem_free [simp]: "only_mem s (free_right c t) \<longleftrightarrow> only_mem s t" "only_mem s (free_left c t) \<longleftrightarrow> only_mem s t"
  by (simp_all add: free_right_def free_left_def Let_def)

lemma kfree_eq:
  assumes "kmalloc_initalized s" "KERNEL_MALLOC \<le> ptr" "ptr < KERNEL_MALLOC + heap_size s"
    and "hb_magic (blk s (ptr - of_nat SIZEOF_heap_block)) = HEAP_MAGIC" "hb_used (blk s (ptr - of_nat SIZEOF_heap_block))"
  shows "kfree ptr s = Ret () (free_left (ptr - of_nat SIZEOF_heap_block) (free_right (ptr - of_nat SIZEOF_heap_block)
    (put_used (ptr - of_nat SIZEOF_heap_block) False s)))"
proof -
  have "ptr \<noteq> 0" using assms(2) by (auto simp: u32_le_iff)
  with assms show ?thesis by (simp add: kfree_def Let_def not_less not_le)
qed

lemma free_right_hseg:
  fixes s :: "'a heap_state_scheme"
  assumes seg: "hseg (mem s) p a (xs @ (k, False) # ys) 0" and c: "c = a + blocks_len xs"
    and a: "0 < a" "a + blocks_len (xs @ (k, False) # ys) \<le> 4294967296" and na: "no_adjacent ys"
  shows "\<exists>k' zs. hseg (mem (free_right (of_nat c) s)) p a (xs @ (k', False) # zs) 0 \<and>
    (k', False) # zs = coalesce ((k, False) # ys) \<and> k \<le> k' \<and> blocks_len ((k', False) # zs) = blocks_len ((k, False) # ys) \<and>
    payload_kept (live a (xs @ (k, False) # ys)) (mem s) (mem (free_right (of_nat c) s))"
proof -
  have h: "blk s (of_nat c) = \<lparr>hb_magic = HEAP_MAGIC, hb_size = of_nat k, hb_used = False,
      hb_next = link (ys \<noteq> []) (c + 17 + k), hb_prev = last_addr p a xs\<rparr>"
    using hseg_block [OF seg c] by (simp add: link_def)
  consider (none) "ys = []" | (used) j zs where "ys = (j, True) # zs" | (free) j zs where "ys = (j, False) # zs"
    by (cases ys) auto
  then show ?thesis
  proof cases
    case none
    then have "free_right (of_nat c) s = s" by (simp add: free_right_def h link_def Let_def)
    with seg none show ?thesis by auto
  next
    case used
    have seg2: "hseg (mem s) p a ((xs @ [(k, False)]) @ (j, True) # zs) 0" using seg used by simp
    have "hb_used (blk s (of_nat (c + 17 + k)))"
      using hseg_block [OF seg2 refl] by (simp add: c ac_simps)
    then have "free_right (of_nat c) s = s" using used by (simp add: free_right_def h link_def Let_def del: of_nat_add)
    with seg used na show ?thesis by (auto simp: coalesce_id)
  next
    case free
    have seg2: "hseg (mem s) p a ((xs @ [(k, False)]) @ (j, False) # zs) 0" using seg free by simp
    have d: "\<not> hb_used (blk s (of_nat (c + 17 + k)))"
      using hseg_block [OF seg2 refl] by (simp add: c ac_simps)
    have "link True (c + 17 + k) \<noteq> 0" using a c free by (subst link_zero) auto
    with d free have t: "free_right (of_nat c) s = join_blocks (of_nat c) (of_nat (c + 17 + k)) s"
      by (simp add: free_right_def h link_def Let_def del: of_nat_add)
    note jn = join_hseg [OF seg [unfolded free] c refl a(1) a(2) [unfolded free]]
    have na2: "no_adjacent ((k + 17 + j, False) # zs)" using na free by (auto simp: no_adjacent_Cons)
    have "payload_kept (live a (xs @ (k, False) # ys)) (mem s) (mem (free_right (of_nat c) s))"
      unfolding payload_kept_def
    proof (intro ballI allI impI, clarify)
      fix x l and v :: u32 assume lv: "(x, l) \<in> live a (xs @ (k, False) # ys)" and v: "x \<le> unat v" "unat v < x + l"
      have "off_header c v" using live_outside_free [OF lv v, of c] c by simp
      moreover have "off_header (c + 17 + k + 17 + j) v" if "zs \<noteq> []"
        by (rule live_off_header [OF lv _ v]) (use that c free in \<open>cases zs; auto simp: ac_simps\<close>)
      ultimately show "mem (free_right (of_nat c) s) v = mem s v" unfolding t by (intro jn(2)) auto
    qed
    with jn(1) t free na2 show ?thesis
      by (intro exI [of _ "k + 17 + j"] exI [of _ zs]) (simp add: coalesce_id)
  qed
qed

lemma free_left_eq:
  assumes hb: "blk s (of_nat b) = \<lparr>hb_magic = HEAP_MAGIC, hb_size = of_nat i, hb_used = False, hb_next = of_nat c, hb_prev = p\<rparr>"
    and hc: "blk s (of_nat c) = \<lparr>hb_magic = HEAP_MAGIC, hb_size = of_nat k, hb_used = False, hb_next = link l e, hb_prev = of_nat b\<rparr>"
    and ad: "c = b + 17 + i" "e = c + 17 + k" "0 < b" "e \<le> 4294967296" "l \<Longrightarrow> e + 17 \<le> 4294967296"
  shows "free_left (of_nat c) s = join_blocks (of_nat b) (of_nat c) s"
proof -
  have cd: "b + 17 \<le> c \<or> c + 17 \<le> b" "b + 17 \<le> 4294967296" "c + 17 \<le> 4294967296" using ad by auto
  have nz: "link l e \<noteq> 0 \<longleftrightarrow> l" "(of_nat b :: u32) \<noteq> 0"
    using ad link_zero [of b True] by (cases l; auto simp: link_zero; simp add: link_def)+
  have sz: "of_nat i + (of_nat 17 + of_nat k) = (of_nat (i + 17 + k) :: u32)" by simp
  have "hb_size (blk s (of_nat c)) = of_nat k" "hb_next (blk s (of_nat c)) = link l e" by (simp_all add: hc)
  from join_blocks_run(5) [OF hb this ad] show ?thesis
    unfolding free_left_def Let_def hc hb heap_block.select_convs SIZEOF_heap_block_def sz
    using nz by (cases l) (simp_all add: hdr_put_nat [OF cd] hc hb link_def del: of_nat_add)
qed

lemma join_blocks_right:
  assumes hc: "blk s (of_nat c) = \<lparr>hb_magic = HEAP_MAGIC, hb_size = of_nat k, hb_used = u, hb_next = of_nat d, hb_prev = p\<rparr>"
    and hd: "hb_size (blk s (of_nat d)) = of_nat j" "hb_next (blk s (of_nat d)) = link b e"
    and ad: "d = c + 17 + k" "e = d + 17 + j" "0 < c" "e \<le> 4294967296" "b \<Longrightarrow> e + 17 \<le> 4294967296"
  shows "blk (join_blocks (of_nat c) (of_nat d) s) (of_nat d) = blk s (of_nat d)"
proof -
  have cd: "c + 17 \<le> d \<or> d + 17 \<le> c" "c + 17 \<le> 4294967296" "d + 17 \<le> 4294967296" using ad by auto
  have ed: "e + 17 \<le> d \<or> d + 17 \<le> e" using ad by simp
  show ?thesis
  proof (cases b)
    case True
    then show ?thesis
      by (subst join_blocks_run(5) [OF assms]) (simp_all add: hdr_put_nat [OF ed ad(5) [OF True] cd(3)] hdr_put_nat [OF cd])
  qed (subst join_blocks_run(5) [OF assms], simp_all add: hdr_put_nat [OF cd])
qed

lemma free_left_hseg:
  fixes s :: "'a heap_state_scheme"
  assumes seg: "hseg (mem s) 0 a (xs @ (k, False) # ys) 0" and c: "c = a + blocks_len xs"
    and a: "0 < a" "a + blocks_len (xs @ (k, False) # ys) \<le> 4294967296"
    and na: "no_adjacent xs" "no_adjacent ((k, False) # ys)"
  shows "hseg (mem (free_left (of_nat c) s)) 0 a (coalesce (xs @ (k, False) # ys)) 0 \<and>
    payload_kept (live a (xs @ (k, False) # ys)) (mem s) (mem (free_left (of_nat c) s)) \<and>
    blk (free_left (of_nat c) s) (of_nat c) = blk s (of_nat c)"
proof -
  have hc: "blk s (of_nat c) = \<lparr>hb_magic = HEAP_MAGIC, hb_size = of_nat k, hb_used = False,
      hb_next = link (ys \<noteq> []) (c + 17 + k), hb_prev = last_addr 0 a xs\<rparr>"
    using hseg_block [OF seg c] by (simp add: link_def)
  consider (none) "xs = []" | (used) ws i where "xs = ws @ [(i, True)]" | (free) ws i where "xs = ws @ [(i, False)]"
    by (cases xs rule: rev_cases) auto
  then show ?thesis
  proof cases
    case none
    then have "free_left (of_nat c) s = s" by (simp add: free_left_def hc Let_def)
    with seg none na(2) show ?thesis by (simp add: coalesce_id)
  next
    case used
    have seg2: "hseg (mem s) 0 a (ws @ (i, True) # (k, False) # ys) 0" using seg used by simp
    have "hb_used (blk s (of_nat (a + blocks_len ws)))" using hseg_block [OF seg2 refl] by simp
    then have "free_left (of_nat c) s = s" using used by (simp add: free_left_def hc Let_def del: of_nat_add)
    moreover have "coalesce (xs @ (k, False) # ys) = xs @ (k, False) # ys"
      using used na by (intro coalesce_id) (auto simp: no_adjacent_append)
    ultimately show ?thesis using seg by simp
  next
    case free
    let ?b = "a + blocks_len ws"
    have seg2: "hseg (mem s) 0 a (ws @ (i, False) # (k, False) # ys) 0" using seg free by simp
    have hb: "blk s (of_nat ?b) = \<lparr>hb_magic = HEAP_MAGIC, hb_size = of_nat i, hb_used = False, hb_next = of_nat c, hb_prev = last_addr 0 a ws\<rparr>"
      using hseg_block [OF seg2 refl] by (simp add: c free ac_simps)
    have cb: "c = ?b + 17 + i" using c free by simp
    have e17: "ys \<noteq> [] \<Longrightarrow> c + 17 + k + 17 \<le> 4294967296" using a(2) c by (cases ys) auto
    have hc2: "blk s (of_nat c) = \<lparr>hb_magic = HEAP_MAGIC, hb_size = of_nat k, hb_used = False,
      hb_next = link (ys \<noteq> []) (c + 17 + k), hb_prev = of_nat ?b\<rparr>" using hc free by (simp del: of_nat_add)
    have t: "free_left (of_nat c) s = join_blocks (of_nat ?b) (of_nat c) s"
      using a c by (intro free_left_eq [OF hb hc2 cb refl _ _ e17]) auto
    have len: "a + blocks_len (ws @ (i, False) # (k, False) # ys) \<le> 4294967296" using a(2) free by simp
    note jn = join_hseg [OF seg2 refl cb a(1) len]
    have ws: "no_adjacent ws" "ws = [] \<or> snd (last ws)" using na(1) free by (auto simp: no_adjacent_append)
    have "no_adjacent ((i + 17 + k, False) # ys)" using na(2) by (auto simp: no_adjacent_Cons)
    then have "coalesce (xs @ (k, False) # ys) = ws @ (i + 17 + k, False) # ys"
      using coalesce_append [OF ws, of "(i, False) # (k, False) # ys"] by (simp add: free coalesce_id)
    moreover have "payload_kept (live a (xs @ (k, False) # ys)) (mem s) (mem (free_left (of_nat c) s))"
      unfolding payload_kept_def
    proof (intro ballI allI impI, clarify)
      fix x l and v :: u32 assume lv: "(x, l) \<in> live a (xs @ (k, False) # ys)" and v: "x \<le> unat v" "unat v < x + l"
      have "(x, l) \<in> live a (ws @ (i, False) # (k, False) # ys)" using lv free by simp
      from live_outside_free [OF this v, of ?b] have "off_header ?b v" by simp
      moreover have "off_header (c + 17 + k) v" if "ys \<noteq> []"
        by (rule live_off_header [OF lv _ v]) (use that c in \<open>cases ys; auto simp: ac_simps\<close>)
      ultimately show "mem (free_left (of_nat c) s) v = mem s v" unfolding t by (intro jn(2)) auto
    qed
    moreover have "blk (join_blocks (of_nat ?b) (of_nat c) s) (of_nat c) = blk s (of_nat c)"
    proof (rule join_blocks_right [OF hb _ _ cb refl _ _ e17])
      show "hb_size (blk s (of_nat c)) = of_nat k" "hb_next (blk s (of_nat c)) = link (ys \<noteq> []) (c + 17 + k)"
        unfolding hc by simp_all
    qed (use a c in simp_all)
    ultimately show ?thesis using jn(1) t by simp
  qed
qed

text \<open>Freeing a block in use: the list with the block marked free and neighbours joined.\<close>

lemma kfree_live:
  assumes inv: "heap_inv s bs" and lv: "(p, k) \<in> live HEAP bs"
  shows "\<exists>t. kfree (of_nat p) s = Ret () t \<and> heap_inv t (coalesce (mark_free p HEAP bs)) \<and> only_mem s t \<and>
    payload_kept (live HEAP bs - {(p, k)}) (mem s) (mem t) \<and>
    (let h = blk t (of_nat p - of_nat SIZEOF_heap_block) in hb_magic h = HEAP_MAGIC \<and> \<not> hb_used h)"
proof -
  from live_split [OF lv] obtain xs ys where *: "bs = xs @ (k, True) # ys" "p = HEAP + blocks_len xs + 17" by blast
  let ?c = "HEAP + blocks_len xs"
  note len = heap_len_bounds [OF inv]
  have init: "kmalloc_initalized s" "heap_size s = of_nat (blocks_len bs)" "no_adjacent bs" "bs \<noteq> []"
      "\<forall>b\<in>set bs. 8 \<le> fst b" "8 \<le> k"
    using inv * by (auto simp: heap_inv_def)
  have seg: "hseg (mem s) 0 HEAP (xs @ (k, True) # ys) 0" using len * by simp
  have lb: "HEAP + blocks_len (xs @ (k, w) # ys) \<le> 4294967296" for w using len(1) * by simp
  have up: "unat (of_nat p :: u32) = p" "unat (KERNEL_MALLOC + heap_size s) = HEAP + blocks_len bs"
    using * len(3) init(2) by (simp_all add: unat_of_nat_u32 unat_add_u32 del: of_nat_add)
  have range: "KERNEL_MALLOC \<le> of_nat p" "of_nat p < KERNEL_MALLOC + heap_size s"
    using up * init(6) by (simp_all add: u32_le_iff u32_less_iff del: of_nat_add)
  have blk: "of_nat p - of_nat SIZEOF_heap_block = (of_nat ?c :: u32)" by (simp add: * SIZEOF_heap_block_def)
  have h: "hb_magic (blk s (of_nat ?c)) = HEAP_MAGIC" "hb_used (blk s (of_nat ?c))"
    using hseg_block [OF seg refl] by (simp_all del: of_nat_add)
  define s1 where "s1 = put_used (of_nat ?c) False s"
  define s2 where "s2 = free_right (of_nat ?c) s1"
  define t where "t = free_left (of_nat ?c) s2"
  have run: "kfree (of_nat p) s = Ret () t"
    using kfree_eq [OF init(1) range] h unfolding blk t_def s2_def s1_def by blast
  have seg1: "hseg (mem s1) 0 HEAP (xs @ (k, False) # ys) 0" unfolding s1_def by (rule set_used_hseg [OF seg refl lb])
  have na: "no_adjacent xs" "no_adjacent ys" using init(3) by (auto simp: * no_adjacent_append no_adjacent_Cons)
  from free_right_hseg [OF seg1 refl _ lb na(2)] obtain k' zs where
    seg2: "hseg (mem s2) 0 HEAP (xs @ (k', False) # zs) 0" and zs: "(k', False) # zs = coalesce ((k, False) # ys)"
    and l2: "blocks_len ((k', False) # zs) = blocks_len ((k, False) # ys)"
    and keep2: "payload_kept (live HEAP (xs @ (k, False) # ys)) (mem s1) (mem s2)"
    by (auto simp: s2_def)
  have na2: "no_adjacent ((k', False) # zs)" unfolding zs by simp
  have lb2: "HEAP + blocks_len (xs @ (k', False) # zs) \<le> 4294967296" using lb [of False] l2 by simp
  from free_left_hseg [OF seg2 refl _ lb2 na(1) na2]
  have seg3: "hseg (mem t) 0 HEAP (coalesce (xs @ (k', False) # zs)) 0"
    and keep3: "payload_kept (live HEAP (xs @ (k', False) # zs)) (mem s2) (mem t)"
    and stays: "blk t (of_nat ?c) = blk s2 (of_nat ?c)" by (auto simp: t_def)
  have "let h = blk t (of_nat p - of_nat SIZEOF_heap_block) in hb_magic h = HEAP_MAGIC \<and> \<not> hb_used h"
    unfolding blk stays using hseg_block [OF seg2 refl] by (simp add: Let_def del: of_nat_add)
  note freed = this
  have marked: "mark_free p HEAP bs = xs @ (k, False) # ys" using * by (simp add: mark_free_at)
  have co: "coalesce (xs @ (k', False) # zs) = coalesce (xs @ (k, False) # ys)"
  proof (cases "xs = [] \<or> snd (last xs)")
    case True
    then show ?thesis by (simp only: coalesce_append [OF na(1)] zs) (simp add: coalesce_id)
  next
    case False
    then obtain ws i where xs: "xs = ws @ [(i, False)]" by (cases xs rule: rev_cases) auto
    then have ws: "no_adjacent ws" "ws = [] \<or> snd (last ws)" using na(1) by (auto simp: no_adjacent_append)
    have "coalesce ((i + 17 + k', False) # zs) = coalesce ((i + 17 + k, False) # ys)"
    proof (cases ys)
      case Nil
      then show ?thesis using zs by simp
    next
      case (Cons y vs)
      obtain j w where y: "y = (j, w)" by fastforce
      have "no_adjacent vs" using na(2) Cons by (auto simp: no_adjacent_Cons)
      then show ?thesis using zs na(2) Cons y
        by (cases w) (auto simp: coalesce_id no_adjacent_Cons ac_simps)
    qed
    then show ?thesis using coalesce_append [OF ws] by (simp add: xs)
  qed
  have om: "only_mem s t" by (simp add: t_def s2_def s1_def)
  have "live HEAP bs - {(p, k)} = live HEAP (xs @ (k, False) # ys)"
    using live_mark_free [OF lv] marked by simp
  moreover have "live HEAP (xs @ (k', False) # zs) = live HEAP (xs @ (k, False) # ys)"
    by (metis co coalesce_live)
  moreover have "payload_kept (live HEAP (xs @ (k, False) # ys)) (mem s) (mem s1)"
    unfolding payload_kept_def
  proof (intro ballI allI impI, clarify)
    fix x l and v :: u32 assume lv: "(x, l) \<in> live HEAP (xs @ (k, False) # ys)" and v: "x \<le> unat v" "unat v < x + l"
    have "off_header ?c v" using live_outside_free [OF lv v, of ?c] by simp
    then show "mem s1 v = mem s v" unfolding s1_def using lb [of False] by (intro put_outside(3)) auto
  qed
  ultimately have "payload_kept (live HEAP bs - {(p, k)}) (mem s) (mem t)"
    using keep2 keep3 by (auto intro: payload_kept_trans)
  moreover have "\<forall>b\<in>set (coalesce (mark_free p HEAP bs)). 8 \<le> fst b"
    using init(5) unfolding marked by (intro coalesce_big) (auto simp: *)
  moreover have "hseg (mem t) 0 HEAP (coalesce (mark_free p HEAP bs)) 0" using seg3 unfolding marked co .
  with inv init(4) \<open>\<forall>b\<in>set (coalesce (mark_free p HEAP bs)). 8 \<le> fst b\<close> have "heap_inv t (coalesce (mark_free p HEAP bs))"
    unfolding heap_inv_def only_mem_heap [OF om] by simp
  ultimately show ?thesis using run om freed by blast
qed

end
