(* ===== verification/Heap_Clients.thy ===== *)
theory Heap_Clients
  imports Heap
begin

unbundle bit_operations_syntax

text \<open>
  The heap of \<^verbatim>\<open>MM/heap.c\<close> seen as a whole: growing it through \<^verbatim>\<open>mem_map_page\<close>, the laws of a buffer
  allocator that it satisfies (the locale \<open>buffer_allocator\<close>, interpreted on \<^verbatim>\<open>kmalloc\<close> and
  \<^verbatim>\<open>kfree\<close>), runs of a kernel that allocates, writes and frees (\<open>heap_run\<close>), and the properties.
\<close>

section \<open>Growing the heap\<close>

text \<open>What the page-frame allocator and the mapping functions leave alone: memory, and the variables
  of the components above them.\<close>

definition mm_frame :: "'a mm_state_scheme \<Rightarrow> 'a mm_state_scheme \<Rightarrow> bool" where
  "mm_frame s t \<longleftrightarrow> mem t = mem s \<and> mm_state.more t = mm_state.more s"

lemma mm_frame_refl [simp, intro]: "mm_frame s s"
  by (simp add: mm_frame_def)

lemma mm_frame_trans: "mm_frame s t \<Longrightarrow> mm_frame t u \<Longrightarrow> mm_frame s u"
  by (simp add: mm_frame_def)

lemma mm_frame_upd [simp]:
  "mm_frame s (t\<lparr>pmem := a\<rparr>) = mm_frame s t" "mm_frame s (t\<lparr>tlb_flushes := b\<rparr>) = mm_frame s t"
  "mm_frame s (t\<lparr>mem_num_vpages := c\<rparr>) = mm_frame s t" "mm_frame s (t\<lparr>cr3 := d\<rparr>) = mm_frame s t"
  "mm_frame s (t\<lparr>total_alloc := e\<rparr>) = mm_frame s t" "mm_frame s (t\<lparr>physical_memory_bitmap := f\<rparr>) = mm_frame s t"
  by (simp_all add: mm_frame_def)

abbreviation "framed s r \<equiv> keeps (mm_frame s) r"

lemma framed_bind: "framed s r \<Longrightarrow> (\<And>v t. mm_frame s t \<Longrightarrow> framed s (f v t)) \<Longrightarrow> framed s (bind r f)"
  by (rule keeps_bind)

lemma framed_if: "(b \<Longrightarrow> framed s r) \<Longrightarrow> (\<not> b \<Longrightarrow> framed s r') \<Longrightarrow> framed s (if b then r else r')"
  by simp

lemma framed_Ret: "mm_frame s t \<Longrightarrow> framed s (Ret v t)"
  by simp

lemma framed_pmm_scan: "mm_frame s t \<Longrightarrow> framed s (pmm_scan n f t)"
  by (induction n arbitrary: f) (auto simp: Let_def)

lemma framed_steps:
  "mm_frame s t \<Longrightarrow> framed s (pmm_alloc_page_frame t)"
  "mm_frame s t \<Longrightarrow> framed s (pmm_free_page_frame a t)"
  "mm_frame s t \<Longrightarrow> framed s (vread va t)"
  "mm_frame s t \<Longrightarrow> framed s (vwrite va w t)"
  by (auto simp: pmm_alloc_page_frame_def pmm_free_page_frame_def framed_pmm_scan Let_def vread_def vwrite_def
      split: option.splits)

lemma framed_for_each:
  "mm_frame s t \<Longrightarrow> (\<And>i u. mm_frame s u \<Longrightarrow> framed s (c i u)) \<Longrightarrow> framed s (for_each is c t)"
  by (rule ensures_for_each)

lemma framed_map_entry: "mm_frame s t \<Longrightarrow> framed s (mem_map_entry virt phys fl t)"
  unfolding mem_map_entry_def Let_def
  by (intro framed_bind framed_steps framed_for_each framed_if framed_Ret; simp add: invalidate_def)

lemma framed_map_page: "mm_frame s t \<Longrightarrow> framed s (mem_map_page virt phys fl t)"
  unfolding mem_map_page_def split_beta Let_def
  by (intro framed_bind framed_map_entry)
    (auto simp: enter_kernel_dir_def leave_kernel_dir_def mem_change_page_dir_def sync_page_dirs_def Let_def)

lemma mm_frame_heap:
  fixes s t :: "'a heap_state_scheme"
  assumes "mm_frame s t"
  shows "kmalloc_initalized t = kmalloc_initalized s" "heap_start t = heap_start s" "heap_head t = heap_head s"
    "heap_size t = heap_size s" "mem t = mem s"
  using assms by (cases s; cases t; simp add: mm_frame_def)+

lemma framed_map_heap_page: "mm_frame s t \<Longrightarrow> framed s (map_heap_page old i t)"
  unfolding map_heap_page_def
  by (intro framed_bind framed_steps framed_if framed_map_page) (simp_all add: kernel_panic_def)

lemma sint_small: "unat (x :: u32) < 2147483648 \<Longrightarrow> sint x = int (unat x)"
proof -
  assume "unat x < 2147483648"
  then have "uint x < 2147483648" unfolding uint_nat by linarith
  then have hi: "uint x < 2 ^ 31" by simp
  have "- (2 ^ 31) \<le> (0 :: int)" by simp
  then have "- (2 ^ 31) \<le> uint x" using uint_ge_0 by (rule order_trans)
  with hi have "signed_take_bit 31 (uint x) = uint x" by (intro signed_take_bit_int_eq_self)
  then show ?thesis by (simp add: sint_uint)
qed

lemma sdiv_nonneg: "0 \<le> (a :: int) \<Longrightarrow> a sdiv 4096 = a div 4096"
  by (cases "a = 0") (simp_all add: signed_divide_int_def)

text \<open>The new top of the heap, for a size that is a whole number of pages.\<close>

lemma new_top:
  assumes "unat new < 2147483648" "unat new mod 4096 = 0"
  shows "(sint new + 0x1000 - 1) sdiv 0x1000 = int (unat new div 4096)"
    and "of_int (int (unat new div 4096)) * 0x1000 = (new :: u32)"
proof -
  from assms(2) obtain q where q: "unat new = q * 4096" by (auto elim: dvdE simp: mod_eq_0_iff_dvd)
  have "sint new = int q * 4096" unfolding sint_small [OF assms(1)] q by simp
  then have "(sint new + 0x1000 - 1) sdiv 0x1000 = (int q * 4096 + 4095) div 4096" by (subst sdiv_nonneg) simp_all
  then show "(sint new + 0x1000 - 1) sdiv 0x1000 = int (unat new div 4096)" by (simp add: q)
  have "of_nat (q * 4096) = new" unfolding q [symmetric] by simp
  then show "of_int (int (unat new div 4096)) * 0x1000 = new" by (simp add: q)
qed

text \<open>When it returns, \<^verbatim>\<open>change_heap_size\<close> has set the size and left memory and the other variables of
  the heap alone.\<close>

lemma change_heap_size_returns:
  fixes s t :: "'a heap_state_scheme"
  assumes run: "change_heap_size new s = Ret v t" and new: "unat new < 2147483648" "unat new mod 4096 = 0"
  shows "kmalloc_initalized t = kmalloc_initalized s" "heap_start t = heap_start s" "heap_head t = heap_head s"
    "heap_size t = new" "mem t = mem s"
proof -
  let ?old = "sint (CEIL_DIV (heap_size s) 0x1000)"
  let ?is = "[0..<nat (int (unat new div 4096) - ?old)]"
  obtain u where u: "for_each ?is (map_heap_page ?old) s = Ret () u" "t = u\<lparr>heap_size := new\<rparr>"
    using run unfolding change_heap_size_def Let_def new_top [OF new] by auto
  have "framed s (for_each ?is (map_heap_page ?old) s)"
    by (intro framed_for_each framed_map_heap_page) simp
  from ensuresD [OF this u(1)] have "mm_frame s u" .
  from mm_frame_heap [OF this] show "kmalloc_initalized t = kmalloc_initalized s" "heap_start t = heap_start s"
    "heap_head t = heap_head s" "heap_size t = new" "mem t = mem s" by (simp_all add: u(2))
qed

text \<open>By how much the code grows the heap: whole multiples of \<^verbatim>\<open>HEAP_THRESHOLD\<close>, less what the last
  block contributes when it is free.\<close>

definition expand :: "nat \<Rightarrow> blocks \<Rightarrow> nat" where
  "expand n bs = ((n + 17 - (if snd (last bs) then 0 else fst (last bs))) + 65535) div 65536 * 65536"

lemma grow_blocks_snoc:
  "grow_blocks e (xs @ [(k, w)]) = (if w then xs @ [(k, w), (e - 17, False)] else xs @ [(k + e, False)])"
proof (induction xs)
  case (Cons x xs)
  then show ?case by (cases "xs @ [(k, w)]") auto
qed auto

lemma alloc_blocks_at:
  "\<forall>b\<in>set xs. unfit n b \<Longrightarrow> n \<le> m \<Longrightarrow>
    alloc_blocks n a (xs @ (m, False) # ys) = Some (a + blocks_len xs + 17, xs @ split_sizes n m @ ys)"
  by (induction xs arbitrary: a) (auto simp: ac_simps)

lemma expand_word:
  assumes "0 < T" "T \<le> 0x80000000"
  shows "CEIL_DIV (of_nat T) HEAP_THRESHOLD * HEAP_THRESHOLD = of_nat ((T + 65535) div 65536 * 65536)"
    and "CEIL_DIV (of_nat T) HEAP_THRESHOLD * HEAP_THRESHOLD \<noteq> 0"
    and "T \<le> (T + 65535) div 65536 * 65536" "(T + 65535) div 65536 * 65536 mod 4096 = 0"
    and "17 < T \<Longrightarrow> 65536 \<le> (T + 65535) div 65536 * 65536"
proof -
  let ?e = "(T + 65535) div 65536 * 65536"
  have le: "T \<le> ?e" "?e \<le> T + 65535" by linarith+
  then show "T \<le> ?e" by simp
  have uT: "unat (of_nat T :: u32) = T" using assms by (simp add: unat_of_nat_u32)
  have add: "of_nat T + 0x10000 - 1 = (of_nat (T + 65535) :: u32)" by simp
  have "unat (of_nat (T + 65535) div 0x10000 :: u32) = (T + 65535) div 65536"
    using assms by (simp add: unat_div unat_of_nat_u32 del: of_nat_add)
  then have "of_nat (T + 65535) div 0x10000 = (of_nat ((T + 65535) div 65536) :: u32)"     using assms by (intro u32_eqI) (simp add: unat_of_nat_u32 del: of_nat_add)
  then show eq: "CEIL_DIV (of_nat T) HEAP_THRESHOLD * HEAP_THRESHOLD = of_nat ?e"
    unfolding CEIL_DIV_def HEAP_THRESHOLD_def add by simp
  have "unat (of_nat ?e :: u32) = ?e" using le assms by (intro unat_of_nat_u32) linarith
  then have "(of_nat ?e :: u32) \<noteq> 0" using le assms by (metis not_le unat_0)
  then show "CEIL_DIV (of_nat T) HEAP_THRESHOLD * HEAP_THRESHOLD \<noteq> 0" unfolding eq .
  have "(65536 :: nat) dvd ?e" by simp
  then have "(4096 :: nat) dvd ?e" by (rule dvd_trans [rotated]) simp
  then show "?e mod 4096 = 0" by (simp add: mod_eq_0_iff_dvd)
  show "17 < T \<Longrightarrow> 65536 \<le> ?e"
  proof -
    assume "17 < T"
    then have "1 \<le> (T + 65535) div 65536" by simp
    then show "65536 \<le> ?e" by simp
  qed
qed

text \<open>The new block is linked behind the last one.\<close>

lemma link_new_block:
  fixes s :: "'a heap_state_scheme"
  assumes seg: "hseg (mem s) 0 HEAP (xs @ [(k, w)]) 0" and len: "HEAP + blocks_len (xs @ [(k, w)]) + 17 + j \<le> 4294967296"
  defines "L \<equiv> HEAP + blocks_len xs" and "D \<equiv> HEAP + blocks_len (xs @ [(k, w)])"
  defines "t \<equiv> put_next (of_nat L) (of_nat D) (put_prev (of_nat D) (of_nat L) (put_next (of_nat D) 0
    (put_used (of_nat D) False (put_size (of_nat D) (of_nat j) (put_magic (of_nat D) HEAP_MAGIC s)))))"
  shows "hseg (mem t) 0 HEAP (xs @ [(k, w), (j, False)]) 0"
    and "payload_kept (live HEAP (xs @ [(k, w)])) (mem s) (mem t)"
proof -
  have D: "D = L + 17 + k" by (simp add: L_def D_def)
  have bd: "L + 17 \<le> 4294967296" "D + 17 \<le> 4294967296" using len D by (simp_all add: D_def)
  have other: "blk t (of_nat x) = blk s (of_nat x)" if "x + 17 \<le> L" for x
  proof -
    have "L + 17 \<le> x \<or> x + 17 \<le> L" "D + 17 \<le> x \<or> x + 17 \<le> D" "x + 17 \<le> 4294967296" using that D bd by auto
    then show ?thesis unfolding t_def using bd by (simp add: hdr_put_nat)
  qed
  have DL: "D + 17 \<le> L \<or> L + 17 \<le> D" using D by simp
  have "blk t (of_nat L) = (blk s (of_nat L))\<lparr>hb_next := of_nat D\<rparr>"
    unfolding t_def by (simp add: hdr_put_nat [OF DL bd(2,1)])
  moreover have "blk s (of_nat L) = \<lparr>hb_magic = HEAP_MAGIC, hb_size = of_nat k, hb_used = w, hb_next = 0, hb_prev = last_addr 0 HEAP xs\<rparr>"
    using hseg_block [of "mem s" 0 HEAP xs k w "[]"] seg by (simp add: L_def del: of_nat_add)
  moreover have "blk t (of_nat D) = \<lparr>hb_magic = HEAP_MAGIC, hb_size = of_nat j, hb_used = False, hb_next = 0, hb_prev = of_nat L\<rparr>"
  proof -
    have "L + 17 \<le> D \<or> D + 17 \<le> L" using D by simp
    then show ?thesis by (simp add: t_def hdr_put_nat(4) [OF _ bd])
  qed
  moreover have "hseg (mem t) 0 HEAP xs (of_nat L) = hseg (mem s) 0 HEAP xs (of_nat L)"
    by (rule hseg_cong, rule other) (use block_addrs_range [of _ HEAP xs] in \<open>auto simp: L_def\<close>)
  moreover have "hseg (mem s) 0 HEAP xs (of_nat L)" using seg by (simp add: hseg_append L_def)
  moreover have "HEAP + blocks_len xs = L" "HEAP + blocks_len xs + 17 + k = D" by (simp_all add: L_def D)
  ultimately show "hseg (mem t) 0 HEAP (xs @ [(k, w), (j, False)]) 0"
    by (simp add: hseg_append D del: of_nat_add)
  show "payload_kept (live HEAP (xs @ [(k, w)])) (mem s) (mem t)"
    unfolding payload_kept_def
  proof (intro ballI allI impI, clarify)
    fix x l and v :: u32 assume lv: "(x, l) \<in> live HEAP (xs @ [(k, w)])" and v: "x \<le> unat v" "unat v < x + l"
    have "off_header L v" by (rule live_off_header [OF lv _ v]) (simp add: L_def)
    moreover have "off_header D v" using live_range [OF lv] v by (simp add: off_header_def D_def)
    ultimately show "mem t v = mem s v" using bd by (simp add: t_def put_outside)
  qed
qed

text \<open>The amount by which \<^verbatim>\<open>kmalloc\<close> asks to grow.\<close>

lemma kmalloc_expand:
  assumes inv: "heap_inv s bs" and none: "\<forall>b\<in>set bs. unfit n b" and n: "8 \<le> n" "n \<le> 0x2FC00000"
  obtains xs k w where "bs = xs @ [(k, w)]" "w \<or> k < n" "(of_nat (HEAP + blocks_len xs) :: u32) \<noteq> 0"
    "last_addr 0 HEAP bs = of_nat (HEAP + blocks_len xs)"
    "blk s (of_nat (HEAP + blocks_len xs)) =
       \<lparr>hb_magic = HEAP_MAGIC, hb_size = of_nat k, hb_used = w, hb_next = 0, hb_prev = last_addr 0 HEAP xs\<rparr>"
    "(let total = of_nat n + of_nat 17;
          total = (if of_nat (HEAP + blocks_len xs) \<noteq> (0 :: u32) \<and> \<not> w
            then if total > of_nat k then total - of_nat k else 0 else total);
          e = CEIL_DIV total HEAP_THRESHOLD * HEAP_THRESHOLD
      in if e = 0 then HEAP_THRESHOLD else e) = of_nat (expand n bs)"
    "n + 17 \<le> k + expand n bs \<or> w" "w \<Longrightarrow> n + 17 \<le> expand n bs"
    "expand n bs mod 4096 = 0" "65536 \<le> expand n bs"
proof -
  obtain xs k w where bs: "bs = xs @ [(k, w)]" using inv by (cases bs rule: rev_cases) (auto simp: heap_inv_def)
  let ?L = "HEAP + blocks_len xs" and ?T = "n + 17 - (if w then 0 else k)"
  note len = heap_len_bounds [OF inv]
  have fit: "w \<or> k < n" using none bs by auto
  have T: "17 < ?T" "?T \<le> 0x80000000" using fit n by (auto split: if_splits)
  have ee: "expand n bs = (?T + 65535) div 65536 * 65536" by (simp add: expand_def bs)
  note ex = expand_word [OF _ T(2), folded ee]
  have seg: "hseg (mem s) 0 HEAP (xs @ [(k, w)]) 0" using len(2) bs by simp
  have hL: "blk s (of_nat ?L) = \<lparr>hb_magic = HEAP_MAGIC, hb_size = of_nat k, hb_used = w, hb_next = 0, hb_prev = last_addr 0 HEAP xs\<rparr>"
    using hseg_block [of "mem s" 0 HEAP xs k w "[]"] seg by (simp del: of_nat_add)
  have Lnz: "(of_nat ?L :: u32) \<noteq> 0" using link_zero [of ?L True] len(3) bs by (simp add: link_def)
  have prev: "last_addr 0 HEAP bs = of_nat ?L" by (simp add: bs del: of_nat_add)
  have sz: "of_nat n + of_nat 17 = (of_nat (n + 17) :: u32)" by simp
  have total: "(if of_nat ?L \<noteq> (0 :: u32) \<and> \<not> w then if (of_nat (n + 17) :: u32) > of_nat k then of_nat (n + 17) - of_nat k else 0
       else of_nat (n + 17)) = (of_nat ?T :: u32)"
  proof (cases w)
    case False
    then have "k < n" using fit by simp
    then have "(of_nat k :: u32) < of_nat (n + 17)" using n by (simp add: u32_less_iff unat_of_nat_u32 del: of_nat_add)
    moreover have "(of_nat (n + 17) - of_nat k :: u32) = of_nat (n + 17 - k)" using \<open>k < n\<close> by (simp add: of_nat_diff)
    ultimately show ?thesis using False Lnz by simp
  qed simp
  have ew: "CEIL_DIV (of_nat ?T) HEAP_THRESHOLD * HEAP_THRESHOLD = of_nat (expand n bs)" "(of_nat (expand n bs) :: u32) \<noteq> 0"
    using ex(1,2) T(1) by auto
  show thesis
  proof (rule that [OF bs fit Lnz prev hL])
    show "(let total = of_nat n + of_nat 17;
          total = (if of_nat ?L \<noteq> (0 :: u32) \<and> \<not> w then if total > of_nat k then total - of_nat k else 0 else total);
          e = CEIL_DIV total HEAP_THRESHOLD * HEAP_THRESHOLD
      in if e = 0 then HEAP_THRESHOLD else e) = of_nat (expand n bs)"
      unfolding Let_def sz total ew(1) if_not_P [OF ew(2)] ..
    show "expand n bs mod 4096 = 0" "65536 \<le> expand n bs" using ex(4,5) T(1) by auto
    have "?T \<le> expand n bs" using ex(3) T(1) by linarith
    then show "n + 17 \<le> k + expand n bs \<or> w" "w \<Longrightarrow> n + 17 \<le> expand n bs"
      by (cases w; simp; linarith)+
  qed
qed

lemma kmalloc_grow_unfold:
  assumes inv: "heap_inv s bs" and none: "\<forall>b\<in>set bs. unfit n b" and n: "8 \<le> n" "n \<le> 0x2FC00000"
  shows "kmalloc_grow (of_nat n) (last_addr 0 HEAP bs) s =
    bind (change_heap_size (heap_size s + of_nat (expand n bs)) s) (kmalloc_place (of_nat n) (last_addr 0 HEAP bs) (heap_size s))"
proof -
  from kmalloc_expand [OF assms] obtain xs k w where x: "last_addr 0 HEAP bs = of_nat (HEAP + blocks_len xs)"
    "blk s (of_nat (HEAP + blocks_len xs)) =
       \<lparr>hb_magic = HEAP_MAGIC, hb_size = of_nat k, hb_used = w, hb_next = 0, hb_prev = last_addr 0 HEAP xs\<rparr>"
    "(let total = of_nat n + of_nat 17;
          total = (if of_nat (HEAP + blocks_len xs) \<noteq> (0 :: u32) \<and> \<not> w
            then if total > of_nat k then total - of_nat k else 0 else total);
          e = CEIL_DIV total HEAP_THRESHOLD * HEAP_THRESHOLD
      in if e = 0 then HEAP_THRESHOLD else e) = of_nat (expand n bs)" by metis
  show ?thesis
    using x(3) unfolding kmalloc_grow_def Let_def SIZEOF_heap_block_def x(1,2) heap_block.select_convs by (simp only:)
qed

lemma kmalloc_grow_heap_inv:
  fixes s u :: "'a heap_state_scheme"
  assumes inv: "heap_inv s bs" and none: "\<forall>b\<in>set bs. unfit n b" and n: "8 \<le> n" "n \<le> 0x2FC00000"
    and room: "unat (heap_size s) + expand n bs \<le> 0x2FC00000"
    and u: "change_heap_size (heap_size s + of_nat (expand n bs)) s = Ret () u"
  shows "\<exists>p cs t. kmalloc_grow (of_nat n) (last_addr 0 HEAP bs) s = Ret (of_nat p) t \<and>
    alloc_blocks n HEAP (grow_blocks (expand n bs) bs) = Some (p, cs) \<and> heap_inv t cs \<and> only_mem u t \<and>
    payload_kept (live HEAP bs) (mem s) (mem t)"
proof -
  define e where "e = expand n bs"
  from kmalloc_expand [OF inv none n, folded e_def] obtain xs k w where bs: "bs = xs @ [(k, w)]" and fit: "w \<or> k < n"
      and Lnz: "(of_nat (HEAP + blocks_len xs) :: u32) \<noteq> 0" and prev: "last_addr 0 HEAP bs = of_nat (HEAP + blocks_len xs)"
      and mono: "n + 17 \<le> k + e \<or> w" "w \<Longrightarrow> n + 17 \<le> e" and eT: "e mod 4096 = 0" "65536 \<le> e"
    by metis
  let ?L = "HEAP + blocks_len xs" and ?D = "HEAP + blocks_len bs"
  have D: "?D = ?L + 17 + k" by (simp add: bs)
  note len = heap_len_bounds [OF inv]
  have i: "kmalloc_initalized s" "heap_start s = KERNEL_MALLOC" "heap_head s = KERNEL_MALLOC"
      "heap_size s = of_nat (blocks_len bs)" "no_adjacent bs" "\<forall>b\<in>set bs. 8 \<le> fst b"
      "blocks_len bs = unat (heap_size s)" "unat (heap_size s) mod 4096 = 0"
    using inv by (auto simp: heap_inv_def)
  have small: "blocks_len bs + e \<le> 0x2FC00000" using room i(7) by (simp add: e_def)
  have seg: "hseg (mem s) 0 HEAP (xs @ [(k, w)]) 0" using len(2) bs by simp
  have new: "unat (heap_size s + of_nat e) = blocks_len bs + e" using small i(7)
    by (simp add: unat_add_u32 unat_of_nat_u32)
  have "unat (heap_size s + of_nat e) mod 4096 = 0" unfolding new i(7) using i(8) eT(1) by (simp add: mod_eq_0_iff_dvd)
  from change_heap_size_returns [OF u [folded e_def] _ this] new small
  have u': "kmalloc_initalized u" "heap_start u = KERNEL_MALLOC" "heap_head u = KERNEL_MALLOC"
      "heap_size u = heap_size s + of_nat e" "mem u = mem s" using i(1-3) by simp_all
  have nb: "heap_start u + heap_size s = of_nat ?D" using u'(2) i(4) by simp
  have ns: "heap_size u - heap_size s - of_nat 17 = of_nat (e - 17)" using u'(4) eT(2) by simp
  define v where "v = put_next (of_nat ?L) (of_nat ?D) (put_prev (of_nat ?D) (of_nat ?L) (put_next (of_nat ?D) 0
    (put_used (of_nat ?D) False (put_size (of_nat ?D) (of_nat (e - 17)) (put_magic (of_nat ?D) HEAP_MAGIC u)))))"
  have lb: "HEAP + blocks_len (xs @ [(k, w)]) + 17 + (e - 17) \<le> 4294967296" using small bs eT(2) by simp
  note lnk = link_new_block [of u, unfolded u'(5), OF seg lb, folded bs, folded v_def]
  have usedL: "hb_used (blk v (of_nat ?L)) = w" using hseg_block [of "mem v" 0 HEAP xs k w] lnk(1) by (simp del: of_nat_add)
  define nbs :: "u32 \<times> 'a heap_state_scheme" where "nbs = (if w then (of_nat ?D, v) else (of_nat ?L, join_blocks (of_nat ?L) (of_nat ?D) v))"
  have pm: "heap_size (put_magic a x u) = heap_size u" for a x by (simp add: put_magic_def)
  have run: "kmalloc_grow (of_nat n) (last_addr 0 HEAP bs) s = Ret (fst nbs + of_nat 17) (take_block (fst nbs) (of_nat n) (snd nbs))"
    unfolding kmalloc_grow_unfold [OF inv none n]
    unfolding u bind.simps kmalloc_place_def Let_def SIZEOF_heap_block_def prev nb pm ns
    using Lnz usedL by (simp add: v_def [symmetric] nbs_def del: of_nat_add of_nat_diff)
  have lv: "live HEAP (grow_blocks e bs) = live HEAP bs"
    by (simp add: bs grow_blocks_snoc live_append)
  obtain ys c m where g: "grow_blocks e bs = ys @ [(m, False)]" "c = HEAP + blocks_len ys" "n \<le> m" "fst nbs = of_nat c"
      "\<forall>b\<in>set ys. unfit n b" "hseg (mem (snd nbs)) 0 HEAP (ys @ (m, False) # []) 0"
      "payload_kept (live HEAP bs) (mem s) (mem (snd nbs))" "only_mem u (snd nbs)" "blocks_len (ys @ [(m, False)]) = blocks_len bs + e"
      "no_adjacent (ys @ [(m, False)])" "\<forall>b\<in>set (ys @ [(m, False)]). 8 \<le> fst b"
  proof (cases w)
    case True
    show thesis
    proof (rule that [of bs "e - 17" ?D])
      show "grow_blocks e bs = bs @ [(e - 17, False)]" using True by (simp add: bs grow_blocks_snoc)
      show "hseg (mem (snd nbs)) 0 HEAP (bs @ (e - 17, False) # []) 0" using lnk(1) True by (simp add: nbs_def bs)
      show "payload_kept (live HEAP bs) (mem s) (mem (snd nbs))" using lnk(2) True by (simp add: nbs_def)
      show "only_mem u (snd nbs)" using True by (simp add: nbs_def v_def)
      show "blocks_len (bs @ [(e - 17, False)]) = blocks_len bs + e" using eT(2) by simp
      show "no_adjacent (bs @ [(e - 17, False)])" using i(5) True by (auto simp: bs no_adjacent_append)
      show "\<forall>b\<in>set (bs @ [(e - 17, False)]). 8 \<le> fst b" using i(6) eT(2) by auto
    qed (use True mono none in \<open>auto simp: nbs_def\<close>)
  next
    case False
    have seg2: "hseg (mem v) 0 HEAP (xs @ (k, False) # (e - 17, False) # []) 0" using lnk(1) False by simp
    have lb2: "HEAP + blocks_len (xs @ (k, False) # (e - 17, False) # []) \<le> 4294967296" using small bs eT(2) by simp
    note jn = join_hseg [OF seg2 refl D _ lb2]
    have keep: "payload_kept (live HEAP bs) (mem v) (mem (join_blocks (of_nat ?L) (of_nat ?D) v))"
      unfolding payload_kept_def
    proof (intro ballI allI impI, clarify)
      fix x l and z :: u32 assume lv: "(x, l) \<in> live HEAP bs" and z: "x \<le> unat z" "unat z < x + l"
      have "off_header ?L z" by (rule live_off_header [OF lv _ z]) (simp add: bs)
      then show "mem (join_blocks (of_nat ?L) (of_nat ?D) v) z = mem v z" by (intro jn(2)) auto
    qed
    show thesis
    proof (rule that [of xs "k + e" ?L])
      show "grow_blocks e bs = xs @ [(k + e, False)]" using False by (simp add: bs grow_blocks_snoc)
      show "hseg (mem (snd nbs)) 0 HEAP (xs @ (k + e, False) # []) 0" using jn(1) False eT(2) by (simp add: nbs_def)
      show "payload_kept (live HEAP bs) (mem s) (mem (snd nbs))"
        using payload_kept_trans [OF lnk(2) keep] False by (simp add: nbs_def)
      show "only_mem u (snd nbs)" using False by (simp add: nbs_def v_def)
      show "blocks_len (xs @ [(k + e, False)]) = blocks_len bs + e" by (simp add: bs)
      show "no_adjacent (xs @ [(k + e, False)])" using i(5) False by (auto simp: bs no_adjacent_append)
      show "\<forall>b\<in>set (xs @ [(k + e, False)]). 8 \<le> fst b" using i(6) by (auto simp: bs)
    qed (use False mono none in \<open>auto simp: nbs_def bs\<close>)
  qed
  have lb3: "HEAP + blocks_len (ys @ (m, False) # []) \<le> 4294967296" using g(9) small by simp
  have al: "alloc_blocks n HEAP (grow_blocks e bs) = Some (c + 17, ys @ split_sizes n m @ [])"
    unfolding g(1) g(2) by (rule alloc_blocks_at) (use g in auto)
  let ?t = "take_block (of_nat c) (of_nat n) (snd nbs)"
  have om: "only_mem u ?t" using g(8) by simp
  have "hseg (mem ?t) 0 HEAP (ys @ split_sizes n m @ []) 0"
    by (rule take_block_hseg [OF g(6) g(3) g(2) _ lb3]) simp
  moreover note live_alloc(2-5) [OF al, unfolded g(1)]
  moreover have "unat (heap_size u) = blocks_len bs + e" using u'(4) new by simp
  moreover have "(blocks_len bs + e) mod 4096 = 0" using i(7,8) eT(1) by (simp add: mod_eq_0_iff_dvd)
  ultimately have "heap_inv ?t (ys @ split_sizes n m @ [])"
    using u' small g(9,10,11) n(1) unfolding heap_inv_def only_mem_heap [OF om] by simp
  moreover have "payload_kept (live HEAP bs) (mem (snd nbs)) (mem ?t)"
    using take_block_keeps [OF g(6) g(3) g(2) _ lb3] lv g(1) by simp
  ultimately show ?thesis
    using run al om payload_kept_trans [OF g(7)] g(4) unfolding e_def [symmetric]
    by (intro exI [of _ "c + 17"] exI [of _ "ys @ split_sizes n m @ []"] exI [of _ ?t]) simp
qed

section \<open>Buffers\<close>

text \<open>Writing inside a payload in use damages no header.\<close>

lemma hdr_store_apart:
  assumes "apart a (length ds) b 17" "ds \<noteq> []"
  shows "hdr (store_bytes a ds m) b = hdr m b"
proof -
  have sub: "apart a (length ds) (b + y) 4" if "unat y + 4 \<le> 17" for y
    using apart_sub [OF assms(1), of 0 "length ds" y 4] that assms(2) by simp
  have "apart a (length ds) (b + 8) 1"
    using apart_sub [OF assms(1), of 0 "length ds" 8 1] assms(2) by simp
  then have "store_bytes a ds m (b + 8) = m (b + 8)"
    by (intro store_bytes_outside) (simp add: apart_def)
  then show ?thesis
    using sub [of 0] by (simp add: hdr_def load32_store_bytes_apart sub)
qed

lemma payload_write:
  fixes s :: "'a heap_state_scheme"
  assumes inv: "heap_inv s bs" and lv: "(x, k) \<in> live HEAP bs" and fits: "i + length ds \<le> k"
  shows "heap_inv (s\<lparr>mem := store_bytes (of_nat (x + i)) ds (mem s)\<rparr>) bs"
    and "payload_kept (live HEAP bs - {(x, k)}) (mem s) (store_bytes (of_nat (x + i)) ds (mem s))"
proof -
  let ?m = "store_bytes (of_nat (x + i)) ds (mem s)"
  note len = heap_len_bounds [OF inv]
  have xr: "HEAP + 17 \<le> x" "x + k \<le> HEAP + blocks_len bs" using live_range [OF lv] by simp_all
  have "hdr ?m (of_nat c) = hdr (mem s) (of_nat c)" if c: "c \<in> set (block_addrs HEAP bs)" for c
  proof (cases "ds = []")
    case False
    have hr: "c + 17 \<le> HEAP + blocks_len bs" using block_addrs_range [OF c] by simp
    have "c + 17 \<le> x \<or> x + k \<le> c"
    proof (rule ccontr)
      assume no: "\<not> (c + 17 \<le> x \<or> x + k \<le> c)"
      define z where "z = max c x"
      have z: "x \<le> z" "z < x + k" "c \<le> z" "z < c + 17" using no fits False by (cases ds; auto simp: z_def)+
      have "unat (of_nat z :: u32) = z" using z(2) xr(2) len(3) by (intro unat_of_nat_u32) simp
      with live_off_header [OF lv c, of "of_nat z"] z show False by (simp add: off_header_def)
    qed
    then have "apart (of_nat (x + i)) (length ds) (of_nat c) 17"
      using apart_nat(1) [of "x + i" "length ds" c 17] apart_nat(2) [of c 17 "x + i" "length ds"] fits xr hr len(3) False
        length_greater_0_conv [of ds]
      by fastforce
    then show ?thesis using False by (intro hdr_store_apart) auto
  qed simp
  then have "hseg ?m 0 HEAP bs 0" using len(2) by (subst hseg_cong) auto
  then show "heap_inv (s\<lparr>mem := ?m\<rparr>) bs" using inv by (simp add: heap_inv_def)
  have "?m v = mem s v" if y: "(y, l) \<in> live HEAP bs" "(y, l) \<noteq> (x, k)" and v: "y \<le> unat v" "unat v < y + l" for y l v
  proof -
    have "unat v < x \<or> x + k \<le> unat v" using live_disjoint [OF y(1) lv] y(2) v by auto
    moreover have u: "unat (of_nat (x + i) :: u32) = x + i" if "ds \<noteq> []" using fits xr len(3) that
      by (intro unat_of_nat_u32) (cases ds; simp)
    ultimately have "length ds \<le> unat (v - of_nat (x + i))"
    proof (cases "ds = []")
      case False
      consider "unat v < x" | "x + k \<le> unat v" using \<open>unat v < x \<or> x + k \<le> unat v\<close> by blast
      then show ?thesis
      proof cases
        case 1
        then have "v \<noteq> of_nat (x + i)" using u [OF False] by force
        then have "unat (v - of_nat (x + i)) = 4294967296 - unat (of_nat (x + i) - v)" by (rule unat_diff_swap)
        moreover have "unat (of_nat (x + i) - v) = x + i - unat v"
          using 1 u [OF False] by (simp add: unat_sub_u32 u32_le_iff del: of_nat_add)
        ultimately show ?thesis using fits xr len(3) by linarith
      next
        case 2
        then have "unat (v - of_nat (x + i)) = unat v - (x + i)"
          using u [OF False] fits by (simp add: unat_sub_u32 u32_le_iff del: of_nat_add)
        with 2 fits show ?thesis by linarith
      qed
    qed simp
    then show ?thesis by (rule store_bytes_outside)
  qed
  then show "payload_kept (live HEAP bs - {(x, k)}) (mem s) ?m" unfolding payload_kept_def by blast
qed

text \<open>Every normal return of \<^verbatim>\<open>kmalloc\<close>, whether it found a block or grew the heap.\<close>

definition heap_room :: "nat \<Rightarrow> blocks \<Rightarrow> bool" where
  "heap_room n bs \<longleftrightarrow> n \<le> 0x2FC00000 \<and> ((\<forall>b\<in>set bs. unfit n b) \<longrightarrow> blocks_len bs + expand n bs \<le> 0x2FC00000)"

lemma grow_blocks_live [simp]: "live a (grow_blocks e bs) = live a bs"
proof (cases bs rule: rev_cases)
  case (snoc xs b)
  then show ?thesis by (cases b; cases "snd b") (simp_all add: grow_blocks_snoc live_append)
qed simp

lemma kmalloc_returns:
  assumes inv: "heap_inv s bs" and sz: "sz \<noteq> 0" "unat sz \<le> 0xFFFFFFF8" and room: "heap_room (round8 (unat sz)) bs"
  shows "ensures (\<lambda>q t. \<exists>p k cs. q = of_nat p \<and> heap_inv t cs \<and> round8 (unat sz) \<le> k \<and> (p, k) \<notin> live HEAP bs \<and>
    live HEAP cs = insert (p, k) (live HEAP bs) \<and> payload_kept (live HEAP bs) (mem s) (mem t)) (kmalloc sz s)"
proof (cases "alloc_blocks (round8 (unat sz)) HEAP bs")
  case (Some pc)
  then obtain p cs where al: "alloc_blocks (round8 (unat sz)) HEAP bs = Some (p, cs)" by fastforce
  from live_alloc(1) [OF al] obtain k where "round8 (unat sz) \<le> k" "live HEAP cs = insert (p, k) (live HEAP bs)"
    "(p, k) \<notin> live HEAP bs" by blast
  then show ?thesis using kmalloc_fit [OF inv sz al] by (elim exE conjE) (simp, blast)
next
  case None
  let ?n = "round8 (unat sz)"
  have none: "\<forall>b\<in>set bs. unfit ?n b" using None by (simp add: alloc_blocks_None)
  have n: "8 \<le> ?n" "?n \<le> 0x2FC00000"
    using round8_bounds(3) [of "unat sz"] sz(1) room by (auto simp: round8_def unat_gt_0 heap_room_def)
  have i: "kmalloc_initalized s" "blocks_len bs = unat (heap_size s)" using inv by (auto simp: heap_inv_def)
  have r: "unat (heap_size s) + expand ?n bs \<le> 0x2FC00000" using room none i(2) by (simp add: heap_room_def)
  have ff: "find_fit (of_nat ?n) s = Ret (0, last_addr 0 HEAP bs) s" using find_fit_none [OF inv none] n(2) by simp
  have km: "kmalloc sz s = kmalloc_grow (of_nat ?n) (last_addr 0 HEAP bs) s"
    unfolding kmalloc_def Let_def round8_word [OF sz(2)] using i(1) sz(1) ff by simp
  show ?thesis
  proof (cases "change_heap_size (heap_size s + of_nat (expand ?n bs)) s")
    case (Ret v u)
    then have "change_heap_size (heap_size s + of_nat (expand ?n bs)) s = Ret () u" by simp
    from kmalloc_grow_heap_inv [OF inv none n r this] obtain p cs t where
      "kmalloc_grow (of_nat ?n) (last_addr 0 HEAP bs) s = Ret (of_nat p) t"
      and al: "alloc_blocks ?n HEAP (grow_blocks (expand ?n bs) bs) = Some (p, cs)"
      and "heap_inv t cs" "payload_kept (live HEAP bs) (mem s) (mem t)" by blast
    moreover from live_alloc(1) [OF al] obtain k where "?n \<le> k" "live HEAP cs = insert (p, k) (live HEAP bs)"
      "(p, k) \<notin> live HEAP bs" by auto
    ultimately show ?thesis unfolding km by (simp, blast)
  qed (simp_all add: km kmalloc_grow_unfold [OF inv none n])
qed

text \<open>The first call of \<^verbatim>\<open>kmalloc_init\<close> makes one free block of the whole first threshold.\<close>

lemma kmalloc_init_returns:
  fixes s :: "'a heap_state_scheme"
  assumes "\<not> kmalloc_initalized s"
  shows "ensures (\<lambda>_ t. heap_inv t [(0x10000 - 17, False)]) (kmalloc_init s)"
proof -
  let ?s = "s\<lparr>heap_start := KERNEL_MALLOC, heap_size := 0\<rparr>"
  have T: "unat HEAP_THRESHOLD = 0x10000" by (simp add: HEAP_THRESHOLD_def)
  show ?thesis
  proof (cases "change_heap_size HEAP_THRESHOLD ?s")
    case (Ret v u)
    have u: "kmalloc_initalized u = kmalloc_initalized s" "heap_start u = KERNEL_MALLOC" "heap_size u = 0x10000"
      using change_heap_size_returns [OF Ret] T by (simp_all add: HEAP_THRESHOLD_def)
    define h where "h = (0xD0000000 :: u32)"
    define t where "t = put_prev h 0 (put_next h 0 (put_used h False (put_size h 0xFFEF (put_magic h HEAP_MAGIC
      (u\<lparr>kmalloc_initalized := True, heap_head := h\<rparr>)))))"
    have run: "kmalloc_init s = Ret () t"
      using assms Ret u by (simp add: kmalloc_init_def Let_def t_def h_def put_magic_def SIZEOF_heap_block_def)
    have "only_mem (u\<lparr>kmalloc_initalized := True, heap_head := h\<rparr>) t" by (simp add: t_def)
    from only_mem_heap [OF this] u have f: "kmalloc_initalized t" "heap_head t = h" "heap_start t = h" "heap_size t = 0x10000"
      by (simp_all add: h_def)
    have "blk t h = \<lparr>hb_magic = HEAP_MAGIC, hb_size = 0xFFEF, hb_used = False, hb_next = 0, hb_prev = 0\<rparr>"
      by (simp add: t_def)
    then show ?thesis using run f by (simp add: heap_inv_def h_def)
  qed (use assms in \<open>simp_all add: kmalloc_init_def Let_def\<close>)
qed

section \<open>The allocator as its clients see it\<close>

text \<open>
  A client knows the pointers it got with the bytes it wrote there. \<open>holds L B m\<close>: each of them
  lies in a buffer of \<open>L\<close>, and memory still has the bytes.
\<close>

definition holds :: "(nat \<times> nat) set \<Rightarrow> (u32 \<Rightarrow> bytes option) \<Rightarrow> memory \<Rightarrow> bool" where
  "holds L B m \<longleftrightarrow> (\<forall>p ds. B p = Some ds \<longrightarrow>
     (\<exists>k. (unat p, k) \<in> L \<and> length ds \<le> k \<and> load_bytes m p (length ds) = ds))"

definition separate :: "(nat \<times> nat) set \<Rightarrow> bool" where
  "separate L \<longleftrightarrow> (\<forall>(x, k)\<in>L. 0 < x \<and> x + k \<le> 4294967296 \<and>
     (\<forall>(y, l)\<in>L. (x, k) = (y, l) \<or> x + k < y \<or> y + l < x))"

lemma separateD:
  assumes "separate L" "(x, k) \<in> L"
  shows "0 < x" "x + k \<le> 4294967296" and "(y, l) \<in> L \<Longrightarrow> (x, k) = (y, l) \<or> x + k < y \<or> y + l < x"
  using assms by (auto simp: separate_def)

lemma kept_load:
  assumes "payload_kept L m m'" "(unat p, k) \<in> L" "unat p + k \<le> 4294967296" "n \<le> k"
  shows "load_bytes m' p n = load_bytes m p n"
proof (rule nth_equalityI)
  fix i assume "i < length (load_bytes m' p n)"
  then have i: "i < n" by simp
  then have "unat (p + of_nat i) = unat p + i" using assms(3,4)
    by (simp add: unat_add_u32 unat_of_nat_u32)
  with assms(1,2,4) i have "m' (p + of_nat i) = m (p + of_nat i)" by (fastforce simp: payload_kept_def)
  with i show "load_bytes m' p n ! i = load_bytes m p n ! i" by simp
qed simp

lemma payload_kept_mono: "payload_kept L m m' \<Longrightarrow> K \<subseteq> L \<Longrightarrow> payload_kept K m m'"
  by (auto simp: payload_kept_def)

lemma holds_kept:
  assumes "holds L B m" "separate L" "payload_kept K m m'" "K \<subseteq> M"
    and "\<And>p ds k. B' p = Some ds \<Longrightarrow> B p = Some ds \<and> ((unat p, k) \<in> L \<longrightarrow> (unat p, k) \<in> K)" "K \<subseteq> L"
  shows "holds M B' m'"
  unfolding holds_def
proof (intro allI impI)
  fix p ds assume "B' p = Some ds"
  with assms(5) have p: "B p = Some ds" "\<And>k. (unat p, k) \<in> L \<Longrightarrow> (unat p, k) \<in> K" by blast+
  from p(1) assms(1) obtain k where k: "(unat p, k) \<in> L" "length ds \<le> k" "load_bytes m p (length ds) = ds"
    by (auto simp: holds_def)
  then have "load_bytes m' p (length ds) = ds"
    using kept_load [OF assms(3) p(2) [OF k(1)] separateD(2) [OF assms(2) k(1)] k(2)] by simp
  then show "\<exists>k. (unat p, k) \<in> M \<and> length ds \<le> k \<and> load_bytes m' p (length ds) = ds" using p(2) k assms(4) by blast
qed

lemma holds_insert:
  assumes "holds M B m" "(unat p, k) \<in> M" "length ds \<le> k" "load_bytes m p (length ds) = ds"
  shows "holds M (B(p := Some ds)) m"
  using assms unfolding holds_def by auto

text \<open>The laws of an allocator, and what follows from them for a client.\<close>

locale buffer_allocator =
  fixes inv :: "'s \<Rightarrow> 'b \<Rightarrow> bool" and bufs :: "'b \<Rightarrow> (nat \<times> nat) set" and bytes_of :: "'s \<Rightarrow> memory"
    and fits :: "u32 \<Rightarrow> 'b \<Rightarrow> bool" and alloc :: "u32 \<Rightarrow> 's \<Rightarrow> (u32, 's) res"
    and release :: "u32 \<Rightarrow> 's \<Rightarrow> (unit, 's) res" and put :: "u32 \<Rightarrow> bytes \<Rightarrow> 's \<Rightarrow> 's"
  assumes bufs_separate: "inv s b \<Longrightarrow> separate (bufs b)"
    and alloc_law: "inv s b \<Longrightarrow> fits n b \<Longrightarrow> ensures (\<lambda>p t. \<exists>k c. inv t c \<and> unat n \<le> k \<and> (unat p, k) \<notin> bufs b \<and>
      bufs c = insert (unat p, k) (bufs b) \<and> payload_kept (bufs b) (bytes_of s) (bytes_of t)) (alloc n s)"
    and release_law: "inv s b \<Longrightarrow> (unat p, k) \<in> bufs b \<Longrightarrow> \<exists>t c. release p s = Ret () t \<and> inv t c \<and>
      bufs c = bufs b - {(unat p, k)} \<and> payload_kept (bufs b - {(unat p, k)}) (bytes_of s) (bytes_of t)"
    and put_law: "inv s b \<Longrightarrow> (unat p, k) \<in> bufs b \<Longrightarrow> i + length ds \<le> k \<Longrightarrow> inv (put (p + of_nat i) ds s) b \<and>
      bytes_of (put (p + of_nat i) ds s) = store_bytes (p + of_nat i) ds (bytes_of s) \<and>
      payload_kept (bufs b - {(unat p, k)}) (bytes_of s) (bytes_of (put (p + of_nat i) ds s))"
begin

lemma alloc_holds:
  assumes "inv s b" "holds (bufs b) B (bytes_of s)" "fits n b"
  shows "ensures (\<lambda>p t. \<exists>c. inv t c \<and> p \<noteq> 0 \<and> B p = None \<and>
    holds (bufs c) (B(p := Some (load_bytes (bytes_of t) p (unat n)))) (bytes_of t)) (alloc n s)"
proof (rule ensures_mono [OF alloc_law [OF assms(1,3)]], elim exE conjE)
  fix p :: u32 and t k c
  assume t: "inv t c" "unat n \<le> k" "(unat p, k) \<notin> bufs b" "bufs c = insert (unat p, k) (bufs b)"
    "payload_kept (bufs b) (bytes_of s) (bytes_of t)"
  have sep: "separate (bufs b)" "separate (bufs c)" by (rule bufs_separate, fact)+
  have "B p = None"
  proof (rule ccontr)
    assume "B p \<noteq> None"
    then obtain j where j: "(unat p, j) \<in> bufs b" using assms(2) by (fastforce simp: holds_def)
    with separateD(3) [OF sep(2), of "unat p" k "unat p" j] t(3,4) show False by auto
  qed
  moreover have "p \<noteq> 0" using separateD(1) [OF sep(2), of "unat p" k] t(4) by auto
  moreover have "holds (bufs c) B (bytes_of t)"
    using assms(2) sep(1) t(5) by (rule holds_kept) (auto simp: t(4))
  then have "holds (bufs c) (B(p := Some (load_bytes (bytes_of t) p (unat n)))) (bytes_of t)"
    using t(2,4) by (intro holds_insert [of _ _ _ _ k]) auto
  ultimately show "\<exists>c. inv t c \<and> p \<noteq> 0 \<and> B p = None \<and>
    holds (bufs c) (B(p := Some (load_bytes (bytes_of t) p (unat n)))) (bytes_of t)" using t(1) by blast
qed

lemma other_kept:
  fixes p q :: u32
  assumes "inv s b" "(unat p, k) \<in> bufs b" "q \<noteq> p" "(unat q, j) \<in> bufs b"
  shows "(unat q, j) \<in> bufs b - {(unat p, k)}"
  using assms by (auto simp: word_unat_eq_iff)

lemma release_holds:
  assumes "inv s b" "holds (bufs b) B (bytes_of s)" "B p = Some ds"
  shows "\<exists>t c. release p s = Ret () t \<and> inv t c \<and> holds (bufs c) (B(p := None)) (bytes_of t)"
proof -
  obtain k where k: "(unat p, k) \<in> bufs b" using assms(2,3) by (auto simp: holds_def)
  from release_law [OF assms(1) this] obtain t c where t: "release p s = Ret () t" "inv t c"
    "bufs c = bufs b - {(unat p, k)}" "payload_kept (bufs b - {(unat p, k)}) (bytes_of s) (bytes_of t)" by blast
  have "holds (bufs c) (B(p := None)) (bytes_of t)"
    using assms(2) bufs_separate [OF assms(1)] t(4)
    by (rule holds_kept) (use other_kept [OF assms(1) k] in \<open>auto simp: t(3) split: if_splits\<close>)
  with t show ?thesis by blast
qed

lemma put_holds:
  assumes "inv s b" "holds (bufs b) B (bytes_of s)" "B p = Some ds" "i + length es \<le> length ds"
  defines "t \<equiv> put (p + of_nat i) es s"
  shows "inv t b" and "holds (bufs b) (B(p := Some (take i ds @ es @ drop (i + length es) ds))) (bytes_of t)"
proof -
  obtain k where k: "(unat p, k) \<in> bufs b" "length ds \<le> k" "load_bytes (bytes_of s) p (length ds) = ds"
    using assms(2,3) by (auto simp: holds_def)
  have sep: "separate (bufs b)" using assms(1) by (rule bufs_separate)
  from put_law [OF assms(1) k(1), of i es] k(2) assms(4)
  have t: "inv t b" "bytes_of t = store_bytes (p + of_nat i) es (bytes_of s)"
    "payload_kept (bufs b - {(unat p, k)}) (bytes_of s) (bytes_of t)" by (auto simp: t_def)
  show "inv t b" by (rule t(1))
  have "holds (bufs b) (B(p := None)) (bytes_of t)"
    using assms(2) sep t(3) by (rule holds_kept) (use other_kept [OF assms(1) k(1)] in \<open>auto split: if_splits\<close>)
  moreover have "load_bytes (bytes_of t) p (length ds) = take i ds @ es @ drop (i + length es) ds"
  proof (rule nth_equalityI)
    fix j assume "j < length (load_bytes (bytes_of t) p (length ds))"
    then have j: "j < length ds" by simp
    have b: "length ds \<le> 4294967296 - unat p" "unat p < 4294967296" using separateD(2) [OF sep k(1)] k(2) by auto
    have dsj: "bytes_of s (p + of_nat j) = ds ! j" using k(3) j by (metis nth_load_bytes)
    have nn: "unat (of_nat n :: u32) = n" if "n < length ds" for n
      using that b by (intro unat_of_nat_u32) linarith
    have d: "unat (p + of_nat j - (p + of_nat i)) = (if i \<le> j then j - i else 4294967296 - (i - j))" if "i < length ds"
    proof (cases "i \<le> j")
      case False
      then have "(of_nat j :: u32) \<noteq> of_nat i" using nn [OF j] nn [OF that] by force
      from unat_diff_swap [OF this [symmetric]] False show ?thesis
        using nn [OF j] nn [OF that] by (simp add: unat_sub_u32 u32_le_iff)
    qed (use nn [OF j] nn [OF that] in \<open>simp add: unat_sub_u32 u32_le_iff\<close>)
    show "load_bytes (bytes_of t) p (length ds) ! j = (take i ds @ es @ drop (i + length es) ds) ! j"
    proof (cases "es = []")
      case True
      then show ?thesis using j dsj assms(4) by (simp add: t(2) store_bytes_def)
    next
      case False
      then have "i < length ds" using assms(4) by (cases es) auto
      from d [OF this] show ?thesis using j dsj assms(4) b
        by (auto simp: t(2) store_bytes_def nth_append)
    qed
  qed (use assms(4) in simp)
  ultimately show "holds (bufs b) (B(p := Some (take i ds @ es @ drop (i + length es) ds))) (bytes_of t)"
    using holds_insert [of "bufs b" "B(p := None)" "bytes_of t" p k "take i ds @ es @ drop (i + length es) ds"] k(1,2) assms(4)
    by simp
qed

lemma holds_apart:
  assumes "inv s b" "holds (bufs b) B (bytes_of s)" "B p = Some ds" "B q = Some es" "p \<noteq> q"
  shows "unat p + length ds < unat q \<or> unat q + length es < unat p"
proof -
  obtain k j where "(unat p, k) \<in> bufs b" "length ds \<le> k" "(unat q, j) \<in> bufs b" "length es \<le> j"
    using assms(2-4) unfolding holds_def by blast
  with separateD(3) [OF bufs_separate [OF assms(1)], of "unat p" k "unat q" j] assms(5)
  show ?thesis by (auto simp: word_unat_eq_iff)
qed

end

section \<open>The heap is such an allocator\<close>

definition heap_fits :: "u32 \<Rightarrow> blocks \<Rightarrow> bool" where
  "heap_fits n bs \<longleftrightarrow> n \<noteq> 0 \<and> unat n \<le> 0xFFFFFFF8 \<and> heap_room (round8 (unat n)) bs"

definition write_bytes :: "u32 \<Rightarrow> bytes \<Rightarrow> 'a machine_scheme \<Rightarrow> 'a machine_scheme" where
  "write_bytes a ds s = s\<lparr>mem := store_bytes a ds (mem s)\<rparr>"

lemma live_separate: "heap_inv s bs \<Longrightarrow> separate (live HEAP bs)"
  unfolding separate_def
proof (intro ballI, clarify)
  fix x k assume inv: "heap_inv s bs" and lv: "(x, k) \<in> live HEAP bs"
  show "0 < x \<and> x + k \<le> 4294967296 \<and> (\<forall>(y, l)\<in>live HEAP bs. (x, k) = (y, l) \<or> x + k < y \<or> y + l < x)"
    using live_range [OF lv] heap_len_bounds(1) [OF inv] live_disjoint [OF lv] by fastforce
qed

lemma word_nat_pair: "of_nat n = (p :: u32) \<Longrightarrow> n < 4294967296 \<Longrightarrow> unat p = n"
  by (auto simp: unat_of_nat_u32)

interpretation heap: buffer_allocator heap_inv "live HEAP" mem heap_fits kmalloc kfree write_bytes
proof unfold_locales
  fix s :: "'a heap_state_scheme" and bs
  assume inv: "heap_inv s bs"
  show sep: "separate (live HEAP bs)" using inv by (rule live_separate)
  have up: "unat (of_nat x :: u32) = x" if "(x, k) \<in> live HEAP bs" "heap_inv t bs" "0 < k" for x k bs and t :: "'a heap_state_scheme"
    using separateD(2) [OF live_separate [OF that(2)] that(1)] that(3) by (intro unat_of_nat_u32) simp
  show "ensures (\<lambda>p t. \<exists>k c. heap_inv t c \<and> unat n \<le> k \<and> (unat p, k) \<notin> live HEAP bs \<and>
      live HEAP c = insert (unat p, k) (live HEAP bs) \<and> payload_kept (live HEAP bs) (mem s) (mem t)) (kmalloc n s)"
    if fit: "heap_fits n bs" for n
  proof -
    have n: "n \<noteq> 0" "unat n \<le> 0xFFFFFFF8" "heap_room (round8 (unat n)) bs" using fit by (auto simp: heap_fits_def)
    have n0: "0 < unat n" using n(1) by (simp add: unat_gt_0)
    show ?thesis
    proof (rule ensures_mono [OF kmalloc_returns [OF inv n]], elim exE conjE)
      fix q :: u32 and p k cs and t :: "'a heap_state_scheme"
      assume t: "q = of_nat p" "heap_inv t cs" "round8 (unat n) \<le> k" "(p, k) \<notin> live HEAP bs"
        "live HEAP cs = insert (p, k) (live HEAP bs)" "payload_kept (live HEAP bs) (mem s) (mem t)"
      have k: "unat n \<le> k" using t(3) round8_bounds(1) [of "unat n"] by simp
      have q: "unat q = p" using up [of p k cs t] t(1,2,5) k n0 by simp
      show "\<exists>k c. heap_inv t c \<and> unat n \<le> k \<and> (unat q, k) \<notin> live HEAP bs \<and>
        live HEAP c = insert (unat q, k) (live HEAP bs) \<and> payload_kept (live HEAP bs) (mem s) (mem t)"
        unfolding q using t(2,4-6) k by blast
    qed
  qed
  fix p :: u32 and k
  assume lv: "(unat p, k) \<in> live HEAP bs"
  from kfree_live [OF inv lv] obtain t where t: "kfree p s = Ret () t" "heap_inv t (coalesce (mark_free (unat p) HEAP bs))"
    "payload_kept (live HEAP bs - {(unat p, k)}) (mem s) (mem t)" by auto
  then show "\<exists>t c. kfree p s = Ret () t \<and> heap_inv t c \<and> live HEAP c = live HEAP bs - {(unat p, k)} \<and>
      payload_kept (live HEAP bs - {(unat p, k)}) (mem s) (mem t)"
    using live_mark_free [OF lv] by (intro exI [of _ t] exI [of _ "coalesce (mark_free (unat p) HEAP bs)"]) simp
  show "heap_inv (write_bytes (p + of_nat i) ds s) bs \<and>
      mem (write_bytes (p + of_nat i) ds s) = store_bytes (p + of_nat i) ds (mem s) \<and>
      payload_kept (live HEAP bs - {(unat p, k)}) (mem s) (mem (write_bytes (p + of_nat i) ds s))"
    if "i + length ds \<le> k" for i ds
    using payload_write [OF inv lv that] by (simp add: write_bytes_def)
qed

section \<open>Clients of the heap\<close>

text \<open>
  What a kernel that uses its heap well can do: allocate, write inside a buffer, and free a buffer
  it got. The second component is what it believes the buffers contain.
\<close>

inductive heap_run :: "'a heap_state_scheme \<Rightarrow> (u32 \<Rightarrow> bytes option) \<Rightarrow> bool" where
  start: "kmalloc_init s = Ret () t \<Longrightarrow> \<not> kmalloc_initalized s \<Longrightarrow> heap_run t (\<lambda>_. None)"
| malloc: "heap_run s B \<Longrightarrow> 0 < n \<Longrightarrow> unat (heap_size s) + unat n \<le> 0x2FBE0000 \<Longrightarrow> kmalloc n s = Ret p t \<Longrightarrow>
    heap_run t (B(p := Some (load_bytes (mem t) p (unat n))))"
| store: "heap_run s B \<Longrightarrow> B p = Some ds \<Longrightarrow> i + length es \<le> length ds \<Longrightarrow>
    heap_run (write_bytes (p + of_nat i) es s) (B(p := Some (take i ds @ es @ drop (i + length es) ds)))"
| free: "heap_run s B \<Longrightarrow> B p = Some ds \<Longrightarrow> kfree p s = Ret () t \<Longrightarrow> heap_run t (B(p := None))"

inductive_cases heap_run_empty: "heap_run s (\<lambda>_. None)"

lemma room_enough:
  assumes "heap_inv s bs" "0 < n" "unat (heap_size s) + unat n \<le> 0x2FBE0000"
  shows "heap_fits n bs"
proof -
  have "blocks_len bs = unat (heap_size s)" using assms(1) by (simp add: heap_inv_def)
  moreover have "expand m bs \<le> m + 17 + 65535" for m by (simp add: expand_def split: if_splits)
  note this [of "round8 (unat n)"]
  moreover have "round8 (unat n) \<le> unat n + 7" by (rule round8_bounds(2))
  moreover have "n \<noteq> 0" using assms(2) by auto
  ultimately show ?thesis using assms(3) by (auto simp: heap_fits_def heap_room_def)
qed

lemma heap_run_holds:
  fixes s :: "'a heap_state_scheme"
  assumes "heap_run s B"
  shows "\<exists>bs. heap_inv s bs \<and> holds (live HEAP bs) B (mem s)"
  using assms
proof (induction rule: heap_run.induct)
  case (start s t)
  from ensuresD [OF kmalloc_init_returns [OF start(2)] start(1)] show ?case
    by (auto simp: holds_def)
next
  case (malloc s B n p t)
  then obtain bs where b: "heap_inv s bs" "holds (live HEAP bs) B (mem s)" by blast
  from ensuresD [OF heap.alloc_holds [OF b room_enough [OF b(1) malloc(2,3)]] malloc(4)] show ?case by blast
next
  case (store s B p ds i es)
  then obtain bs where "heap_inv s bs" "holds (live HEAP bs) B (mem s)" by blast
  from heap.put_holds [OF this store(2,3)] show ?case by blast
next
  case (free s B p ds t)
  then obtain bs where "heap_inv s bs" "holds (live HEAP bs) B (mem s)" by blast
  from heap.release_holds [OF this free(2)] free(3) show ?case by (metis res.inject(1))
qed

section \<open>Growing succeeds when there are frames\<close>

text \<open>The machine can map \<open>n\<close> more pages of the heap: it runs on the initial directory, the directory
  slots of the heap can take page tables, and there are two frames for each page.\<close>

definition can_grow :: "'a mm_state_scheme \<Rightarrow> nat \<Rightarrow> bool" where
  "can_grow s n \<longleftrightarrow> paging_inv s \<and> mem_get_current_page_dir s = initial_page_dir s \<and>
     (\<forall>i\<in>{832..<1023}. slot_ok s i) \<and> 2 * n \<le> card (pmm_frames s - pmm_used s)"

lemma can_grow_fields [frame_simps]:
  "can_grow (s\<lparr>heap_size := x\<rparr>) n = can_grow s n" "can_grow (s\<lparr>heap_start := x\<rparr>) n = can_grow s n"
  "can_grow (s\<lparr>heap_head := y\<rparr>) n = can_grow s n" "can_grow (s\<lparr>kmalloc_initalized := z\<rparr>) n = can_grow s n"
  "can_grow (put_magic a v s) n = can_grow s n" "can_grow (put_size a v s) n = can_grow s n"
  "can_grow (put_used a w s) n = can_grow s n" "can_grow (put_next a v s) n = can_grow s n"
  "can_grow (put_prev a v s) n = can_grow s n"
  by (simp_all add: can_grow_def paging_inv_def pmm_inv_def self_map_def free_frame_def pmm_frames_def pmm_used_def
      slot_ok_def mem_get_current_page_dir_def put_magic_def put_size_def put_used_def put_next_def put_prev_def)

lemma free_frames_less:
  assumes "pmm_used t \<subseteq> insert k (pmm_used s)" "pmm_frames t = pmm_frames s"
  shows "card (pmm_frames s - pmm_used s) \<le> Suc (card (pmm_frames t - pmm_used t))"
proof -
  have "pmm_frames s - pmm_used s \<subseteq> insert k (pmm_frames t - pmm_used t)" using assms by auto
  then have "card (pmm_frames s - pmm_used s) \<le> card (insert k (pmm_frames t - pmm_used t))"
    by (intro card_mono) (auto simp: pmm_frames_def)
  also have "\<dots> \<le> Suc (card (pmm_frames t - pmm_used t))" by (rule card_insert_le_m1) (simp_all add: pmm_frames_def)
  finally show ?thesis .
qed

lemma take_keeps_paging:
  assumes inv: "paging_inv s" and k: "k < 65536"
  shows "paging_inv (pmm_take k s)"
proof -
  have "pmm_inv s" using inv by (simp add: paging_inv_def)
  then have "free_frame (pmm_take k s) p \<Longrightarrow> free_frame s p" for p
    using k by (auto simp: free_frame_def frame_simps pmm_used_take)
  then show ?thesis using inv by (auto simp: paging_inv_def frame_simps)
qed

lemma map_heap_page_runs:
  fixes s :: "'a heap_state_scheme"
  assumes can: "can_grow s (Suc n)" and j: "0 \<le> old" "old + int i < 0x2FC00"
  shows "\<exists>t. map_heap_page old i s = Ret () t \<and> can_grow t n"
proof -
  let ?v = "KERNEL_MALLOC + of_int (old + int i) * 0x1000 :: u32"
  have inv: "paging_inv s" and pmm: "pmm_inv s" and card: "2 * Suc n \<le> card (pmm_frames s - pmm_used s)"
    and cur: "mem_get_current_page_dir s = initial_page_dir s" and sl: "\<forall>i\<in>{832..<1023}. slot_ok s i"
    using can by (auto simp: can_grow_def paging_inv_def)
  have room: "\<not> pmm_frames s \<subseteq> pmm_used s"
  proof
    assume "pmm_frames s \<subseteq> pmm_used s"
    then have "pmm_frames s - pmm_used s = {}" by blast
    with card show False by simp
  qed
  define k where "k = Min (pmm_frames s - pmm_used s)"
  define u where "u = pmm_take k s"
  have al: "pmm_alloc_page_frame s = Ret (frame_addr k) u" and kf: "k \<in> pmm_frames s - pmm_used s"
    using pmm_alloc_found [OF pmm room] by (auto simp: k_def u_def)
  have k: "k < 65536" "0 < k" using kf pmm by (auto simp: pmm_frames_def pmm_inv_def)
  have nz: "frame_addr k \<noteq> 0" using k unat_frame_addr [of k] by auto
  have u: "paging_inv u" "mem_get_current_page_dir u = initial_page_dir u" "\<forall>i\<in>{832..<1023}. slot_ok u i"
      "pmm_frames u = pmm_frames s" "pmm_used u = insert k (pmm_used s)"
    using take_keeps_paging [OF inv k(1)] cur sl pmm k(1)
    by (simp_all add: u_def frame_simps mem_get_current_page_dir_def slot_ok_def pmm_used_take)
  have cu: "2 * Suc n \<le> Suc (card (pmm_frames u - pmm_used u))"
    using free_frames_less [of u k s] u(4,5) card by simp
  obtain m where m: "old + int i = int m" "m < 0x2FC00" using j by (metis nonneg_int_cases add_nonneg_nonneg of_nat_0_le_iff zless_nat_eq_int_zless zle_int of_nat_less_iff of_nat_numeral)
  have v: "unat ?v = 0xD0000000 + m * 4096"
    unfolding m(1) using m(2) by (simp add: unat_add_u32 unat_mult_u32 unat_of_nat_u32)
  have half: "own_half u ?v" using v m(2) u(2) by (simp add: own_half_def u32_less_iff)
  have pd: "pd_index ?v \<in> {832..<1023}" using v m(2)
    by (simp add: pd_index_nat div_less_iff_less_mult less_eq_div_iff_mult_less_eq)
  have "\<not> pmm_frames u \<subseteq> pmm_used u"
  proof
    assume "pmm_frames u \<subseteq> pmm_used u"
    then have "pmm_frames u - pmm_used u = {}" by blast
    with cu show False by simp
  qed
  then have cm: "can_map u ?v (PAGE_FLAG_PRESENT OR PAGE_FLAG_WRITE OR PAGE_FLAG_OWNER)"
    using half u(3) pd by (auto simp: can_map_def slot_ok_def has_table_def)
  from map_entry_refines [OF u(1) cm] obtain t where t: "mem_map_entry ?v (frame_addr k) (PAGE_FLAG_PRESENT OR PAGE_FLAG_WRITE OR PAGE_FLAG_OWNER) u = Ret () t"
      "paging_inv t" "cr3 t = cr3 u" "initial_page_dir t = initial_page_dir u" by blast
  note cost = map_entry_cost [OF u(1) cm t(1)]
  from cost(2) obtain j where j: "pmm_used t \<subseteq> insert j (pmm_used u)" by blast
  have "mem_map_page ?v (frame_addr k) (PAGE_FLAG_PRESENT OR PAGE_FLAG_WRITE OR PAGE_FLAG_OWNER) u = Ret () t"
    using t(1,4) own_half_run [OF half, of t True] by (simp add: mem_map_page_def split_beta) (metis bind.simps(1) prod.sel(2))
  then have "map_heap_page old i s = Ret () t" using al nz by (simp add: map_heap_page_def)
  moreover have "can_grow t n"
    using t(2-4) u(2,3) cost(3) cu free_frames_less [OF j cost(1)]
    by (auto simp: can_grow_def mem_get_current_page_dir_def)
  ultimately show ?thesis by blast
qed

lemma map_heap_pages_run:
  fixes s :: "'a heap_state_scheme"
  assumes "can_grow s (n + r)" "0 \<le> old" "old + int n \<le> 0x2FC00"
  shows "\<exists>t. for_each [0..<n] (map_heap_page old) s = Ret () t \<and> can_grow t r"
  using assms
proof (induction n arbitrary: r)
  case (Suc n)
  from Suc.IH [of "Suc r"] Suc.prems obtain u where u: "for_each [0..<n] (map_heap_page old) s = Ret () u" "can_grow u (Suc r)"
    by auto
  from map_heap_page_runs [OF u(2), of old n] Suc.prems u(1) show ?case
    by (auto simp: for_each_append)
qed simp

lemma change_heap_size_runs:
  fixes s :: "'a heap_state_scheme"
  assumes new: "unat new \<le> 0x2FC00000" "unat new mod 4096 = 0" and old: "unat (heap_size s) mod 4096 = 0" "heap_size s \<le> new"
    and can: "can_grow s ((unat new - unat (heap_size s)) div 4096 + r)"
  shows "\<exists>t. change_heap_size new s = Ret () t \<and> can_grow t r"
proof -
  have le: "unat (heap_size s) \<le> unat new" using old(2) by (simp add: u32_le_iff)
  have n31: "unat new < 2147483648" using new(1) by simp
  obtain q j where q: "unat (heap_size s) = q * 4096" "unat new = j * 4096"
    using old(1) new(2) by (auto elim!: dvdE simp: mod_eq_0_iff_dvd mult.commute)
  have "unat (CEIL_DIV (heap_size s) 0x1000) = q"
    using q(1) le new(1) by (simp add: CEIL_DIV_def unat_div unat_add_u32 unat_sub_u32 u32_le_iff)
  then have o: "sint (CEIL_DIV (heap_size s) 0x1000) = int q"
    using q le new(1) by (subst sint_small) simp_all
  have "q \<le> j" using q le by simp
  then have n: "nat (int (unat new div 4096) - int q) = j - q" by (simp add: q(2) nat_diff_distrib)
  have "can_grow s (j - q + r)" using can by (simp add: q flip: diff_mult_distrib)
  from map_heap_pages_run [OF this, of "int q"] \<open>q \<le> j\<close> q(2) new(1) obtain u where
    "for_each [0..<j - q] (map_heap_page (int q)) s = Ret () u" "can_grow u r" by fastforce
  then show ?thesis
    unfolding change_heap_size_def Let_def new_top [OF n31 new(2)] o n
    by (simp add: frame_simps)
qed

lemma kmalloc_runs:
  fixes s :: "'a heap_state_scheme"
  assumes inv: "heap_inv s bs" and fits: "heap_fits n bs"
    and can: "(\<exists>(m, used)\<in>set bs. \<not> used \<and> round8 (unat n) \<le> m) \<or> can_grow s (expand (round8 (unat n)) bs div 4096)"
  shows "\<exists>p t. kmalloc n s = Ret p t"
proof (cases "alloc_blocks (round8 (unat n)) HEAP bs")
  case (Some pc)
  have "n \<noteq> 0" "unat n \<le> 0xFFFFFFF8" using fits by (auto simp: heap_fits_def)
  from kmalloc_fit [OF inv this, of "fst pc" "snd pc"] Some show ?thesis by auto
next
  case None
  let ?n = "round8 (unat n)"
  have nz: "n \<noteq> 0" "unat n \<le> 0xFFFFFFF8" using fits by (auto simp: heap_fits_def)
  have none: "\<forall>b\<in>set bs. unfit ?n b" using None by (simp add: alloc_blocks_None)
  then have grow: "can_grow s (expand ?n bs div 4096)" using can by auto
  have n: "8 \<le> ?n" "?n \<le> 0x2FC00000" and room: "blocks_len bs + expand ?n bs \<le> 0x2FC00000"
    using round8_bounds(3) [of "unat n"] fits none by (auto simp: round8_def unat_gt_0 heap_fits_def heap_room_def)
  have i: "kmalloc_initalized s" "blocks_len bs = unat (heap_size s)" "unat (heap_size s) mod 4096 = 0"
    using inv by (auto simp: heap_inv_def)
  have ff: "find_fit (of_nat ?n) s = Ret (0, last_addr 0 HEAP bs) s" using find_fit_none [OF inv none] n(2) by simp
  have km: "kmalloc n s = kmalloc_grow (of_nat ?n) (last_addr 0 HEAP bs) s"
    unfolding kmalloc_def Let_def round8_word [OF nz(2)] using i(1) nz(1) ff by simp
  from kmalloc_expand [OF inv none n] have e: "expand ?n bs mod 4096 = 0" by metis
  have new: "unat (heap_size s + of_nat (expand ?n bs)) = unat (heap_size s) + expand ?n bs"
    using room i(2) by (simp add: unat_add_u32 unat_of_nat_u32)
  have "\<exists>u. change_heap_size (heap_size s + of_nat (expand ?n bs)) s = Ret () u \<and> can_grow u 0"
    using room i(2,3) e grow by (intro change_heap_size_runs) (auto simp: new u32_le_iff mod_add_eq [of _ 4096, symmetric])
  then show ?thesis unfolding km kmalloc_grow_unfold [OF inv none n] by (auto simp: kmalloc_place_def Let_def split: prod.splits if_splits)
qed

lemma kmalloc_init_runs:
  fixes s :: "'a heap_state_scheme"
  assumes "\<not> kmalloc_initalized s" "can_grow s (16 + r)"
  shows "\<exists>t. kmalloc_init s = Ret () t \<and> heap_inv t [(0x10000 - 17, False)] \<and> can_grow t r"
proof -
  have "\<exists>t. change_heap_size HEAP_THRESHOLD (s\<lparr>heap_start := KERNEL_MALLOC, heap_size := 0\<rparr>) = Ret () t \<and> can_grow t r"
    using assms(2) by (intro change_heap_size_runs) (simp_all add: HEAP_THRESHOLD_def frame_simps)
  then have "\<exists>t. kmalloc_init s = Ret () t \<and> can_grow t r" using assms(1) by (auto simp: kmalloc_init_def Let_def frame_simps)
  with kmalloc_init_returns [OF assms(1)] show ?thesis by (auto simp: ensures_def)
qed

section \<open>The booted machine\<close>

text \<open>\<^verbatim>\<open>booted\<close> with the variables of the heap as they are before \<^verbatim>\<open>kmalloc_init\<close>.\<close>

definition no_heap :: heap_state where
  "no_heap = mm_state.extend booted \<lparr>heap_head = 0, heap_start = 0, kmalloc_initalized = False, heap_size = 0\<rparr>"


lemma no_heap_fields:
  "pmem no_heap = pmem booted" "cr3 no_heap = cr3 booted" "initial_page_dir no_heap = initial_page_dir booted"
  "physical_memory_bitmap no_heap = physical_memory_bitmap booted" "page_frame_min no_heap = page_frame_min booted"
  "page_frame_max no_heap = page_frame_max booted" "\<not> kmalloc_initalized no_heap"
  by (simp_all add: no_heap_def mm_state.extend_def)

lemma no_heap_can_grow: "n \<le> 16000 \<Longrightarrow> can_grow no_heap n"
proof -
  assume n: "n \<le> 16000"
  have "slot_ok booted i" if "i < 1023" for i using booted_fields(5) [of i] that
    by (simp add: slot_ok_def booted_fields(1) present_def)
  then have "can_grow booted n" using booted_inv(1,3) booted_fields n by (simp add: can_grow_def mem_get_current_page_dir_def)
  then show ?thesis
    by (simp add: can_grow_def paging_inv_def pmm_inv_def self_map_def free_frame_def pmm_frames_def pmm_used_def
        slot_ok_def mem_get_current_page_dir_def no_heap_fields)
qed

definition booted_heap :: heap_state where
  "booted_heap = (case kmalloc_init no_heap of Ret v t \<Rightarrow> t | _ \<Rightarrow> no_heap)"

lemma booted_heap:
  "kmalloc_init no_heap = Ret () booted_heap" "heap_inv booted_heap [(0xFFEF, False)]"
  "can_grow booted_heap 15000"
  using kmalloc_init_runs [OF no_heap_fields(7) no_heap_can_grow, of 15000] by (auto simp: booted_heap_def)

lemma can_grow_mono: "can_grow s n \<Longrightarrow> m \<le> n \<Longrightarrow> can_grow s m"
  by (auto simp: can_grow_def)

lemma booted_heap_size: "unat (heap_size booted_heap) = 0x10000"
  using booted_heap(2) by (simp add: heap_inv_def)

section \<open>The properties\<close>

text \<open>C9: \<^verbatim>\<open>kmalloc\<close> returns whenever a block fits, whatever the state of the page tables, and
  otherwise when the heap can grow (there are frames, and the initial directory is in use), whatever
  the fragmentation of the heap: the buffer it returns is new, at least as large as asked for, apart from
  all others, whose contents are left alone, and the heap stays well formed.\<close>

theorem kmalloc_returns_new_buffer:
  assumes "heap_inv s bs" and "heap_fits n bs"
    and "(\<exists>(m, used)\<in>set bs. \<not> used \<and> round8 (unat n) \<le> m) \<or> can_grow s (expand (round8 (unat n)) bs div 4096)"
  shows "\<exists>p t k cs. kmalloc n s = Ret p t \<and> heap_inv t cs \<and> unat n \<le> k \<and> (unat p, k) \<notin> live HEAP bs \<and>
    live HEAP cs = insert (unat p, k) (live HEAP bs) \<and> separate (live HEAP cs) \<and>
    payload_kept (live HEAP bs) (mem s) (mem t)"
proof -
  from kmalloc_runs [OF assms] obtain p t where r: "kmalloc n s = Ret p t" by blast
  from ensuresD [OF heap.alloc_law [OF assms(1,2)] r] show ?thesis
    using r by (blast intro: live_separate)
qed

theorem kmalloc_returns_new_buffer_witness:
  "(\<exists>p t. kmalloc 0x20000 booted_heap = Ret p t) \<and>
   (\<exists>p t. kmalloc 100 (booted_heap\<lparr>physical_memory_bitmap := replicate 8192 0xFF\<rparr>) = Ret p t)"
proof
  have "expand (round8 0x20000) [(0xFFEF, False)] = 0x20000" by (simp add: expand_def round8_def)
  moreover have "heap_fits 0x20000 [(0xFFEF, False)]" by (simp add: heap_fits_def heap_room_def expand_def round8_def)
  moreover have "can_grow booted_heap 32"
    by (rule can_grow_mono [OF booted_heap(3)]) simp
  ultimately show "\<exists>p t. kmalloc 0x20000 booted_heap = Ret p t"
    using kmalloc_returns_new_buffer [OF booted_heap(2), of "0x20000"] by auto
  let ?full = "booted_heap\<lparr>physical_memory_bitmap := replicate 8192 0xFF\<rparr>"
  have "heap_inv ?full [(0xFFEF, False)]"
    using booted_heap(2) by (simp add: heap_inv_def)
  moreover have "heap_fits 100 [(0xFFEF, False)]" by (simp add: heap_fits_def heap_room_def expand_def round8_def)
  moreover have "\<exists>(m, used)\<in>set [(0xFFEF, False)]. \<not> used \<and> round8 (unat (100 :: u32)) \<le> m" by (simp add: round8_def)
  ultimately show "\<exists>p t. kmalloc 100 ?full = Ret p t" using kmalloc_returns_new_buffer [of ?full "[(0xFFEF, False)]" 100] by blast
qed

text \<open>C11: \<^verbatim>\<open>kmalloc\<close> is first fit: when a block fits, the result and the new list of blocks are those
  of the abstract \<open>alloc_blocks\<close>, and nothing but the headers is written.\<close>

theorem kmalloc_first_fit:
  assumes "heap_inv s bs" and "n \<noteq> 0" "unat n \<le> 0xFFFFFFF8"
    and "alloc_blocks (round8 (unat n)) HEAP bs = Some (p, cs)"
  shows "\<exists>t. kmalloc n s = Ret (of_nat p) t \<and> heap_inv t cs \<and> only_mem s t \<and> payload_kept (live HEAP bs) (mem s) (mem t)"
  using assms by (rule kmalloc_fit)

theorem kmalloc_first_fit_witness:
  "\<exists>t. kmalloc 100 booted_heap = Ret 0xD0000011 t \<and> heap_inv t [(104, True), (0xFFEF - 121, False)]"
  using kmalloc_first_fit [OF booted_heap(2), of 100 "HEAP + 17" "[(104, True), (0xFFEF - 121, False)]"]
  by (auto simp: round8_def split_sizes_def)

text \<open>C12: \<^verbatim>\<open>kfree\<close> of a buffer in use marks its block free and joins it with the free neighbours, as the
  abstract \<open>coalesce\<close> does, so that no two neighbours are free afterwards; the other buffers keep
  their contents.\<close>

theorem kfree_coalesces:
  assumes "heap_inv s bs" and "(p, k) \<in> live HEAP bs"
  shows "\<exists>t. kfree (of_nat p) s = Ret () t \<and> heap_inv t (coalesce (mark_free p HEAP bs)) \<and> only_mem s t \<and>
    live HEAP (coalesce (mark_free p HEAP bs)) = live HEAP bs - {(p, k)} \<and>
    payload_kept (live HEAP bs - {(p, k)}) (mem s) (mem t)"
  using kfree_live [OF assms] live_mark_free [OF assms(2)] by auto

theorem kfree_coalesces_witness:
  "\<exists>s t. kmalloc 100 booted_heap = Ret 0xD0000011 s \<and> kfree 0xD0000011 s = Ret () t \<and> heap_inv t [(0xFFEF, False)]"
proof -
  let ?bs = "[(104, True), (0xFFEF - 121, False)]"
  obtain s where s: "kmalloc 100 booted_heap = Ret 0xD0000011 s" "heap_inv s ?bs"
    using kmalloc_fit [OF booted_heap(2), of 100 "HEAP + 17" ?bs] by (auto simp: round8_def split_sizes_def)
  have "(HEAP + 17, 104) \<in> live HEAP ?bs" by simp
  from kfree_coalesces [OF s(2) this] s(1) show ?thesis by auto
qed

lemma alloc_free_blocks:
  assumes "alloc_blocks n a bs = Some (p, cs)" "no_adjacent bs"
  shows "coalesce (mark_free p a cs) = bs"
proof -
  from alloc_blocks_Some [OF assms(1)] obtain xs m ys where
    *: "bs = xs @ (m, False) # ys" "n \<le> m" "p = a + blocks_len xs + 17" "cs = xs @ split_sizes n m @ ys" by blast
  have na: "no_adjacent xs" "no_adjacent ((m, False) # ys)" "xs = [] \<or> snd (last xs)"
    using assms(2) * by (auto simp: no_adjacent_append)
  have "mark_free p a cs = xs @ (if n + 25 \<le> m then [(n, False), (m - n - 17, False)] else [(m, False)]) @ ys"
    using * by (auto simp: split_sizes_def mark_free_at mark_free_other)
  moreover have "coalesce ((n, False) # (m - n - 17, False) # ys) = (m, False) # ys" if "n + 25 \<le> m"
    using na(2) that by (simp add: coalesce_id)
  ultimately show ?thesis
    using coalesce_append [OF na(1,3)] na(2) by (auto simp: * coalesce_id)
qed

text \<open>C13: freeing the buffer just allocated gives back the list of blocks as it was before.\<close>

theorem kmalloc_kfree_roundtrip:
  assumes "heap_inv s bs" and "n \<noteq> 0" "unat n \<le> 0xFFFFFFF8"
    and "\<exists>(m, u)\<in>set bs. \<not> u \<and> round8 (unat n) \<le> m"
  shows "\<exists>p t u. kmalloc n s = Ret p t \<and> kfree p t = Ret () u \<and> heap_inv u bs \<and>
    payload_kept (live HEAP bs) (mem s) (mem u)"
proof -
  from assms(4) obtain p cs where al: "alloc_blocks (round8 (unat n)) HEAP bs = Some (p, cs)"
    using alloc_blocks_None [of "round8 (unat n)" HEAP bs] by fastforce
  from kmalloc_fit [OF assms(1-3) al] obtain t where t: "kmalloc n s = Ret (of_nat p) t" "heap_inv t cs"
    "payload_kept (live HEAP bs) (mem s) (mem t)" by blast
  from live_alloc(1) [OF al] obtain k where k: "live HEAP cs = insert (p, k) (live HEAP bs)" "(p, k) \<notin> live HEAP bs" by blast
  then have "(p, k) \<in> live HEAP cs" by simp
  from kfree_live [OF t(2) this] obtain u where "kfree (of_nat p) t = Ret () u" "heap_inv u (coalesce (mark_free p HEAP cs))"
    "payload_kept (live HEAP bs) (mem t) (mem u)" using k by auto
  moreover have "no_adjacent bs" using assms(1) by (simp add: heap_inv_def)
  ultimately show ?thesis using t alloc_free_blocks [OF al] by (auto intro: payload_kept_trans)
qed

theorem kmalloc_kfree_roundtrip_witness:
  "\<exists>p t u. kmalloc 0x1000 booted_heap = Ret p t \<and> kfree p t = Ret () u \<and> heap_inv u [(0xFFEF, False)]"
  using kmalloc_kfree_roundtrip [OF booted_heap(2), of "0x1000"] by (auto simp: round8_def)

lemma kfree_unused:
  fixes s :: "'a heap_state_scheme"
  assumes "heap_inv s bs" "HEAP + 17 \<le> p" "p < HEAP + blocks_len bs"
    and "let h = blk s (of_nat p - of_nat SIZEOF_heap_block) in hb_magic h = HEAP_MAGIC \<and> \<not> hb_used h"
  shows "kfree (of_nat p) s = Ret () (print (str ''kfree error: freeing an unused block\<newline>'') s)"
proof -
  have i: "kmalloc_initalized s" "heap_size s = of_nat (blocks_len bs)" using assms(1) by (auto simp: heap_inv_def)
  have u: "unat (of_nat p :: u32) = p" "unat (KERNEL_MALLOC + heap_size s) = HEAP + blocks_len bs"
    using assms heap_len_bounds [OF assms(1)] i(2) by (simp_all add: unat_of_nat_u32 unat_add_u32 del: of_nat_add)
  have "(of_nat p :: u32) \<noteq> 0" using u(1) assms(2) by auto
  then show ?thesis using assms(2-4) i u
    by (simp add: kfree_def Let_def u32_less_iff u32_le_iff)
qed

text \<open>C14: freeing a buffer twice is detected: the second call reports the unused block and changes
  nothing but the screen.\<close>

theorem double_free_detected:
  assumes "heap_inv s bs" and "(p, k) \<in> live HEAP bs"
  shows "\<exists>t. kfree (of_nat p) s = Ret () t \<and>
    kfree (of_nat p) t = Ret () (print (str ''kfree error: freeing an unused block\<newline>'') t)"
proof -
  from kfree_live [OF assms] obtain t where t: "kfree (of_nat p) s = Ret () t" "heap_inv t (coalesce (mark_free p HEAP bs))"
    "let h = blk t (of_nat p - of_nat SIZEOF_heap_block) in hb_magic h = HEAP_MAGIC \<and> \<not> hb_used h" by blast
  have "8 \<le> k" using assms by (auto simp: heap_inv_def dest: live_split)
  then have "HEAP + 17 \<le> p" "p < HEAP + blocks_len (coalesce (mark_free p HEAP bs))" using live_range [OF assms(2)] by auto
  from kfree_unused [OF t(2) this t(3)] t(1) show ?thesis by blast
qed

theorem double_free_detected_witness:
  "\<exists>s t. kmalloc 8 booted_heap = Ret 0xD0000011 s \<and> kfree 0xD0000011 s = Ret () t \<and>
    kfree 0xD0000011 t = Ret () (print (str ''kfree error: freeing an unused block\<newline>'') t)"
proof -
  let ?bs = "[(8, True), (0xFFEF - 25, False)]"
  obtain s where s: "kmalloc 8 booted_heap = Ret 0xD0000011 s" "heap_inv s ?bs"
    using kmalloc_fit [OF booted_heap(2), of 8 "HEAP + 17" ?bs] by (auto simp: round8_def split_sizes_def)
  have "(HEAP + 17, 8) \<in> live HEAP ?bs" by simp
  from double_free_detected [OF s(2) this] s(1) show ?thesis by auto
qed

text \<open>C15: a request above 0xFFFFFFF8 bytes wraps around in the rounding: \<^verbatim>\<open>kmalloc\<close> answers it with a
  block of no bytes instead of refusing it.\<close>

theorem kmalloc_size_wraps:
  assumes "heap_inv s (xs @ (m, False) # ys)" and "\<forall>b\<in>set xs. snd b" and "25 \<le> m" and "0xFFFFFFF8 < unat n"
  shows "\<exists>t. kmalloc n s = Ret (of_nat (HEAP + blocks_len xs) + 17) t \<and>
    hb_size (blk t (of_nat (HEAP + blocks_len xs))) = 0 \<and> hb_used (blk t (of_nat (HEAP + blocks_len xs)))"
proof -
  let ?c = "HEAP + blocks_len xs"
  have i: "kmalloc_initalized s" "hseg (mem s) 0 HEAP (xs @ (m, False) # ys) 0"
    and len: "HEAP + blocks_len (xs @ (m, False) # ys) \<le> 4294967296"
    using assms(1) by (auto simp: heap_inv_def)
  have "unat (n + 7) = (unat n + 7) mod 4294967296" by (simp add: unat_word_ariths)
  moreover define r where "r = unat n + 7 - 4294967296"
  then have "unat n + 7 = r + 4294967296" "r < 8" using assms(4) u32_less_size [of n] by linarith+
  ultimately have small: "unat (n + 7) < 8" by simp
  have "(7 :: u32) = mask 3" by (simp add: mask_eq_exp_minus_1)
  then have "(n + 7) AND NOT 7 = push_bit 3 (drop_bit 3 (n + 7))" using and_not_mask [of "n + 7" 3] by simp
  also have "unat (drop_bit 3 (n + 7)) = 0" using small by (simp add: drop_bit_eq_div unat_div)
  then have "drop_bit 3 (n + 7) = 0" by (simp add: unat_eq_0)
  finally have sz: "(n + 7) AND NOT 7 = 0" by simp
  have fnd: "find_fit 0 s = Ret (of_nat ?c, last_addr 0 HEAP xs) s"
    using find_fit_found [OF assms(1), of 0] assms(2) by simp
  have "link True ?c \<noteq> 0" using len by (subst link_zero) auto
  then have nz: "(of_nat ?c :: u32) \<noteq> 0" by (simp add: link_def)
  have "n \<noteq> 0" using assms(4) by auto
  then have run: "kmalloc n s = Ret (of_nat ?c + 17) (take_block (of_nat ?c) 0 s)"
    unfolding kmalloc_def Let_def sz using i(1) fnd nz by (simp add: SIZEOF_heap_block_def del: of_nat_add)
  have h: "blk s (of_nat ?c) = \<lparr>hb_magic = HEAP_MAGIC, hb_size = of_nat m, hb_used = False,
      hb_next = link (ys \<noteq> []) (?c + 17 + m), hb_prev = last_addr 0 HEAP xs\<rparr>"
    using hseg_block [OF i(2) refl] by (simp add: link_def del: of_nat_add)
  have "ys \<noteq> [] \<Longrightarrow> ?c + 17 + m + 17 \<le> 4294967296" using len by (cases ys) auto
  from take_block_split(1) [OF h _ _ _ this, of 0] assms(3) len run show ?thesis by (simp del: of_nat_add)
qed

theorem kmalloc_size_wraps_witness:
  "\<exists>t. kmalloc 0xFFFFFFFF booted_heap = Ret 0xD0000011 t \<and> hb_size (blk t 0xD0000000) = 0"
  using kmalloc_size_wraps [of booted_heap "[]" "0xFFEF" "[]" "0xFFFFFFFF"] booted_heap(2) by auto

text \<open>C10: in every run of a kernel that uses the heap by its contract, each buffer it has still holds
  the bytes last written to it, no two buffers overlap, and each can be freed.\<close>

theorem heap_run_safe:
  assumes "heap_run s B" and "B p = Some ds"
  shows "load_bytes (mem s) p (length ds) = ds \<and>
    (\<forall>q es. B q = Some es \<longrightarrow> q \<noteq> p \<longrightarrow> unat p + length ds < unat q \<or> unat q + length es < unat p) \<and>
    (\<exists>t. kfree p s = Ret () t \<and> heap_run t (B(p := None)))"
proof -
  from heap_run_holds [OF assms(1)] obtain bs where b: "heap_inv s bs" "holds (live HEAP bs) B (mem s)" by blast
  have "load_bytes (mem s) p (length ds) = ds" using b(2) assms(2) unfolding holds_def by blast
  moreover have "\<forall>q es. B q = Some es \<longrightarrow> q \<noteq> p \<longrightarrow> unat p + length ds < unat q \<or> unat q + length es < unat p"
    using heap.holds_apart [OF b assms(2)] by blast
  moreover have "\<exists>t. kfree p s = Ret () t \<and> heap_run t (B(p := None))"
    using heap.release_holds [OF b assms(2)] heap_run.free [OF assms] by blast
  ultimately show ?thesis by blast
qed

theorem heap_run_safe_witness:
  "\<exists>(s :: heap_state) t B ds. heap_run s B \<and> B 0xD0000011 = Some ds \<and> length ds = 16 \<and> kfree 0xD0000011 s = Ret () t"
proof -
  let ?bs = "[(16, True), (0xFFEF - 33, False)]"
  obtain s where s: "kmalloc 16 booted_heap = Ret 0xD0000011 s"
    using kmalloc_fit [OF booted_heap(2), of 16 "HEAP + 17" ?bs] by (auto simp: round8_def split_sizes_def)
  have "heap_run booted_heap (\<lambda>_. None)" by (rule heap_run.start [OF booted_heap(1) no_heap_fields(7)])
  from heap_run.malloc [OF this _ _ s] booted_heap_size
  have run: "heap_run s ((\<lambda>_. None)(0xD0000011 := Some (load_bytes (mem s) 0xD0000011 16)))" by simp
  have "((\<lambda>_. None)(0xD0000011 := Some (load_bytes (mem s) 0xD0000011 16))) 0xD0000011 =
    Some (load_bytes (mem s) 0xD0000011 16)" by simp
  from heap_run_safe [OF run this] obtain t where "kfree 0xD0000011 s = Ret () t" by blast
  with run show ?thesis
    by - (rule exI [where x = s], rule exI [where x = t], rule exI [where x = "[0xD0000011 \<mapsto> load_bytes (mem s) 0xD0000011 16]"], simp)
qed

end
