(* ===== verification/Disk.thy ===== *)
theory Disk
  imports Machine
begin

unbundle bit_operations_syntax

text \<open>
  The disk driver \<^verbatim>\<open>DRIVER/disk.c\<close>: sectors through the ports of an ATA controller, by polling.

  Every wait of the driver is bounded by a counter, so its functions are total whatever the device
  answers; \<open>timeouts\<close> runs down from the bound here. The model of the controller, \<open>ata\<close>, is a device
  with the task-file registers and the sectors; a driver call on it is shown to transfer exactly
  the sectors asked for. The disk as the file systems see it is the predicate \<open>ata_ready\<close>.
\<close>

section \<open>The driver\<close>

definition ATA_DATA_PORT :: u16 where "ATA_DATA_PORT = 0x1F0"
definition ATA_SECTOR_COUNT_PORT :: u16 where "ATA_SECTOR_COUNT_PORT = 0x1F2"
definition ATA_LBA_LOW_PORT :: u16 where "ATA_LBA_LOW_PORT = 0x1F3"
definition ATA_LBA_MID_PORT :: u16 where "ATA_LBA_MID_PORT = 0x1F4"
definition ATA_LBA_HIGH_PORT :: u16 where "ATA_LBA_HIGH_PORT = 0x1F5"
definition ATA_DRIVE_PORT :: u16 where "ATA_DRIVE_PORT = 0x1F6"
definition ATA_STATUS_PORT :: u16 where "ATA_STATUS_PORT = 0x1F7"
definition ATA_COMMAND_PORT :: u16 where "ATA_COMMAND_PORT = 0x1F7"
definition ATA_SR_BSY :: u8 where "ATA_SR_BSY = 0x80"
definition ATA_SR_DRQ :: u8 where "ATA_SR_DRQ = 0x08"
definition ATA_SR_ERR :: u8 where "ATA_SR_ERR = 0x01"
definition ATA_CMD_READ_PIO :: u8 where "ATA_CMD_READ_PIO = 0x20"
definition ATA_CMD_WRITE_PIO :: u8 where "ATA_CMD_WRITE_PIO = 0x30"
definition ATA_CMD_CACHE_FLUSH :: u8 where "ATA_CMD_CACHE_FLUSH = 0xE7"

lemmas ata_consts = ATA_DATA_PORT_def ATA_SECTOR_COUNT_PORT_def ATA_LBA_LOW_PORT_def ATA_LBA_MID_PORT_def
  ATA_LBA_HIGH_PORT_def ATA_DRIVE_PORT_def ATA_STATUS_PORT_def ATA_COMMAND_PORT_def ATA_SR_BSY_def
  ATA_SR_DRQ_def ATA_SR_ERR_def ATA_CMD_READ_PIO_def ATA_CMD_WRITE_PIO_def ATA_CMD_CACHE_FLUSH_def

text \<open>The argument of the waits is \<open>100001 - timeouts\<close>: the test \<^verbatim>\<open>timeouts++ > 100000\<close> succeeds at 0.\<close>

fun wait_not_busy :: "nat \<Rightarrow> 'a machine_scheme \<Rightarrow> bool \<times> 'a machine_scheme" where
  "wait_not_busy n s =
     (let (v, s) = inb ATA_STATUS_PORT s in
      if v AND ATA_SR_BSY = 0 then (True, s)
      else case n of 0 \<Rightarrow> (False, s) | Suc m \<Rightarrow> wait_not_busy m s)"

definition wait_for_disk :: "'a machine_scheme \<Rightarrow> bool \<times> 'a machine_scheme" where
  "wait_for_disk s =
     (let (ready, s) = wait_not_busy 100001 s in
      if \<not> ready then (False, s)
      else let (v, s) = inb ATA_STATUS_PORT s in (v AND ATA_SR_ERR = 0, s))"

fun wait_read_drq :: "nat \<Rightarrow> 'a machine_scheme \<Rightarrow> bool \<times> 'a machine_scheme" where
  "wait_read_drq n s =
     (let (v, s) = inb ATA_STATUS_PORT s in
      if v AND ATA_SR_DRQ \<noteq> 0 then (True, s)
      else case n of 0 \<Rightarrow> (False, s) | Suc m \<Rightarrow>
        let (e, s) = inb ATA_STATUS_PORT s in
        if e AND ATA_SR_ERR \<noteq> 0 then (False, s) else wait_read_drq m s)"

fun wait_write_drq :: "nat \<Rightarrow> 'a machine_scheme \<Rightarrow> bool \<times> 'a machine_scheme" where
  "wait_write_drq n s =
     (let (v, s) = inb ATA_STATUS_PORT s in
      if v AND ATA_SR_DRQ \<noteq> 0 then (True, s)
      else let (e, s) = inb ATA_STATUS_PORT s in
        if e AND ATA_SR_ERR \<noteq> 0 then (False, s)
        else case n of 0 \<Rightarrow> (False, s) | Suc m \<Rightarrow> wait_write_drq m s)"

declare wait_not_busy.simps [simp del] wait_read_drq.simps [simp del] wait_write_drq.simps [simp del]

definition select_sectors :: "u32 \<Rightarrow> u32 \<Rightarrow> u8 \<Rightarrow> 'a machine_scheme \<Rightarrow> 'a machine_scheme" where
  "select_sectors lba sector_count cmd s =
     (let s = outb ATA_DRIVE_PORT (ucast (0xE0 OR (drop_bit 24 lba AND 0x0F))) s;
          s = io_wait s;
          s = outb ATA_SECTOR_COUNT_PORT (ucast sector_count) s;
          s = outb ATA_LBA_LOW_PORT (ucast lba) s;
          s = outb ATA_LBA_MID_PORT (ucast (drop_bit 8 lba)) s;
          s = outb ATA_LBA_HIGH_PORT (ucast (drop_bit 16 lba)) s
      in outb ATA_COMMAND_PORT cmd s)"

fun read_words :: "nat \<Rightarrow> u32 \<Rightarrow> 'a machine_scheme \<Rightarrow> 'a machine_scheme" where
  "read_words 0 a s = s"
| "read_words (Suc n) a s =
     (let (v, s) = inw ATA_DATA_PORT s in read_words n (a + 2) (s\<lparr>mem := store16 a v (mem s)\<rparr>))"

fun read_loop :: "nat \<Rightarrow> u32 \<Rightarrow> 'a machine_scheme \<Rightarrow> 'a machine_scheme" where
  "read_loop 0 a s = s"
| "read_loop (Suc n) a s =
     (let (ready, s) = wait_read_drq 100001 s in
      if \<not> ready then s else read_loop n (a + 512) (read_words 256 a s))"

definition read_sectors :: "u32 \<Rightarrow> u32 \<Rightarrow> u32 \<Rightarrow> 'a machine_scheme \<Rightarrow> 'a machine_scheme" where
  "read_sectors lba sector_count buffer s =
     (let (ready, s) = wait_for_disk s in
      if \<not> ready then s
      else read_loop (unat sector_count) buffer (select_sectors lba sector_count ATA_CMD_READ_PIO s))"

fun write_words :: "nat \<Rightarrow> u32 \<Rightarrow> 'a machine_scheme \<Rightarrow> 'a machine_scheme" where
  "write_words 0 a s = s"
| "write_words (Suc n) a s = write_words n (a + 2) (outw ATA_DATA_PORT (load16 (mem s) a) s)"

text \<open>The result says whether all sectors were written (the C code returns from the function).\<close>

fun write_loop :: "nat \<Rightarrow> u32 \<Rightarrow> 'a machine_scheme \<Rightarrow> bool \<times> 'a machine_scheme" where
  "write_loop 0 a s = (True, s)"
| "write_loop (Suc n) a s =
     (let (ready, s) = wait_write_drq 100001 s in
      if \<not> ready then (False, s) else write_loop n (a + 512) (write_words 256 a s))"

definition write_sectors :: "u32 \<Rightarrow> u32 \<Rightarrow> u32 \<Rightarrow> 'a machine_scheme \<Rightarrow> 'a machine_scheme" where
  "write_sectors lba sector_count buffer s =
     (if sector_count = 0 then s else
      let (ready, s) = wait_for_disk s in
      if \<not> ready then s
      else let (done, s) = write_loop (unat sector_count) buffer (select_sectors lba sector_count ATA_CMD_WRITE_PIO s) in
        if \<not> done then s
        else snd (wait_for_disk (outb ATA_COMMAND_PORT ATA_CMD_CACHE_FLUSH s)))"

section \<open>Whatever the device does\<close>

text \<open>The driver changes the device and the bytes of the buffer, nothing else.\<close>

definition io_on :: "u32 \<Rightarrow> nat \<Rightarrow> 'a machine_scheme \<Rightarrow> 'a machine_scheme \<Rightarrow> bool" where
  "io_on a n s t \<longleftrightarrow> (\<exists>d m. t = s\<lparr>dev := d, mem := m\<rparr> \<and> (\<forall>x. n \<le> unat (x - a) \<longrightarrow> m x = mem s x))"

lemma io_onI: "(\<And>x. n \<le> unat (x - a) \<Longrightarrow> m x = mem s x) \<Longrightarrow> io_on a n s (s\<lparr>dev := d, mem := m\<rparr>)"
  unfolding io_on_def by blast

lemma io_onE:
  assumes "io_on a n s t"
  obtains d m where "t = s\<lparr>dev := d, mem := m\<rparr>" "\<And>x. n \<le> unat (x - a) \<Longrightarrow> m x = mem s x"
  using assms unfolding io_on_def by blast

lemma io_on_dev: "io_on a n s (s\<lparr>dev := d\<rparr>)"
  using io_onI [of n a "mem s" s d] by simp

lemma io_on_mem: "(\<And>x. n \<le> unat (x - a) \<Longrightarrow> m x = mem s x) \<Longrightarrow> io_on a n s (s\<lparr>mem := m\<rparr>)"
  using io_onI [of n a m s "dev s"] by simp

lemma io_on_refl [simp]: "io_on a n s s"
  using io_on_dev [of a n s "dev s"] by simp

lemma io_on_trans:
  assumes "io_on a n s t" "io_on a n t u"
  shows "io_on a n s u"
proof -
  from assms(1) obtain d m where t: "t = s\<lparr>dev := d, mem := m\<rparr>" "\<And>x. n \<le> unat (x - a) \<Longrightarrow> m x = mem s x"
    by (rule io_onE) blast
  from assms(2) obtain e k where u: "u = t\<lparr>dev := e, mem := k\<rparr>" "\<And>x. n \<le> unat (x - a) \<Longrightarrow> k x = mem t x"
    by (rule io_onE) blast
  have "u = s\<lparr>dev := e, mem := k\<rparr>" by (simp add: t u)
  moreover have "\<And>x. n \<le> unat (x - a) \<Longrightarrow> k x = mem s x" using t u by simp
  ultimately show ?thesis using io_onI [of n a k s e] by simp
qed

lemma io_on_port [simp]:
  "io_on a n s (snd (inb p s))" "io_on a n s (snd (inw p s))" "io_on a n s (outb p v s)" "io_on a n s (outw p w s)"
  by (simp_all add: inb_def inw_def outb_def outw_def split_beta Let_def io_on_dev)

lemma io_on_mono: "io_on b k s t \<Longrightarrow> (\<And>x. n \<le> unat (x - a) \<Longrightarrow> k \<le> unat (x - b)) \<Longrightarrow> io_on a n s t"
  by (auto simp: io_on_def)

lemma io_on_out: "io_on a n s t \<Longrightarrow> io_on a n s (outb p v t)" "io_on a n s t \<Longrightarrow> io_on a n s (outw p w t)"
  by (blast intro: io_on_trans io_on_port)+

lemma wait_not_busy_io [simp]: "io_on a n s (snd (wait_not_busy k s))"
proof (induction k arbitrary: s)
  case 0
  show ?case by (subst wait_not_busy.simps) (simp add: split_beta)
next
  case (Suc k)
  show ?case by (subst wait_not_busy.simps) (auto simp: split_beta intro: io_on_trans [OF io_on_port(1) Suc])
qed

lemma wait_for_disk_io [simp]: "io_on a n s (snd (wait_for_disk s))"
  by (simp add: wait_for_disk_def split_beta io_on_trans [OF wait_not_busy_io io_on_port(1)])

lemma wait_read_drq_io [simp]: "io_on a n s (snd (wait_read_drq k s))"
proof (induction k arbitrary: s)
  case 0
  show ?case by (subst wait_read_drq.simps) (simp add: split_beta)
next
  case (Suc k)
  note two = io_on_trans [OF io_on_port(1) io_on_port(1)]
  show ?case by (subst wait_read_drq.simps) (auto simp: split_beta intro: two io_on_trans [OF two Suc])
qed

lemma wait_write_drq_io [simp]: "io_on a n s (snd (wait_write_drq k s))"
proof (induction k arbitrary: s)
  case 0
  note two = io_on_trans [OF io_on_port(1) io_on_port(1)]
  show ?case by (subst wait_write_drq.simps) (auto simp: split_beta intro: two)
next
  case (Suc k)
  note two = io_on_trans [OF io_on_port(1) io_on_port(1)]
  show ?case by (subst wait_write_drq.simps) (auto simp: split_beta intro: two io_on_trans [OF two Suc])
qed

lemma select_sectors_io [simp]: "io_on a n s (select_sectors lba k cmd s)"
  by (simp add: select_sectors_def io_wait_def Let_def io_on_out)

lemma step_outside:
  fixes x a :: u32
  assumes "i + k \<le> n" "n \<le> 4294967296" "n \<le> unat (x - a)" "0 < k"
  shows "k \<le> unat (x - (a + of_nat i))"
proof -
  have i: "unat (of_nat i :: u32) = i" using assms u32_less_size [of "x - a"] by (intro unat_of_nat_u32) linarith
  have "x - (a + of_nat i) = (x - a) - of_nat i" by simp
  also have "unat \<dots> = unat (x - a) - i" using assms i by (subst unat_sub_u32) (simp_all add: u32_le_iff)
  finally show ?thesis using assms(1,3) by simp
qed

lemma read_words_io: "2 * n \<le> 4294967296 \<Longrightarrow> io_on a (2 * n) s (read_words n a s)"
proof (induction n arbitrary: a s)
  case (Suc n)
  define u where "u = snd (inw ATA_DATA_PORT s)"
  let ?v = "fst (inw ATA_DATA_PORT s)"
  have "io_on a (2 * Suc n) s u" by (simp add: u_def)
  moreover have "io_on a (2 * Suc n) u (u\<lparr>mem := store16 a ?v (mem u)\<rparr>)"
    by (rule io_on_mem) (simp add: store16_def store_bytes_outside)
  moreover have "io_on a (2 * Suc n) (u\<lparr>mem := store16 a ?v (mem u)\<rparr>) (read_words n (a + 2) (u\<lparr>mem := store16 a ?v (mem u)\<rparr>))"
  proof (cases "n = 0")
    case False
    have le: "2 * n \<le> 4294967296" using Suc.prems by simp
    show ?thesis
    proof (rule io_on_mono [OF Suc.IH [OF le, of "a + 2"]])
      fix x assume "2 * Suc n \<le> unat (x - a)"
      with Suc.prems False show "2 * n \<le> unat (x - (a + 2))" using step_outside [of 2 "2 * n" "2 * Suc n" x a] by simp
    qed
  qed simp
  ultimately have "io_on a (2 * Suc n) s (read_words n (a + 2) (u\<lparr>mem := store16 a ?v (mem u)\<rparr>))"
    by (blast intro: io_on_trans)
  then show ?case by (simp add: Let_def split_beta u_def)
qed simp

lemma read_loop_io: "512 * n \<le> 4294967296 \<Longrightarrow> io_on a (512 * n) s (read_loop n a s)"
proof (induction n arbitrary: a s)
  case (Suc n)
  define u where "u = snd (wait_read_drq 100001 s)"
  have "io_on a (512 * Suc n) s u" by (simp add: u_def)
  moreover have "io_on a (512 * Suc n) u (read_words 256 a u)"
    by (rule io_on_mono [OF read_words_io]) simp_all
  moreover have "io_on a (512 * Suc n) (read_words 256 a u) (read_loop n (a + 512) (read_words 256 a u))"
  proof (cases "n = 0")
    case False
    have le: "512 * n \<le> 4294967296" using Suc.prems by simp
    show ?thesis
    proof (rule io_on_mono [OF Suc.IH [OF le, of "a + 512"]])
      fix x assume "512 * Suc n \<le> unat (x - a)"
      with Suc.prems False show "512 * n \<le> unat (x - (a + 512))" using step_outside [of 512 "512 * n" "512 * Suc n" x a] by simp
    qed
  qed simp
  ultimately have "io_on a (512 * Suc n) s (read_loop n (a + 512) (read_words 256 a u))"
    by (blast intro: io_on_trans)
  then show ?case using \<open>io_on a (512 * Suc n) s u\<close> by (simp add: Let_def split_beta u_def)
qed simp

lemma read_sectors_io:
  "512 * unat n \<le> 4294967296 \<Longrightarrow> io_on a (512 * unat n) s (read_sectors lba n a s)"
  by (simp add: read_sectors_def split_beta io_on_trans [OF io_on_trans [OF wait_for_disk_io select_sectors_io] read_loop_io])

lemma write_words_io: "io_on b k s (write_words n a s)"
proof (induction n arbitrary: a s)
  case (Suc n)
  show ?case by (simp add: io_on_trans [OF io_on_port(4) Suc])
qed simp

lemma write_loop_io: "io_on b k s (snd (write_loop n a s))"
proof (induction n arbitrary: a s)
  case (Suc n)
  show ?case
    by (simp add: split_beta Let_def io_on_trans [OF io_on_trans [OF wait_write_drq_io write_words_io] Suc])
qed simp

lemma write_sectors_io: "io_on b k s (write_sectors lba n a s)"
proof -
  note loop = io_on_trans [OF io_on_trans [OF wait_for_disk_io select_sectors_io] write_loop_io]
  show ?thesis
    by (simp add: write_sectors_def split_beta Let_def loop io_on_trans [OF io_on_out(1) [OF loop] wait_for_disk_io])
qed

section \<open>An ATA disk\<close>

text \<open>
  The controller: the task-file registers, the words still to be read by the host (\<open>at_in\<close>), how
  many words the host still has to write (\<open>at_left\<close>, to the sector \<open>at_out\<close>, with those of the current
  sector in \<open>at_buf\<close>), and the sectors. \<^verbatim>\<open>DRQ\<close> is set while a transfer is under way.
\<close>

record ata_state =
  at_count :: u8
  at_low :: u8
  at_mid :: u8
  at_high :: u8
  at_drive :: u8
  at_in :: "u16 list"
  at_left :: nat
  at_out :: nat
  at_buf :: "u16 list"
  at_sectors :: "nat \<Rightarrow> bytes"

definition sector_words :: "bytes \<Rightarrow> u16 list" where
  "sector_words bs = map (\<lambda>i. of_le16 (bs ! (2 * i)) (bs ! (2 * i + 1))) [0..<256]"

definition words_bytes :: "u16 list \<Rightarrow> bytes" where
  "words_bytes ws = concat (map le16 ws)"

definition at_lba :: "ata_state \<Rightarrow> nat" where
  "at_lba r = unat (at_low r) + 256 * unat (at_mid r) + 65536 * unat (at_high r) + 16777216 * unat (at_drive r AND 0x0F)"

definition at_number :: "ata_state \<Rightarrow> nat" where
  "at_number r = (if at_count r = 0 then 256 else unat (at_count r))"

definition ata_inb :: "ata_state \<Rightarrow> u16 \<Rightarrow> u8 \<times> ata_state" where
  "ata_inb r p = (if p = 0x1F7 then (if at_in r \<noteq> [] \<or> at_left r \<noteq> 0 then 0x48 else 0x40, r) else (0, r))"

definition ata_inw :: "ata_state \<Rightarrow> u16 \<Rightarrow> u16 \<times> ata_state" where
  "ata_inw r p = (case at_in r of [] \<Rightarrow> (0, r) | w # ws \<Rightarrow> if p = 0x1F0 then (w, r\<lparr>at_in := ws\<rparr>) else (0, r))"

definition ata_outb :: "ata_state \<Rightarrow> u16 \<Rightarrow> u8 \<Rightarrow> ata_state" where
  "ata_outb r p v =
     (if p = 0x1F2 then r\<lparr>at_count := v\<rparr> else if p = 0x1F3 then r\<lparr>at_low := v\<rparr>
      else if p = 0x1F4 then r\<lparr>at_mid := v\<rparr> else if p = 0x1F5 then r\<lparr>at_high := v\<rparr>
      else if p = 0x1F6 then r\<lparr>at_drive := v\<rparr>
      else if p = 0x1F7 \<and> v = 0x20 then
        r\<lparr>at_in := concat (map (\<lambda>i. sector_words (at_sectors r i)) [at_lba r..<at_lba r + at_number r])\<rparr>
      else if p = 0x1F7 \<and> v = 0x30 then r\<lparr>at_left := 256 * at_number r, at_out := at_lba r, at_buf := []\<rparr>
      else r)"

definition ata_outw :: "ata_state \<Rightarrow> u16 \<Rightarrow> u16 \<Rightarrow> ata_state" where
  "ata_outw r p w =
     (if p \<noteq> 0x1F0 \<or> at_left r = 0 then r else
      let r = r\<lparr>at_left := at_left r - 1, at_buf := at_buf r @ [w]\<rparr> in
      if length (at_buf r) < 256 then r
      else r\<lparr>at_buf := [], at_out := Suc (at_out r), at_sectors := (at_sectors r)(at_out r := words_bytes (at_buf r))\<rparr>)"

definition ata :: "ata_state \<Rightarrow> iodev" where
  "ata = device ata_inb ata_inw ata_outb ata_outw"

lemma ata_ports:
  "io_inb (ata r) p = map_prod id ata (ata_inb r p)" "io_inw (ata r) p = map_prod id ata (ata_inw r p)"
  "io_outb (ata r) p v = ata (ata_outb r p v)" "io_outw (ata r) p w = ata (ata_outw r p w)"
  by (simp_all add: ata_def device.sel)

text \<open>A disk that is idle with the sectors \<open>D\<close>, all of 512 bytes.\<close>

definition ata_ready :: "(nat \<Rightarrow> bytes) \<Rightarrow> 'a machine_scheme \<Rightarrow> bool" where
  "ata_ready D s \<longleftrightarrow> (\<exists>r. dev s = ata r \<and> at_in r = [] \<and> at_left r = 0 \<and> at_buf r = [] \<and> at_sectors r = D) \<and>
     (\<forall>i. length (D i) = 512)"

lemma words_bytes_simps [simp]: "words_bytes [] = []" "words_bytes (w # ws) = le16 w @ words_bytes ws"
  "words_bytes (xs @ ys) = words_bytes xs @ words_bytes ys" "length (words_bytes ws) = 2 * length ws"
  by (induction ws) (auto simp: words_bytes_def)

lemma le16_of_le16: "le16 (of_le16 a b) = [a, b]"
proof -
  have "ucast (of_le16 a b) = a" by (rule bit_word_eqI) (auto simp: of_le16_def bit_simps)
  moreover have "ucast (drop_bit 8 (of_le16 a b)) = b"
    by (rule bit_word_eqI) (auto simp: of_le16_def bit_simps dest: bit_imp_le_length)
  ultimately show ?thesis by (simp add: le16_def)
qed

lemma length_sector_words [simp]: "length (sector_words bs) = 256"
  by (simp add: sector_words_def)

lemma words_bytes_map:
  "words_bytes (map (\<lambda>i. of_le16 (f (2 * i)) (f (2 * i + 1))) [0..<n]) = map f [0..<2 * n]"
  by (induction n) (auto simp: le16_of_le16)

lemma sector_words_bytes: "length bs = 512 \<Longrightarrow> words_bytes (sector_words bs) = bs"
  using words_bytes_map [of "\<lambda>i. bs ! i" 256] map_nth [of bs] by (simp add: sector_words_def)

lemma wait_ata:
  assumes "dev s = ata r"
  shows "wait_not_busy k s = (True, s)" "wait_for_disk s = (True, s)"
    and "at_in r \<noteq> [] \<or> at_left r \<noteq> 0 \<Longrightarrow> wait_read_drq k s = (True, s)"
    and "at_in r \<noteq> [] \<or> at_left r \<noteq> 0 \<Longrightarrow> wait_write_drq k s = (True, s)"
proof -
  have i: "inb ATA_STATUS_PORT s = (if at_in r \<noteq> [] \<or> at_left r \<noteq> 0 then 0x48 else 0x40, s)"
    using assms by (simp add: inb_def ata_ports ata_inb_def ATA_STATUS_PORT_def)
  show w: "wait_not_busy k s = (True, s)" for k
    by (subst wait_not_busy.simps) (simp add: i ATA_SR_BSY_def)
  show "wait_for_disk s = (True, s)" by (simp add: wait_for_disk_def w i ATA_SR_ERR_def)
  show "at_in r \<noteq> [] \<or> at_left r \<noteq> 0 \<Longrightarrow> wait_read_drq k s = (True, s)"
    by (subst wait_read_drq.simps) (simp add: i ATA_SR_DRQ_def)
  show "at_in r \<noteq> [] \<or> at_left r \<noteq> 0 \<Longrightarrow> wait_write_drq k s = (True, s)"
    by (subst wait_write_drq.simps) (simp add: i ATA_SR_DRQ_def)
qed

lemma read_words_ata:
  "dev s = ata r \<Longrightarrow> n \<le> length (at_in r) \<Longrightarrow> 2 * n \<le> 4294967296 \<Longrightarrow>
   read_words n a s = s\<lparr>mem := store_bytes a (words_bytes (take n (at_in r))) (mem s), dev := ata (r\<lparr>at_in := drop n (at_in r)\<rparr>)\<rparr>"
proof (induction n arbitrary: a s r)
  case 0
  have "s\<lparr>dev := dev s\<rparr> = s" by simp
  with 0 show ?case by simp
next
  case (Suc n)
  from Suc.prems(2) obtain w ws where r: "at_in r = w # ws" by (cases "at_in r") auto
  let ?s = "s\<lparr>dev := ata (r\<lparr>at_in := ws\<rparr>), mem := store16 a w (mem s)\<rparr>"
  have "read_words (Suc n) a s = read_words n (a + 2) ?s"
    using Suc.prems(1) by (simp add: inw_def ata_ports ata_inw_def r ATA_DATA_PORT_def)
  also have "\<dots> = ?s\<lparr>mem := store_bytes (a + 2) (words_bytes (take n ws)) (mem ?s), dev := ata (r\<lparr>at_in := drop n ws\<rparr>)\<rparr>"
    using Suc.IH [of ?s "r\<lparr>at_in := ws\<rparr>" "a + 2"] Suc.prems r by simp
  finally show ?case using Suc.prems r store_bytes_append [of "le16 w" "words_bytes (take n ws)" a "mem s"]
    by (simp add: store16_def)
qed

lemma length_concat_512: "\<forall>bs\<in>set bss. length bs = 512 \<Longrightarrow> length (concat bss) = 512 * length bss"
  by (induction bss) auto

lemma read_loop_ata:
  assumes "dev s = ata r" "at_in r = concat (map sector_words bss)" "512 * length bss \<le> 4294967296"
    and "\<forall>bs\<in>set bss. length bs = 512"
  shows "read_loop (length bss) a s = s\<lparr>mem := store_bytes a (concat bss) (mem s), dev := ata (r\<lparr>at_in := []\<rparr>)\<rparr>"
  using assms
proof (induction bss arbitrary: a s r)
  case Nil
  then have "ata (r\<lparr>at_in := []\<rparr>) = dev s" by (cases r) simp
  then show ?case by (simp del: ata_state.update_convs)
next
  case (Cons bs bss)
  have ne: "at_in r \<noteq> []" using Cons.prems(2) by (simp add: sector_words_def)
  have len: "length bs = 512" using Cons.prems(4) by simp
  let ?s = "s\<lparr>mem := store_bytes a bs (mem s), dev := ata (r\<lparr>at_in := concat (map sector_words bss)\<rparr>)\<rparr>"
  have "read_words 256 a s = ?s"
    using Cons.prems(1,2) len by (simp add: read_words_ata sector_words_bytes)
  then have "read_loop (length (bs # bss)) a s = read_loop (length bss) (a + 512) ?s"
    using wait_ata(3) [OF Cons.prems(1)] ne by simp
  also have "\<dots> = ?s\<lparr>mem := store_bytes (a + 512) (concat bss) (mem ?s), dev := ata (r\<lparr>at_in := []\<rparr>)\<rparr>"
    using Cons.IH [of ?s "r\<lparr>at_in := concat (map sector_words bss)\<rparr>" "a + 512"] Cons.prems by simp
  finally show ?case
    using Cons.prems(3,4) len store_bytes_append [of bs "concat bss" a "mem s"]
    by (simp add: length_concat_512)
qed

lemma select_ata:
  assumes r: "dev s = ata r" "at_in r = []" "at_left r = 0" "at_buf r = []"
    and n: "unat lba < 268435456" "0 < unat n" "unat n \<le> 256"
  obtains r' where "at_in r' = []" "at_left r' = 0" "at_buf r' = []" "at_sectors r' = at_sectors r"
    "at_lba r' = unat lba" "at_number r' = unat n"
    "select_sectors lba n ATA_CMD_READ_PIO s = s\<lparr>dev := ata (r'\<lparr>at_in :=
       concat (map (\<lambda>i. sector_words (at_sectors r i)) [unat lba..<unat lba + unat n])\<rparr>)\<rparr>"
    "select_sectors lba n ATA_CMD_WRITE_PIO s = s\<lparr>dev := ata (r'\<lparr>at_left := 256 * unat n, at_out := unat lba, at_buf := []\<rparr>)\<rparr>"
proof -
  let ?r = "r\<lparr>at_drive := ucast (0xE0 OR (drop_bit 24 lba AND 0x0F)), at_count := ucast n, at_low := ucast lba,
    at_mid := ucast (drop_bit 8 lba), at_high := ucast (drop_bit 16 lba)\<rparr>"
  have hi: "unat (ucast (0xE0 OR (drop_bit 24 lba AND 0x0F)) AND (0x0F :: u8)) = unat lba div 16777216"
  proof -
    have d: "unat (drop_bit 24 lba) = unat lba div 16777216" by (simp add: drop_bit_eq_div unat_div)
    define k where "k = unat lba div 16777216"
    then have "k < 16" using n(1) by (simp add: div_less_iff_less_mult)
    moreover have "drop_bit 24 lba = of_nat k" unfolding k_def d [symmetric] by simp
    moreover have "k = 0 \<or> k = 1 \<or> k = 2 \<or> k = 3 \<or> k = 4 \<or> k = 5 \<or> k = 6 \<or> k = 7 \<or> k = 8 \<or> k = 9 \<or> k = 10 \<or>
      k = 11 \<or> k = 12 \<or> k = 13 \<or> k = 14 \<or> k = 15" using calculation(1) by presburger
    ultimately show ?thesis unfolding k_def [symmetric] by (elim disjE) simp_all
  qed
  have u8: "unat (ucast (x :: u32) :: u8) = unat x mod 256" for x
    by (simp add: unsigned_ucast_eq take_bit_eq_mod)
  have "at_lba ?r = unat lba"
  proof -
    define L where "L = unat lba"
    have "L div 256 div 256 = L div 65536" "L div 65536 div 256 = L div 16777216"
      by (simp_all add: div_mult2_eq [symmetric])
    then have "L mod 256 + 256 * ((L div 256) mod 256) + 65536 * ((L div 65536) mod 256) + 16777216 * (L div 16777216) = L"
      using div_mult_mod_eq [of L 256] div_mult_mod_eq [of "L div 256" 256] div_mult_mod_eq [of "L div 65536" 256]
      by linarith
    then show ?thesis by (simp add: at_lba_def hi) (simp add: u8 drop_bit_eq_div unat_div L_def)
  qed
  moreover have "at_number ?r = unat n"
  proof -
    have "(ucast n = (0 :: u8)) = (unat n mod 256 = 0)" using u8 [of n] by (simp add: word_unat_eq_iff)
    also have "\<dots> = (unat n = 256)" using n(2,3) by (cases "unat n = 256") auto
    finally show ?thesis using u8 [of n] n(2,3) by (auto simp: at_number_def)
  qed
  ultimately show thesis
    using r by (intro that [of ?r])
      (auto simp: select_sectors_def io_wait_def outb_def Let_def ata_ports ata_outb_def ata_consts at_lba_def at_number_def)
qed

lemma read_sectors_ata:
  assumes "ata_ready D s" "unat lba + unat n \<le> 268435456" "0 < unat n" "unat n \<le> 256"
  shows "\<exists>d. read_sectors lba n a s = s\<lparr>mem := store_bytes a (concat (map D [unat lba..<unat lba + unat n])) (mem s), dev := d\<rparr> \<and>
    ata_ready D (read_sectors lba n a s)"
proof -
  from assms(1) obtain r where r: "dev s = ata r" "at_in r = []" "at_left r = 0" "at_buf r = []" "at_sectors r = D"
    and D: "\<forall>i. length (D i) = 512" by (auto simp: ata_ready_def)
  have lba: "unat lba < 268435456" using assms(2,3) by simp
  from select_ata [OF r(1-4) lba assms(3,4)] obtain r' where r': "at_in r' = []" "at_left r' = 0" "at_buf r' = []"
    "at_sectors r' = D"
    "select_sectors lba n ATA_CMD_READ_PIO s = s\<lparr>dev := ata (r'\<lparr>at_in :=
       concat (map (\<lambda>i. sector_words (D i)) [unat lba..<unat lba + unat n])\<rparr>)\<rparr>" unfolding r(5) by metis
  let ?bss = "map D [unat lba..<unat lba + unat n]"
  let ?r = "r'\<lparr>at_in := concat (map sector_words ?bss)\<rparr>"
  have "read_loop (length ?bss) a (s\<lparr>dev := ata ?r\<rparr>) =
    (s\<lparr>dev := ata ?r\<rparr>)\<lparr>mem := store_bytes a (concat ?bss) (mem s), dev := ata (?r\<lparr>at_in := []\<rparr>)\<rparr>"
    using D assms(4) by (subst read_loop_ata [of _ ?r]) auto
  then have run: "read_sectors lba n a s = s\<lparr>mem := store_bytes a (concat ?bss) (mem s), dev := ata (r'\<lparr>at_in := []\<rparr>)\<rparr>"
    using wait_ata(2) [OF r(1)] r'(5) by (simp add: read_sectors_def comp_def)
  moreover have "ata_ready D (read_sectors lba n a s)" unfolding run ata_ready_def using r' D by auto
  ultimately show ?thesis by blast
qed

lemma write_words_ata:
  "dev s = ata r \<Longrightarrow> at_left r = n + m \<Longrightarrow> length (at_buf r) + n \<le> 255 \<Longrightarrow>
   write_words n a s = s\<lparr>dev := ata (r\<lparr>at_left := m, at_buf := at_buf r @ map (\<lambda>i. load16 (mem s) (a + 2 * of_nat i)) [0..<n]\<rparr>)\<rparr>"
proof (induction n arbitrary: a s r)
  case 0
  then have "ata (r\<lparr>at_left := m, at_buf := at_buf r\<rparr>) = dev s" by (cases r) simp
  then show ?case by (simp del: ata_state.update_convs)
next
  case (Suc n)
  let ?w = "load16 (mem s) a"
  let ?r = "r\<lparr>at_left := n + m, at_buf := at_buf r @ [?w]\<rparr>"
  have out: "outw ATA_DATA_PORT ?w s = s\<lparr>dev := ata ?r\<rparr>"
    using Suc.prems by (simp add: outw_def ata_ports ata_outw_def ATA_DATA_PORT_def Let_def)
  have "map (\<lambda>i. load16 (mem s) (a + 2 * of_nat i)) [0..<Suc n] = ?w # map (\<lambda>i. load16 (mem s) (a + 2 + 2 * of_nat i)) [0..<n]"
    by (simp only: upt_conv_Cons map_Suc_upt [symmetric] zero_less_Suc) (simp add: algebra_simps comp_def)
  with Suc.IH [of "s\<lparr>dev := ata ?r\<rparr>" ?r "a + 2"] Suc.prems out show ?case by simp
qed

lemma write_words_add: "write_words (n + k) a s = write_words k (a + 2 * of_nat n) (write_words n a s)"
  by (induction n arbitrary: a s) (auto simp: algebra_simps)

lemma words_bytes_load:
  "words_bytes (map (\<lambda>i. load16 m (a + 2 * of_nat i)) [0..<n]) = load_bytes m a (2 * n)"
  by (induction n) (auto simp: load16_def le16_of_le16 load_bytes_def ac_simps)

lemma write_sector_ata:
  assumes "dev s = ata r" "at_left r = 256 * Suc k" "at_buf r = []"
  shows "write_words 256 a s = s\<lparr>dev := ata (r\<lparr>at_left := 256 * k, at_buf := [], at_out := Suc (at_out r),
    at_sectors := (at_sectors r)(at_out r := load_bytes (mem s) a 512)\<rparr>)\<rparr>"
proof -
  let ?ws = "map (\<lambda>i. load16 (mem s) (a + 2 * of_nat i)) [0..<255]"
  let ?r = "r\<lparr>at_left := Suc (256 * k), at_buf := ?ws\<rparr>"
  have 255: "write_words 255 a s = s\<lparr>dev := ata ?r\<rparr>"
    using write_words_ata [of s r 255 "Suc (256 * k)" a] assms by simp
  have one: "write_words 1 b s = outw ATA_DATA_PORT (load16 (mem s) b) s" for b and s :: "'a machine_scheme"
    by (simp only: One_nat_def write_words.simps)
  have "write_words 256 a s = outw ATA_DATA_PORT (load16 (mem s) (a + 2 * of_nat 255)) (s\<lparr>dev := ata ?r\<rparr>)"
    using write_words_add [of 255 1 a s] 255 by (simp add: one)
  moreover have "?ws @ [load16 (mem s) (a + 2 * of_nat 255)] = map (\<lambda>i. load16 (mem s) (a + 2 * of_nat i)) [0..<256]"
    using upt_Suc_append [of 0 255] by (simp del: upt_Suc upt_rec_numeral)
  then have "words_bytes (?ws @ [load16 (mem s) (a + 2 * of_nat 255)]) = load_bytes (mem s) a 512"
    using words_bytes_load [of "mem s" a 256] by (simp del: upt_rec_numeral words_bytes_simps)
  ultimately show ?thesis
    by (simp add: outw_def ata_ports ata_outw_def ATA_DATA_PORT_def Let_def del: upt_rec_numeral words_bytes_simps)
qed

lemma write_loop_ata:
  assumes "dev s = ata r" "at_left r = 256 * n" "at_buf r = []"
  shows "write_loop n a s = (True, s\<lparr>dev := ata (r\<lparr>at_left := 0, at_out := at_out r + n, at_sectors :=
    (\<lambda>i. if at_out r \<le> i \<and> i < at_out r + n then load_bytes (mem s) (a + 512 * of_nat (i - at_out r)) 512 else at_sectors r i)\<rparr>)\<rparr>)"
  using assms
proof (induction n arbitrary: a s r)
  case 0
  then have "ata (r\<lparr>at_left := 0\<rparr>) = dev s" by (cases r) simp
  moreover have "(\<lambda>i. if at_out r \<le> i \<and> i < at_out r then g i else at_sectors r i) = at_sectors r" for g :: "nat \<Rightarrow> bytes"
    by (rule ext) auto
  ultimately show ?case using 0 by (cases r) (simp cong: if_cong)
next
  case (Suc n)
  let ?r = "r\<lparr>at_left := 256 * n, at_buf := [], at_out := Suc (at_out r),
    at_sectors := (at_sectors r)(at_out r := load_bytes (mem s) a 512)\<rparr>"
  have "write_loop (Suc n) a s = write_loop n (a + 512) (s\<lparr>dev := ata ?r\<rparr>)"
    using wait_ata(4) [OF Suc.prems(1)] write_sector_ata [OF Suc.prems] Suc.prems(2) by simp
  also have "\<dots> = (True, (s\<lparr>dev := ata ?r\<rparr>)\<lparr>dev := ata (?r\<lparr>at_left := 0, at_out := at_out ?r + n, at_sectors :=
    (\<lambda>i. if at_out ?r \<le> i \<and> i < at_out ?r + n then load_bytes (mem s) (a + 512 + 512 * of_nat (i - at_out ?r)) 512 else at_sectors ?r i)\<rparr>)\<rparr>)"
    using Suc.IH [of "s\<lparr>dev := ata ?r\<rparr>" ?r "a + 512"] by (simp cong: if_cong)
  also have "(\<lambda>i. if at_out ?r \<le> i \<and> i < at_out ?r + n then load_bytes (mem s) (a + 512 + 512 * of_nat (i - at_out ?r)) 512 else at_sectors ?r i)
    = (\<lambda>i. if at_out r \<le> i \<and> i < at_out r + Suc n then load_bytes (mem s) (a + 512 * of_nat (i - at_out r)) 512 else at_sectors r i)"
  proof
    fix i
    consider "i < at_out r" | "i = at_out r" | j where "i = Suc (at_out r + j)"
      by (metis less_iff_Suc_add linorder_neqE_nat)
    then show "(if at_out ?r \<le> i \<and> i < at_out ?r + n then load_bytes (mem s) (a + 512 + 512 * of_nat (i - at_out ?r)) 512 else at_sectors ?r i)
      = (if at_out r \<le> i \<and> i < at_out r + Suc n then load_bytes (mem s) (a + 512 * of_nat (i - at_out r)) 512 else at_sectors r i)"
      by cases (auto simp: algebra_simps)
  qed
  also have "ata (?r\<lparr>at_left := 0, at_out := at_out ?r + n, at_sectors := f\<rparr>) =
    ata (r\<lparr>at_left := 0, at_out := at_out r + Suc n, at_sectors := f\<rparr>)" for f
    using Suc.prems(3) by (cases r) simp
  finally show ?case by simp
qed

text \<open>The sectors after \<open>n\<close> of them, from \<open>lba\<close> on, are overwritten from memory.\<close>

definition put_sectors :: "nat \<Rightarrow> nat \<Rightarrow> u32 \<Rightarrow> memory \<Rightarrow> (nat \<Rightarrow> bytes) \<Rightarrow> nat \<Rightarrow> bytes" where
  "put_sectors lba n a m D = (\<lambda>i. if lba \<le> i \<and> i < lba + n then load_bytes m (a + 512 * of_nat (i - lba)) 512 else D i)"

lemma write_sectors_ata:
  assumes "ata_ready D s" "unat lba + unat n \<le> 268435456" "0 < unat n" "unat n \<le> 256"
  shows "\<exists>d. write_sectors lba n a s = s\<lparr>dev := d\<rparr> \<and>
    ata_ready (put_sectors (unat lba) (unat n) a (mem s) D) (write_sectors lba n a s)"
proof -
  from assms(1) obtain r where r: "dev s = ata r" "at_in r = []" "at_left r = 0" "at_buf r = []" "at_sectors r = D"
    and D: "\<forall>i. length (D i) = 512" by (auto simp: ata_ready_def)
  have lba: "unat lba < 268435456" using assms(2,3) by simp
  from select_ata [OF r(1-4) lba assms(3,4)] obtain r' where r': "at_in r' = []" "at_left r' = 0" "at_buf r' = []"
    "at_sectors r' = D"
    "select_sectors lba n ATA_CMD_WRITE_PIO s = s\<lparr>dev := ata (r'\<lparr>at_left := 256 * unat n, at_out := unat lba, at_buf := []\<rparr>)\<rparr>"
    unfolding r(5) by metis
  let ?r = "r'\<lparr>at_left := 256 * unat n, at_out := unat lba, at_buf := []\<rparr>"
  let ?w = "r'\<lparr>at_buf := [], at_left := 0, at_out := unat lba + unat n, at_sectors := put_sectors (unat lba) (unat n) a (mem s) D\<rparr>"
  have "write_loop (unat n) a (s\<lparr>dev := ata ?r\<rparr>) = (True, s\<lparr>dev := ata ?w\<rparr>)"
    using write_loop_ata [of "s\<lparr>dev := ata ?r\<rparr>" ?r "unat n" a] r'(4) by (simp add: put_sectors_def cong: if_cong)
  moreover have "outb ATA_COMMAND_PORT ATA_CMD_CACHE_FLUSH (s\<lparr>dev := ata ?w\<rparr>) = s\<lparr>dev := ata ?w\<rparr>"
    by (simp add: outb_def ata_ports ata_outb_def ata_consts)
  moreover have "n \<noteq> 0" using assms(3) by auto
  ultimately have run: "write_sectors lba n a s = s\<lparr>dev := ata ?w\<rparr>"
    using wait_ata(2) [OF r(1)] wait_ata(2) [of "s\<lparr>dev := ata ?w\<rparr>" ?w] r'(5) by (simp add: write_sectors_def)
  moreover have "ata_ready (put_sectors (unat lba) (unat n) a (mem s) D) (write_sectors lba n a s)"
    unfolding run ata_ready_def using r' D by (auto simp: put_sectors_def)
  ultimately show ?thesis by blast
qed

section \<open>The disk as its clients see it\<close>

locale block_device =
  fixes ready :: "(nat \<Rightarrow> bytes) \<Rightarrow> 's \<Rightarrow> bool" and bytes_of :: "'s \<Rightarrow> memory"
    and rd :: "u32 \<Rightarrow> u32 \<Rightarrow> u32 \<Rightarrow> 's \<Rightarrow> 's" and wr :: "u32 \<Rightarrow> u32 \<Rightarrow> u32 \<Rightarrow> 's \<Rightarrow> 's"
    and limit :: nat
  assumes sector_size: "ready D s \<Longrightarrow> length (D i) = 512"
    and rd_law: "ready D s \<Longrightarrow> unat lba + unat n \<le> limit \<Longrightarrow> 0 < unat n \<Longrightarrow> unat n \<le> 256 \<Longrightarrow>
      ready D (rd lba n a s) \<and> bytes_of (rd lba n a s) = store_bytes a (concat (map D [unat lba..<unat lba + unat n])) (bytes_of s)"
    and wr_law: "ready D s \<Longrightarrow> unat lba + unat n \<le> limit \<Longrightarrow> 0 < unat n \<Longrightarrow> unat n \<le> 256 \<Longrightarrow>
      ready (put_sectors (unat lba) (unat n) a (bytes_of s) D) (wr lba n a s) \<and> bytes_of (wr lba n a s) = bytes_of s"
begin

lemma rd_one:
  assumes "ready D s" "unat lba < limit"
  shows "ready D (rd lba 1 a s)" and "bytes_of (rd lba 1 a s) = store_bytes a (D (unat lba)) (bytes_of s)"
  using rd_law [OF assms(1), of lba 1 a] assms(2) by simp_all

lemma rd_loads:
  assumes "ready D s" "unat lba + unat n \<le> limit" "0 < unat n" "unat n \<le> 256"
  shows "load_bytes (bytes_of (rd lba n a s)) a (512 * unat n) = concat (map D [unat lba..<unat lba + unat n])"
proof -
  have "length (concat (map D [unat lba..<unat lba + unat n])) = 512 * unat n"
    using length_concat_512 [of "map D [unat lba..<unat lba + unat n]"] sector_size [OF assms(1)] by simp
  then show ?thesis
    using rd_law [OF assms, of a] assms(4)
      load_store_bytes_same [of "concat (map D [unat lba..<unat lba + unat n])" a "bytes_of s"] by simp
qed

text \<open>Writing sectors and reading them into any buffer copies the bytes of the buffer.\<close>

lemma concat_load: "concat (map (\<lambda>i. load_bytes m (a + 512 * of_nat (i - l)) 512) [l..<l + k]) = load_bytes m a (512 * k)"
proof (induction k)
  case (Suc k)
  have "load_bytes m a (512 * Suc k) = load_bytes m a (512 * k) @ load_bytes m (a + 512 * of_nat k) 512"
  proof (rule nth_equalityI)
    fix i assume i: "i < length (load_bytes m a (512 * Suc k))"
    show "load_bytes m a (512 * Suc k) ! i = (load_bytes m a (512 * k) @ load_bytes m (a + 512 * of_nat k) 512) ! i"
    proof (cases "i < 512 * k")
      case False
      then obtain j where "i = 512 * k + j" by (metis le_Suc_ex not_le)
      with i show ?thesis by (simp add: nth_append add.assoc)
    qed (use i in \<open>simp add: nth_append\<close>)
  qed simp
  with Suc show ?case by simp
qed simp

lemma write_read:
  assumes "ready D s" "unat lba + unat n \<le> limit" "0 < unat n" "unat n \<le> 256"
  shows "load_bytes (bytes_of (rd lba n b (wr lba n a s))) b (512 * unat n) = load_bytes (bytes_of s) a (512 * unat n)"
proof -
  from wr_law [OF assms, of a] have w: "ready (put_sectors (unat lba) (unat n) a (bytes_of s) D) (wr lba n a s)" by simp
  have "map (put_sectors (unat lba) (unat n) a (bytes_of s) D) [unat lba..<unat lba + unat n] =
      map (\<lambda>i. load_bytes (bytes_of s) (a + 512 * of_nat (i - unat lba)) 512) [unat lba..<unat lba + unat n]"
    by (rule map_cong) (auto simp: put_sectors_def)
  then show ?thesis unfolding rd_loads [OF w assms(2-4)] by (simp only: concat_load)
qed

text \<open>Sectors that are not written are read as before.\<close>

lemma write_read_other:
  assumes "ready D s" "unat lba + unat n \<le> limit" "0 < unat n" "unat n \<le> 256"
    and "unat l + unat k \<le> limit" "0 < unat k" "unat k \<le> 256" "unat l + unat k \<le> unat lba \<or> unat lba + unat n \<le> unat l"
  shows "load_bytes (bytes_of (rd l k b (wr lba n a s))) b (512 * unat k) = concat (map D [unat l..<unat l + unat k])"
proof -
  from wr_law [OF assms(1-4), of a] have w: "ready (put_sectors (unat lba) (unat n) a (bytes_of s) D) (wr lba n a s)" by simp
  have "map (put_sectors (unat lba) (unat n) a (bytes_of s) D) [unat l..<unat l + unat k] = map D [unat l..<unat l + unat k]"
    using assms(8) by (intro map_cong) (auto simp: put_sectors_def)
  then show ?thesis unfolding rd_loads [OF w assms(5-7)] by (simp only:)
qed

end

interpretation disk: block_device ata_ready mem read_sectors write_sectors 268435456
proof unfold_locales
  fix D and s :: "'a machine_scheme" and lba n a :: u32
  assume r: "ata_ready D s"
  show "length (D i) = 512" for i using r by (simp add: ata_ready_def)
  assume n: "unat lba + unat n \<le> 268435456" "0 < unat n" "unat n \<le> 256"
  show "ata_ready D (read_sectors lba n a s) \<and>
      mem (read_sectors lba n a s) = store_bytes a (concat (map D [unat lba..<unat lba + unat n])) (mem s)"
    using read_sectors_ata [OF r n, of a] by auto
  show "ata_ready (put_sectors (unat lba) (unat n) a (mem s) D) (write_sectors lba n a s) \<and> mem (write_sectors lba n a s) = mem s"
    using write_sectors_ata [OF r n, of a] by auto
qed

section \<open>The properties\<close>

text \<open>C16: sectors written from a buffer and read back, into any buffer, are the bytes of the buffer.\<close>

theorem disk_write_read:
  assumes "ata_ready D s" and "unat lba + unat n \<le> 268435456" and "0 < unat n" "unat n \<le> 256"
  shows "load_bytes (mem (read_sectors lba n b (write_sectors lba n a s))) b (512 * unat n) = load_bytes (mem s) a (512 * unat n)"
  using assms by (rule disk.write_read)

definition zero_disk :: machine where
  "zero_disk = \<lparr>dev = ata \<lparr>at_count = 0, at_low = 0, at_mid = 0, at_high = 0, at_drive = 0, at_in = [], at_left = 0,
     at_out = 0, at_buf = [], at_sectors = (\<lambda>_. replicate 512 0)\<rparr>, mem = (\<lambda>a. ucast a)\<rparr>"

lemma zero_disk_ready: "ata_ready (\<lambda>_. replicate 512 0) zero_disk"
  unfolding ata_ready_def by (intro conjI allI exI) (auto simp: zero_disk_def)

theorem disk_write_read_witness:
  "load_bytes (mem (read_sectors 7 2 0x9000 (write_sectors 7 2 0x1000 zero_disk))) 0x9000 1024 = load_bytes (mem zero_disk) 0x1000 1024"
  using disk_write_read [OF zero_disk_ready, of 7 2 "0x9000" "0x1000"] by simp

text \<open>C17: whatever the device answers, and however long it is busy, the driver returns: it has read
  into its buffer only, and a write leaves memory as it was.\<close>

theorem disk_driver_confined:
  assumes "unat n \<le> 8388608"
  shows "(\<exists>d m. read_sectors lba n a s = s\<lparr>dev := d, mem := m\<rparr> \<and> (\<forall>x. 512 * unat n \<le> unat (x - a) \<longrightarrow> m x = mem s x)) \<and>
    (\<exists>d. write_sectors lba n a s = s\<lparr>dev := d\<rparr>)"
proof -
  have "512 * unat n \<le> 4294967296" using assms by simp
  from read_sectors_io [OF this, of a s lba] have "\<exists>d m. read_sectors lba n a s = s\<lparr>dev := d, mem := m\<rparr> \<and>
      (\<forall>x. 512 * unat n \<le> unat (x - a) \<longrightarrow> m x = mem s x)" unfolding io_on_def .
  note read = this
  from write_sectors_io [of a 0 s lba n a] obtain d m where "write_sectors lba n a s = s\<lparr>dev := d, mem := m\<rparr>"
    "\<And>x. m x = mem s x" unfolding io_on_def by auto
  moreover from this(2) have "m = mem s" by auto
  ultimately have "write_sectors lba n a s = s\<lparr>dev := d\<rparr>" by simp
  with read show ?thesis by blast
qed

theorem disk_driver_confined_witness:
  "\<exists>d m. read_sectors 0 1 0x1000 (zero_disk\<lparr>dev := null_dev\<rparr>) = zero_disk\<lparr>dev := d, mem := m\<rparr> \<and> m 0x1200 = mem zero_disk 0x1200"
proof -
  have "unat (1 :: u32) \<le> 8388608" by simp
  from disk_driver_confined [OF this, of 0 "0x1000" "zero_disk\<lparr>dev := null_dev\<rparr>"] show ?thesis by fastforce
qed

end
