(* ===== verification/Buffers.thy ===== *)
theory Buffers
  imports Heap_Clients Disk
begin

unbundle bit_operations_syntax

text \<open>
  What the file systems do all the time: take a buffer from the kernel heap, move sectors between it
  and the disk, give it back. \<open>fs_inv D bs s\<close> joins the invariants of the two components, with the
  sectors \<open>D\<close> and the blocks \<open>bs\<close>; \<open>fs_to L s t\<close> says that a step changed nothing but the device and
  memory outside the buffers \<open>L\<close>. The lemmas below are all a file system needs of heap and disk.
\<close>

definition io_only :: "'a machine_scheme \<Rightarrow> 'a machine_scheme \<Rightarrow> bool" where
  "io_only s t \<longleftrightarrow> (\<exists>d m. t = s\<lparr>dev := d, mem := m\<rparr>)"

lemma io_only_refl [simp, intro]: "io_only s s"
  unfolding io_only_def by (rule exI [of _ "dev s"], rule exI [of _ "mem s"]) simp

lemma io_only_upd [simp, intro]: "io_only s (s\<lparr>dev := d\<rparr>)" "io_only s (s\<lparr>mem := m\<rparr>)"
proof -
  have "s\<lparr>dev := d\<rparr> = s\<lparr>dev := d, mem := mem s\<rparr>" by (cases s) simp
  then show "io_only s (s\<lparr>dev := d\<rparr>)" unfolding io_only_def by blast
  have "s\<lparr>mem := m\<rparr> = s\<lparr>dev := dev s, mem := m\<rparr>" by (cases s) simp
  then show "io_only s (s\<lparr>mem := m\<rparr>)" unfolding io_only_def by blast
qed

lemma io_only_trans [trans]: "io_only s t \<Longrightarrow> io_only t u \<Longrightarrow> io_only s u"
  unfolding io_only_def by force

lemma only_memE:
  assumes "only_mem s t"
  obtains m where "t = s\<lparr>mem := m\<rparr>"
  using assms unfolding only_mem_def by blast

lemma io_only_mem: "only_mem s t \<Longrightarrow> io_only s t"
  by (erule only_memE) simp

lemma io_only_io_on: "io_on a n s t \<Longrightarrow> io_only s t"
  by (auto simp: io_on_def io_only_def)

lemma io_only_form:
  assumes "io_only s t"
  shows "\<exists>d. t = s\<lparr>mem := mem t\<rparr>\<lparr>dev := d\<rparr>"
proof -
  from assms obtain d m where "t = s\<lparr>dev := d, mem := m\<rparr>" by (auto simp: io_only_def)
  then have "t = s\<lparr>mem := mem t\<rparr>\<lparr>dev := d\<rparr>" by simp
  then show ?thesis by blast
qed

definition fs_inv :: "(nat \<Rightarrow> bytes) \<Rightarrow> blocks \<Rightarrow> 'a heap_state_scheme \<Rightarrow> bool" where
  "fs_inv D bs s \<longleftrightarrow> heap_inv s bs \<and> ata_ready D s"

definition fs_to :: "(nat \<times> nat) set \<Rightarrow> 'a heap_state_scheme \<Rightarrow> 'a heap_state_scheme \<Rightarrow> bool" where
  "fs_to L s t \<longleftrightarrow> io_only s t \<and> payload_kept L (mem s) (mem t)"

lemma fs_to_refl [simp, intro]: "fs_to L s s"
  by (simp add: fs_to_def)

lemma fs_to_trans [trans]: "fs_to L s t \<Longrightarrow> fs_to L t u \<Longrightarrow> fs_to L s u"
  by (auto simp: fs_to_def intro: io_only_trans payload_kept_trans)

lemma fs_to_mono: "fs_to L s t \<Longrightarrow> K \<subseteq> L \<Longrightarrow> fs_to K s t"
  by (auto simp: fs_to_def intro: payload_kept_mono)

lemma fs_to_io: "fs_to L s t \<Longrightarrow> io_only s t"
  by (simp add: fs_to_def)

lemma ata_ready_cong: "dev t = dev s \<Longrightarrow> ata_ready D t = ata_ready D s"
  by (simp add: ata_ready_def)

lemma only_mem_dev: "only_mem s t \<Longrightarrow> dev t = dev s"
  by (erule only_memE) simp

lemma heap_inv_dev [simp]: "heap_inv (s\<lparr>dev := d\<rparr>) bs = heap_inv s bs"
  by (simp add: heap_inv_def)

text \<open>
  A buffer taken from a free block, which gives back the same list of blocks when it is freed.
  \<open>can_take ns bs\<close>: buffers of the sizes \<open>ns\<close> fit one after the other without growing the heap.
\<close>

fun can_take :: "nat list \<Rightarrow> blocks \<Rightarrow> bool" where
  "can_take [] bs \<longleftrightarrow> True"
| "can_take (n # ns) bs \<longleftrightarrow>
     (case alloc_blocks (round8 n) HEAP bs of None \<Rightarrow> False | Some (p, cs) \<Rightarrow> can_take ns cs)"

lemma buffer_scope:
  fixes s :: "'a heap_state_scheme"
  assumes inv: "fs_inv D bs s" and n: "n \<noteq> 0" "unat n \<le> 0xFFFFFFF8" and room: "can_take (unat n # ns) bs"
  obtains p k cs t where "kmalloc n s = Ret (of_nat p) t" "fs_inv D cs t" "fs_to (live HEAP bs) s t" "can_take ns cs"
    "(p, k) \<in> live HEAP cs" "unat n \<le> k" "live HEAP cs - {(p, k)} = live HEAP bs"
    "\<And>(u :: 'a heap_state_scheme) E. fs_inv E cs u \<Longrightarrow> \<exists>w. kfree (of_nat p) u = Ret () w \<and> fs_inv E bs w \<and> fs_to (live HEAP bs) u w"
proof -
  from room obtain p cs where al: "alloc_blocks (round8 (unat n)) HEAP bs = Some (p, cs)" and rest_room: "can_take ns cs"
    by (auto split: option.splits)
  have hi: "heap_inv s bs" "ata_ready D s" using inv by (simp_all add: fs_inv_def)
  from live_alloc(1) [OF al] obtain k where k: "round8 (unat n) \<le> k" "live HEAP cs = insert (p, k) (live HEAP bs)"
    "(p, k) \<notin> live HEAP bs" by blast
  from kmalloc_fit [OF hi(1) n al] obtain t where t: "kmalloc n s = Ret (of_nat p) t" "heap_inv t cs" "only_mem s t"
    "payload_kept (live HEAP bs) (mem s) (mem t)" by blast
  have rest: "live HEAP cs - {(p, k)} = live HEAP bs" and mem: "(p, k) \<in> live HEAP cs" using k by auto
  show ?thesis
  proof (rule that [OF t(1) _ _ rest_room mem])
    show "fs_inv D cs t" using t(2) hi(2) ata_ready_cong [OF only_mem_dev [OF t(3)]] by (simp add: fs_inv_def)
    show "fs_to (live HEAP bs) s t" using t(3,4) by (simp add: fs_to_def io_only_mem)
    show "unat n \<le> k" using k(1) round8_bounds(1) [of "unat n"] by simp
    show "live HEAP cs - {(p, k)} = live HEAP bs" by (rule rest)
  next
    fix u :: "'a heap_state_scheme" and E assume u: "fs_inv E cs u"
    then have hu: "heap_inv u cs" "ata_ready E u" by (simp_all add: fs_inv_def)
    from kfree_live [OF hu(1) mem] obtain w where w: "kfree (of_nat p) u = Ret () w"
      "heap_inv w (coalesce (mark_free p HEAP cs))" "only_mem u w" "payload_kept (live HEAP cs - {(p, k)}) (mem u) (mem w)"
      by blast
    have "no_adjacent bs" using hi(1) by (simp add: heap_inv_def)
    from alloc_free_blocks [OF al this] w(2) have "heap_inv w bs" by simp
    then show "\<exists>w. kfree (of_nat p) u = Ret () w \<and> fs_inv E bs w \<and> fs_to (live HEAP bs) u w"
      using w hu(2) ata_ready_cong [OF only_mem_dev [OF w(3)]] by (simp add: fs_inv_def fs_to_def io_only_mem rest)
  qed
qed

lemma buffer_word:
  assumes "heap_inv s bs" "(p, k) \<in> live HEAP bs"
  shows "unat (of_nat p :: u32) = p" "p + k \<le> 4294967296" "HEAP + 17 \<le> p"
  using live_range [OF assms(2)] heap_len_bounds [OF assms(1)] by (simp_all add: unat_of_nat_u32)

text \<open>Bytes written into a buffer.\<close>

lemma buffer_store:
  assumes inv: "fs_inv D bs s" and lv: "(p, k) \<in> live HEAP bs" and fits: "i + length ds \<le> k"
  shows "fs_inv D bs (s\<lparr>mem := store_bytes (of_nat p + of_nat i) ds (mem s)\<rparr>)"
    and "fs_to (live HEAP bs - {(p, k)}) s (s\<lparr>mem := store_bytes (of_nat p + of_nat i) ds (mem s)\<rparr>)"
proof -
  have hi: "heap_inv s bs" "ata_ready D s" using inv by (simp_all add: fs_inv_def)
  from payload_write [OF hi(1) lv fits] hi(2)
  show "fs_inv D bs (s\<lparr>mem := store_bytes (of_nat p + of_nat i) ds (mem s)\<rparr>)"
    "fs_to (live HEAP bs - {(p, k)}) s (s\<lparr>mem := store_bytes (of_nat p + of_nat i) ds (mem s)\<rparr>)"
    by (auto simp: fs_inv_def fs_to_def ata_ready_def)
qed

text \<open>The sectors read: the bytes of \<open>n\<close> sectors from \<open>lba\<close> on.\<close>

definition sectors :: "(nat \<Rightarrow> bytes) \<Rightarrow> nat \<Rightarrow> nat \<Rightarrow> bytes" where
  "sectors D lba n = concat (map D [lba..<lba + n])"

lemma length_sectors: "ata_ready D s \<Longrightarrow> length (sectors D lba n) = 512 * n"
  using length_concat_512 [of "map D [lba..<lba + n]"] by (auto simp: sectors_def ata_ready_def)

lemma buffer_read:
  fixes s :: "'a heap_state_scheme"
  assumes inv: "fs_inv D bs s" and lv: "(p, k) \<in> live HEAP bs"
    and n: "unat lba + unat n \<le> 268435456" "0 < unat n" "unat n \<le> 256" "512 * unat n \<le> k"
  defines "t \<equiv> read_sectors lba n (of_nat p) s"
  shows "fs_inv D bs t" "fs_to (live HEAP bs - {(p, k)}) s t"
    and "load_bytes (mem t) (of_nat p) (512 * unat n) = sectors D (unat lba) (unat n)"
proof -
  have hi: "heap_inv s bs" "ata_ready D s" using inv by (simp_all add: fs_inv_def)
  have len: "length (sectors D (unat lba) (unat n)) = 512 * unat n" using hi(2) by (rule length_sectors)
  from disk.rd_law [OF hi(2) n(1-3), of "of_nat p"]
  have rd: "ata_ready D t" "mem t = store_bytes (of_nat p) (sectors D (unat lba) (unat n)) (mem s)"
    by (simp_all add: t_def sectors_def)
  have "512 * unat n \<le> 4294967296" using n(3) by simp
  from read_sectors_io [OF this] have io: "io_only s t" unfolding t_def by (rule io_only_io_on)
  from io_only_form [OF io] obtain d where t: "t = s\<lparr>mem := mem t\<rparr>\<lparr>dev := d\<rparr>" by blast
  have fits: "0 + length (sectors D (unat lba) (unat n)) \<le> k" using len n(4) by simp
  from payload_write [OF hi(1) lv fits]
  have pw: "heap_inv (s\<lparr>mem := mem t\<rparr>) bs" "payload_kept (live HEAP bs - {(p, k)}) (mem s) (mem t)" by (simp_all add: rd(2))
  have "heap_inv t bs" by (subst t) (simp add: pw(1))
  then show "fs_inv D bs t" using rd(1) by (simp add: fs_inv_def)
  show "fs_to (live HEAP bs - {(p, k)}) s t" using io pw(2) by (simp add: fs_to_def)
  show "load_bytes (mem t) (of_nat p) (512 * unat n) = sectors D (unat lba) (unat n)"
    using load_store_bytes_same [of "sectors D (unat lba) (unat n)" "of_nat p" "mem s"] len n(3) by (simp add: rd(2))
qed

lemma buffer_write:
  fixes s :: "'a heap_state_scheme" and a :: u32
  assumes inv: "fs_inv D bs s" and n: "unat lba + unat n \<le> 268435456" "0 < unat n" "unat n \<le> 256"
  defines "t \<equiv> write_sectors lba n a s"
  shows "fs_inv (put_sectors (unat lba) (unat n) a (mem s) D) bs t" "fs_to L s t" "mem t = mem s"
proof -
  have hi: "heap_inv s bs" "ata_ready D s" using inv by (simp_all add: fs_inv_def)
  from disk.wr_law [OF hi(2) n, of a] have w: "ata_ready (put_sectors (unat lba) (unat n) a (mem s) D) t" "mem t = mem s"
    by (simp_all add: t_def)
  have io: "io_only s t" unfolding t_def by (rule io_only_io_on [OF write_sectors_io])
  from io_only_form [OF io] obtain d where t: "t = s\<lparr>mem := mem t\<rparr>\<lparr>dev := d\<rparr>" by blast
  have "heap_inv t bs" by (subst t) (simp add: w(2) hi(1))
  then show "fs_inv (put_sectors (unat lba) (unat n) a (mem s) D) bs t" using w(1) by (simp add: fs_inv_def)
  show "fs_to L s t" using io w(2) by (simp add: fs_to_def)
  show "mem t = mem s" by (rule w(2))
qed

end
