(* ===== verification/Fat32.thy ===== *)
theory Fat32
  imports Buffers Utill
begin

unbundle bit_operations_syntax

text \<open>
  The FAT32 driver \<^verbatim>\<open>DRIVER/fat32.c\<close> on top of the heap and the disk.

  The sector and cluster buffers are buffers of the kernel heap, in byte memory; directory entries
  and allocation-table entries are read and written there. The local structures and strings of the C
  functions (\<^verbatim>\<open>DIR_ENTRY_T entry\<close>, \<^verbatim>\<open>char path_copy[256]\<close>) are values: a path is the list of its bytes
  without the terminating null, and copying 256 bytes or more into a local array is a \<open>Fault\<close>. A
  division by a zero field of the boot sector is a \<open>Fault\<close>, and a cyclic cluster chain is a \<open>Hang\<close>.
\<close>

section \<open>Structures on the disk\<close>

record FAT32_BPB =
  jmp :: bytes
  oem_iden :: bytes
  bytes_per_sector :: u16
  sectors_per_cluster :: u8
  reserved_sector_count :: u16
  fat_count :: u8
  root_entries_count :: u16
  total_sectors :: u16
  media_descriptor :: u8
  sectors_per_fat_16 :: u16
  sectors_per_track :: u16
  heads_count :: u16
  hidden_sectors_count :: u32
  large_sector_count :: u32
  sectors_per_fat :: u32
  bpb_flags :: u16
  fat_version :: u16
  root_cluster :: u32
  info_sector :: u16
  backup_boot_sector :: u16
  bpb_reserved :: bytes
  drive_number :: u8
  reserved1 :: u8
  signature :: u8
  volume_serial :: u32
  volume_label :: bytes
  fs_type :: bytes

definition bpb_at :: "memory \<Rightarrow> u32 \<Rightarrow> FAT32_BPB" where
  "bpb_at m a =
     \<lparr>jmp = load_bytes m a 3, oem_iden = load_bytes m (a + 3) 8, bytes_per_sector = load16 m (a + 11),
      sectors_per_cluster = m (a + 13), reserved_sector_count = load16 m (a + 14), fat_count = m (a + 16),
      root_entries_count = load16 m (a + 17), total_sectors = load16 m (a + 19), media_descriptor = m (a + 21),
      sectors_per_fat_16 = load16 m (a + 22), sectors_per_track = load16 m (a + 24), heads_count = load16 m (a + 26),
      hidden_sectors_count = load32 m (a + 28), large_sector_count = load32 m (a + 32), sectors_per_fat = load32 m (a + 36),
      bpb_flags = load16 m (a + 40), fat_version = load16 m (a + 42), root_cluster = load32 m (a + 44),
      info_sector = load16 m (a + 48), backup_boot_sector = load16 m (a + 50), bpb_reserved = load_bytes m (a + 52) 12,
      drive_number = m (a + 64), reserved1 = m (a + 65), signature = m (a + 66), volume_serial = load32 m (a + 67),
      volume_label = load_bytes m (a + 71) 11, fs_type = load_bytes m (a + 82) 8\<rparr>"

record DIR_ENTRY =
  de_name :: bytes
  attributes :: u8
  de_reserved :: u8
  created_time_tenths :: u8
  created_time :: u16
  created_date :: u16
  accesed_date :: u16
  first_cluster_high :: u16
  modified_time :: u16
  modified_date :: u16
  first_cluster_low :: u16
  de_size :: u32

definition dir_entry_at :: "memory \<Rightarrow> u32 \<Rightarrow> DIR_ENTRY" where
  "dir_entry_at m a =
     \<lparr>de_name = load_bytes m a 11, attributes = m (a + 11), de_reserved = m (a + 12), created_time_tenths = m (a + 13),
      created_time = load16 m (a + 14), created_date = load16 m (a + 16), accesed_date = load16 m (a + 18),
      first_cluster_high = load16 m (a + 20), modified_time = load16 m (a + 22), modified_date = load16 m (a + 24),
      first_cluster_low = load16 m (a + 26), de_size = load32 m (a + 28)\<rparr>"

definition dir_entry_bytes :: "DIR_ENTRY \<Rightarrow> bytes" where
  "dir_entry_bytes e = de_name e @ [attributes e, de_reserved e, created_time_tenths e] @ le16 (created_time e) @
     le16 (created_date e) @ le16 (accesed_date e) @ le16 (first_cluster_high e) @ le16 (modified_time e) @
     le16 (modified_date e) @ le16 (first_cluster_low e) @ le32 (de_size e)"

definition new_dir_entry :: "bytes \<Rightarrow> u8 \<Rightarrow> u32 \<Rightarrow> u32 \<Rightarrow> DIR_ENTRY" where
  "new_dir_entry name attrs first_cluster sz =
     \<lparr>de_name = name, attributes = attrs, de_reserved = 0, created_time_tenths = 0, created_time = 0, created_date = 0,
      accesed_date = 0, first_cluster_high = ucast (drop_bit 16 first_cluster AND 0xFFFF), modified_time = 0,
      modified_date = 0, first_cluster_low = ucast (first_cluster AND 0xFFFF), de_size = sz\<rparr>"

definition entry_cluster :: "DIR_ENTRY \<Rightarrow> u32" where
  "entry_cluster e = ucast (first_cluster_low e) OR push_bit 16 (ucast (first_cluster_high e))"

definition is_directory :: "DIR_ENTRY \<Rightarrow> bool" where
  "is_directory e \<longleftrightarrow> attributes e AND 0x10 \<noteq> 0"

record fat32_state = heap_state +
  bpb :: FAT32_BPB
  fat32_initialized :: bool
  last_free_cluster :: u32

text \<open>The sizes and places the functions compute from the boot sector.\<close>

definition bytes_per_cluster :: "FAT32_BPB \<Rightarrow> u32" where
  "bytes_per_cluster b = ucast (sectors_per_cluster b) * ucast (bytes_per_sector b)"

definition entries_per_cluster :: "FAT32_BPB \<Rightarrow> u32" where
  "entries_per_cluster b = bytes_per_cluster b div 32"

definition data_start :: "FAT32_BPB \<Rightarrow> u32" where
  "data_start b = ucast (reserved_sector_count b) + ucast (fat_count b) * sectors_per_fat b"

definition cluster_lba :: "FAT32_BPB \<Rightarrow> u32 \<Rightarrow> u32" where
  "cluster_lba b c = data_start b + (c - 2) * ucast (sectors_per_cluster b)"

definition in_chain :: "u32 \<Rightarrow> bool" where
  "in_chain c \<longleftrightarrow> 2 \<le> c \<and> c < 0x0FFFFFF8"

abbreviation read_cluster :: "u32 \<Rightarrow> u32 \<Rightarrow> 'a fat32_state_scheme \<Rightarrow> 'a fat32_state_scheme" where
  "read_cluster c buf s \<equiv> read_sectors (cluster_lba (bpb s) c) (ucast (sectors_per_cluster (bpb s))) buf s"

abbreviation write_cluster :: "u32 \<Rightarrow> u32 \<Rightarrow> 'a fat32_state_scheme \<Rightarrow> 'a fat32_state_scheme" where
  "write_cluster c buf s \<equiv> write_sectors (cluster_lba (bpb s) c) (ucast (sectors_per_cluster (bpb s))) buf s"

section \<open>Names\<close>

definition upper :: "u8 \<Rightarrow> u8" where
  "upper c = (if 0x61 \<le> c \<and> c \<le> 0x7A then c - 32 else c)"

definition filename_to_fat32 :: "bytes \<Rightarrow> bytes" where
  "filename_to_fat32 normal =
     (let dot = str_index normal 0x2E;
          name_len = (case dot of Some i \<Rightarrow> i | None \<Rightarrow> length normal);
          ext_len = (case dot of Some i \<Rightarrow> length normal - Suc i | None \<Rightarrow> 0);
          name_len = (if name_len > 8 then 8 else name_len);
          ext_len = (if ext_len > 3 then 3 else ext_len);
          n = fold (\<lambda>i n. n[i := upper (normal ! i)]) [0..<name_len] (replicate 11 0x20)
      in case dot of Some d \<Rightarrow> fold (\<lambda>i n. n[8 + i := upper (normal ! (d + 1 + i))]) [0..<ext_len] n | None \<Rightarrow> n)"

section \<open>The allocation table\<close>

definition fat_sector :: "FAT32_BPB \<Rightarrow> u32 \<Rightarrow> u32" where
  "fat_sector b cluster = ucast (reserved_sector_count b) + cluster * 4 div ucast (bytes_per_sector b)"

definition fat_offset :: "FAT32_BPB \<Rightarrow> u32 \<Rightarrow> u32" where
  "fat_offset b cluster = cluster * 4 mod ucast (bytes_per_sector b)"

definition get_next_cluster :: "u32 \<Rightarrow> 'a fat32_state_scheme \<Rightarrow> (u32, 'a fat32_state_scheme) res" where
  "get_next_cluster cluster s =
     bind (kmalloc (ucast (bytes_per_sector (bpb s))) s) (\<lambda>fat_buf s.
     if bytes_per_sector (bpb s) = 0 then Fault else
     let s = read_sectors (fat_sector (bpb s) cluster) 1 fat_buf s;
         nxt = load32 (mem s) (fat_buf + fat_offset (bpb s) cluster) AND 0x0FFFFFFF in
     bind (kfree fat_buf s) (\<lambda>_ s. Ret nxt s))"

text \<open>One copy of the table at a time.\<close>

definition set_fat_copy :: "u32 \<Rightarrow> u32 \<Rightarrow> u32 \<Rightarrow> nat \<Rightarrow> 'a fat32_state_scheme \<Rightarrow> (unit, 'a fat32_state_scheme) res" where
  "set_fat_copy fat_buf cluster next_cluster f s =
     (if bytes_per_sector (bpb s) = 0 then Fault else
      let fat_table_offset = of_nat f * sectors_per_fat (bpb s);
          fs = fat_table_offset + fat_sector (bpb s) cluster;
          off = fat_buf + fat_offset (bpb s) cluster;
          s = read_sectors fs 1 fat_buf s;
          current_val = load32 (mem s) off;
          s = s\<lparr>mem := store32 off ((current_val AND 0xF0000000) OR (next_cluster AND 0x0FFFFFFF)) (mem s)\<rparr>
      in Ret () (write_sectors fs 1 fat_buf s))"

definition set_next_cluster :: "u32 \<Rightarrow> u32 \<Rightarrow> 'a fat32_state_scheme \<Rightarrow> (unit, 'a fat32_state_scheme) res" where
  "set_next_cluster cluster next_cluster s =
     bind (kmalloc (ucast (bytes_per_sector (bpb s))) s) (\<lambda>fat_buf s.
     bind (for_each [0..<unat (fat_count (bpb s))] (set_fat_copy fat_buf cluster next_cluster) s) (\<lambda>_ s.
     kfree fat_buf s))"

definition total_clusters :: "FAT32_BPB \<Rightarrow> u32" where
  "total_clusters b =
     ((if total_sectors b \<noteq> 0 then ucast (total_sectors b) else large_sector_count b) - ucast (reserved_sector_count b) -
       ucast (fat_count b) * sectors_per_fat b) div ucast (sectors_per_cluster b)"

definition try_cluster :: "u32 \<Rightarrow> nat \<Rightarrow> 'a fat32_state_scheme \<Rightarrow> (u32 option, 'a fat32_state_scheme) res" where
  "try_cluster fat_buf i s =
     (let cluster = last_free_cluster s;
          s = s\<lparr>last_free_cluster := last_free_cluster s + 1\<rparr>;
          s = (if last_free_cluster s \<ge> total_clusters (bpb s) + 2 then s\<lparr>last_free_cluster := 2\<rparr> else s) in
      if bytes_per_sector (bpb s) = 0 then Fault else
      let s = read_sectors (fat_sector (bpb s) cluster) 1 fat_buf s in
      if load32 (mem s) (fat_buf + fat_offset (bpb s) cluster) AND 0x0FFFFFFF = 0
      then bind (kfree fat_buf s) (\<lambda>_ s. Ret (Some cluster) s)
      else Ret None s)"

definition find_free_cluster :: "'a fat32_state_scheme \<Rightarrow> (u32, 'a fat32_state_scheme) res" where
  "find_free_cluster s =
     (if sectors_per_cluster (bpb s) = 0 then Fault else
      bind (kmalloc (ucast (bytes_per_sector (bpb s))) s) (\<lambda>fat_buf s.
      bind (for_ret [0..<unat (total_clusters (bpb s))] (try_cluster fat_buf) s) (\<lambda>r s.
      case r of Some cluster \<Rightarrow> Ret cluster s
      | None \<Rightarrow> bind (kfree fat_buf s) (\<lambda>_ s. Ret 0 s))))"

section \<open>Directories\<close>

text \<open>The scan of one cluster: \<open>None\<close> when it ends without a match, \<open>Some None\<close> at the entry that ends
  the directory, \<open>Some (Some e)\<close> with the address of the entry.\<close>

fun scan_entries :: "memory \<Rightarrow> u32 \<Rightarrow> bytes \<Rightarrow> nat list \<Rightarrow> u32 option option" where
  "scan_entries m buf name [] = None"
| "scan_entries m buf name (i # is) =
     (let e = buf + 32 * of_nat i in
      if m e = 0 then Some None
      else if m e = 0xE5 then scan_entries m buf name is
      else if m (e + 11) AND 0x0F = 0x0F then scan_entries m buf name is
      else if load_bytes m e 11 = name then Some (Some e)
      else scan_entries m buf name is)"

text \<open>One cluster of a directory.\<close>

definition find_step ::
  "u32 \<Rightarrow> bytes \<Rightarrow> u32 \<times> (DIR_ENTRY \<times> u32) option option \<Rightarrow> 'a fat32_state_scheme \<Rightarrow>
   (u32 \<times> (DIR_ENTRY \<times> u32) option option, 'a fat32_state_scheme) res" where
  "find_step cluster_buf name l s =
     (case l of (current, out) \<Rightarrow>
        let s = read_cluster current cluster_buf s in
        case scan_entries (mem s) cluster_buf name [0..<unat (entries_per_cluster (bpb s))] of
          Some None \<Rightarrow> Ret (current, Some None) s
        | Some (Some e) \<Rightarrow> Ret (current, Some (Some (dir_entry_at (mem s) e, current))) s
        | None \<Rightarrow> bind (get_next_cluster current s) (\<lambda>nxt s. Ret (nxt, None) s))"

definition find_entry_in_cluster ::
  "u32 \<Rightarrow> bytes \<Rightarrow> 'a fat32_state_scheme \<Rightarrow> ((DIR_ENTRY \<times> u32) option, 'a fat32_state_scheme) res" where
  "find_entry_in_cluster cluster name s =
     bind (kmalloc (bytes_per_cluster (bpb s)) s) (\<lambda>cluster_buf s.
     bind (loop (\<lambda>(current, out) s. out = None \<and> in_chain current) (find_step cluster_buf name) (cluster, None) s) (\<lambda>(_, out) s.
     bind (kfree cluster_buf s) (\<lambda>_ s. Ret (case out of Some r \<Rightarrow> r | None \<Rightarrow> None) s)))"

definition init_fat32 :: "'a fat32_state_scheme \<Rightarrow> (unit, 'a fat32_state_scheme) res" where
  "init_fat32 s =
     (if fat32_initialized s then Ret () s else
      let s = s\<lparr>fat32_initialized := True\<rparr> in
      bind (kmalloc 512 s) (\<lambda>buffer s.
      let s = read_sectors 0 1 buffer s;
          s = s\<lparr>bpb := bpb_at (mem s) buffer\<rparr> in
      kfree buffer s))"

text \<open>The walk along the components of a path (in \<^verbatim>\<open>path_copy\<close>); the result has the entry and the
  first cluster of the directory it was found in.\<close>

function fat32_walk :: "u32 \<Rightarrow> bytes \<Rightarrow> 'a fat32_state_scheme \<Rightarrow> ((DIR_ENTRY \<times> u32) option, 'a fat32_state_scheme) res" where
  "fat32_walk current_cluster token_start s =
     (if token_start = [] then Ret None s else
      let slash = str_index token_start 0x2F;
          token = (case slash of Some i \<Rightarrow> take i token_start | None \<Rightarrow> token_start);
          rest = (case slash of Some i \<Rightarrow> drop (Suc i) token_start | None \<Rightarrow> []) in
      if token = [] then (if slash = None then Ret None s else fat32_walk current_cluster rest s)
      else bind (find_entry_in_cluster current_cluster (filename_to_fat32 token) s) (\<lambda>r s.
        case r of None \<Rightarrow> Ret None s
        | Some (ent, _) \<Rightarrow>
            if slash = None \<or> rest = [] then Ret (Some (ent, current_cluster)) s
            else if \<not> is_directory ent then Ret None s
            else fat32_walk (entry_cluster ent) rest s))"
  by pat_completeness auto
termination
  by (relation "measure (\<lambda>(c, t, s). length t)") (auto split: option.splits)

declare fat32_walk.simps [simp del]

text \<open>Copying a path without its leading slash into a local array of 256 bytes.\<close>

definition skip_slash :: "bytes \<Rightarrow> bytes" where
  "skip_slash path = (if path \<noteq> [] \<and> hd path = 0x2F then tl path else path)"

definition strip_slashes :: "bytes \<Rightarrow> bytes" where
  "strip_slashes path = rev (dropWhile (\<lambda>c. c = 0x2F) (rev path))"

definition fat32_find_file :: "bytes \<Rightarrow> 'a fat32_state_scheme \<Rightarrow> ((DIR_ENTRY \<times> u32) option, 'a fat32_state_scheme) res" where
  "fat32_find_file path s =
     bind (if fat32_initialized s then Ret () s else init_fat32 s) (\<lambda>_ s.
     if length (skip_slash path) \<ge> 256 then Fault else
     let path_copy = strip_slashes (skip_slash path) in
     if path_copy = [] then
       Ret (Some ((new_dir_entry (replicate 11 0) 0x10 (root_cluster (bpb s)) 0), root_cluster (bpb s))) s
     else fat32_walk (root_cluster (bpb s)) path_copy s)"

text \<open>The cluster of the directory a path is in (0 if there is none) and the last component.\<close>

definition resolve_parent_directory :: "bytes \<Rightarrow> 'a fat32_state_scheme \<Rightarrow> (u32 \<times> bytes, 'a fat32_state_scheme) res" where
  "resolve_parent_directory path s =
     (if length (skip_slash path) \<ge> 256 then Fault else
      let path_copy = skip_slash path;
          path_copy = (if path_copy \<noteq> [] \<and> last path_copy = 0x2F then butlast path_copy else path_copy) in
      case str_rindex path_copy 0x2F of
        None \<Rightarrow> Ret (root_cluster (bpb s), path_copy) s
      | Some last_slash \<Rightarrow>
          let out_filename = drop (Suc last_slash) path_copy in
          bind (fat32_find_file (take last_slash path_copy) s) (\<lambda>r s.
          case r of None \<Rightarrow> Ret (0, out_filename) s
          | Some (dir, _) \<Rightarrow>
              if \<not> is_directory dir then Ret (0, out_filename) s
              else Ret (entry_cluster dir, out_filename) s))"

text \<open>The first slot of a cluster that is free or ends the directory.\<close>

fun free_slot :: "memory \<Rightarrow> u32 \<Rightarrow> nat list \<Rightarrow> u32 option" where
  "free_slot m buf [] = None"
| "free_slot m buf (i # is) =
     (let e = buf + 32 * of_nat i in if m e = 0 \<or> m e = 0xE5 then Some e else free_slot m buf is)"

definition store_dir_entry :: "u32 \<Rightarrow> DIR_ENTRY \<Rightarrow> 'a machine_scheme \<Rightarrow> 'a machine_scheme" where
  "store_dir_entry a e s = s\<lparr>mem := store_bytes a (dir_entry_bytes e) (mem s)\<rparr>"

text \<open>The scan of \<^verbatim>\<open>create_dir_entry\<close> for a slot; \<open>None\<close> as result means that the entry was stored, and
  otherwise it is the last cluster of the directory.\<close>

definition store_in_chain ::
  "u32 \<Rightarrow> DIR_ENTRY \<Rightarrow> u32 \<Rightarrow> 'a fat32_state_scheme \<Rightarrow> (u32 option, 'a fat32_state_scheme) res" where
  "store_in_chain cluster_buf new cluster s =
     bind (loop (\<lambda>(current, last_cluster) s. last_cluster \<noteq> None \<and> in_chain current)
       (\<lambda>(current, last_cluster) s.
          let s = read_cluster current cluster_buf s in
          case free_slot (mem s) cluster_buf [0..<unat (entries_per_cluster (bpb s))] of
            Some e \<Rightarrow> Ret (current, None) (write_cluster current cluster_buf (store_dir_entry e new s))
          | None \<Rightarrow> bind (get_next_cluster current s) (\<lambda>nxt s. Ret (nxt, Some current) s))
       (cluster, Some cluster) s) (\<lambda>(_, last_cluster) s. Ret last_cluster s)"

definition fat32_create_dir_entry ::
  "u32 \<Rightarrow> bytes \<Rightarrow> u8 \<Rightarrow> u32 \<Rightarrow> u32 \<Rightarrow> 'a fat32_state_scheme \<Rightarrow> (bool, 'a fat32_state_scheme) res" where
  "fat32_create_dir_entry cluster name attrs first_cluster sz s =
     (let cluster = (if cluster = 0 then root_cluster (bpb s) else cluster);
          new = new_dir_entry (filename_to_fat32 name) attrs first_cluster sz in
      bind (kmalloc (bytes_per_cluster (bpb s)) s) (\<lambda>cluster_buf s.
      bind (store_in_chain cluster_buf new cluster s) (\<lambda>r s.
      case r of None \<Rightarrow> bind (kfree cluster_buf s) (\<lambda>_ s. Ret True s)
      | Some last_cluster \<Rightarrow>
          bind (find_free_cluster s) (\<lambda>new_cluster s.
          if new_cluster = 0 then bind (kfree cluster_buf s) (\<lambda>_ s. Ret False s)
          else
            bind (set_next_cluster last_cluster new_cluster s) (\<lambda>_ s.
            bind (set_next_cluster new_cluster 0x0FFFFFF8 s) (\<lambda>_ s.
            let s = memset cluster_buf 0 (bytes_per_cluster (bpb s)) s;
                s = store_dir_entry cluster_buf new s;
                s = write_cluster new_cluster cluster_buf s in
            bind (kfree cluster_buf s) (\<lambda>_ s. Ret True s)))))))"

section \<open>Files\<close>

definition read_step :: "u32 \<Rightarrow> u32 \<Rightarrow> u32 \<Rightarrow> u32 \<times> u32 \<Rightarrow> 'a fat32_state_scheme \<Rightarrow> (u32 \<times> u32, 'a fat32_state_scheme) res" where
  "read_step buffer cluster_buf sz l s =
     (case l of (cluster, total_read) \<Rightarrow>
        let s = read_cluster cluster cluster_buf s;
            remaining = sz - total_read;
            chunk = (if remaining < bytes_per_cluster (bpb s) then remaining else bytes_per_cluster (bpb s));
            s = memcpy (buffer + total_read) cluster_buf chunk s in
        bind (get_next_cluster cluster s) (\<lambda>nxt s. Ret (nxt, total_read + chunk) s))"

definition fat32_read_file :: "bytes \<Rightarrow> u32 \<Rightarrow> 'a fat32_state_scheme \<Rightarrow> (u32, 'a fat32_state_scheme) res" where
  "fat32_read_file path buffer s =
     bind (fat32_find_file path s) (\<lambda>r s.
     case r of None \<Rightarrow> Ret 0 s
     | Some (ent, _) \<Rightarrow>
         bind (kmalloc (bytes_per_cluster (bpb s)) s) (\<lambda>cluster_buf s.
         bind (loop (\<lambda>(cluster, total_read) s. in_chain cluster \<and> total_read < de_size ent)
           (read_step buffer cluster_buf (de_size ent)) (entry_cluster ent, 0) s) (\<lambda>(_, total_read) s.
         bind (kfree cluster_buf s) (\<lambda>_ s. Ret total_read s))))"

definition fat32_file_size :: "bytes \<Rightarrow> 'a fat32_state_scheme \<Rightarrow> (u32, 'a fat32_state_scheme) res" where
  "fat32_file_size path s =
     bind (fat32_find_file path s) (\<lambda>r s. case r of None \<Rightarrow> Ret 0 s | Some (ent, _) \<Rightarrow> Ret (de_size ent) s)"

definition fat32_file_exists :: "bytes \<Rightarrow> 'a fat32_state_scheme \<Rightarrow> (bool, 'a fat32_state_scheme) res" where
  "fat32_file_exists path s = bind (fat32_find_file path s) (\<lambda>r s. Ret (r \<noteq> None) s)"

text \<open>Whether a directory cluster has an entry other than \<^verbatim>\<open>.\<close> and \<^verbatim>\<open>..\<close>.\<close>

definition dot_name :: bytes where "dot_name = str ''.          ''"
definition dotdot_name :: bytes where "dotdot_name = str ''..         ''"

fun cluster_has_entries :: "memory \<Rightarrow> u32 \<Rightarrow> nat list \<Rightarrow> bool" where
  "cluster_has_entries m buf [] = False"
| "cluster_has_entries m buf (i # is) =
     (let e = buf + 32 * of_nat i in
      if m e = 0 then False
      else if m e = 0xE5 then cluster_has_entries m buf is
      else if load_bytes m e 11 = dot_name \<or> load_bytes m e 11 = dotdot_name then cluster_has_entries m buf is
      else True)"

definition dir_has_entries :: "u32 \<Rightarrow> 'a fat32_state_scheme \<Rightarrow> (bool, 'a fat32_state_scheme) res" where
  "dir_has_entries dir_cluster s =
     bind (kmalloc (bytes_per_cluster (bpb s)) s) (\<lambda>check_buf s.
     bind (loop (\<lambda>(cur, has_entries) s. \<not> has_entries \<and> in_chain cur)
       (\<lambda>(cur, has_entries) s.
          let s = read_cluster cur check_buf s in
          if cluster_has_entries (mem s) check_buf [0..<unat (entries_per_cluster (bpb s))] then Ret (cur, True) s
          else bind (get_next_cluster cur s) (\<lambda>nxt s. Ret (nxt, False) s))
       (dir_cluster, False) s) (\<lambda>(_, has_entries) s.
     bind (kfree check_buf s) (\<lambda>_ s. Ret has_entries s)))"

definition free_chain :: "u32 \<Rightarrow> 'a fat32_state_scheme \<Rightarrow> (u32, 'a fat32_state_scheme) res" where
  "free_chain cluster s =
     loop (\<lambda>cluster s. in_chain cluster)
       (\<lambda>cluster s. bind (get_next_cluster cluster s) (\<lambda>nxt s.
          bind (set_next_cluster cluster 0 s) (\<lambda>_ s. Ret nxt s))) cluster s"

fun scan_target :: "memory \<Rightarrow> u32 \<Rightarrow> bytes \<Rightarrow> nat list \<Rightarrow> u32 option" where
  "scan_target m buf name [] = None"
| "scan_target m buf name (i # is) =
     (let e = buf + 32 * of_nat i in
      if m e = 0 then None
      else if load_bytes m e 11 = name then Some e
      else scan_target m buf name is)"

text \<open>The entry is marked with the byte \<^verbatim>\<open>0xE5\<close>.\<close>

definition erase_entry :: "u32 \<Rightarrow> bytes \<Rightarrow> 'a fat32_state_scheme \<Rightarrow> (unit, 'a fat32_state_scheme) res" where
  "erase_entry parent_cluster fat32_name s =
     bind (kmalloc (bytes_per_cluster (bpb s)) s) (\<lambda>cluster_buf s.
     bind (loop (\<lambda>(curr_parent, found) s. \<not> found \<and> in_chain curr_parent)
       (\<lambda>(curr_parent, found) s.
          let s = read_cluster curr_parent cluster_buf s in
          case scan_target (mem s) cluster_buf fat32_name [0..<unat (entries_per_cluster (bpb s))] of
            Some e \<Rightarrow> Ret (curr_parent, True) (write_cluster curr_parent cluster_buf (s\<lparr>mem := (mem s)(e := 0xE5)\<rparr>))
          | None \<Rightarrow> bind (get_next_cluster curr_parent s) (\<lambda>nxt s. Ret (nxt, False) s))
       (if parent_cluster = 0 then root_cluster (bpb s) else parent_cluster, False) s) (\<lambda>_ s.
     kfree cluster_buf s))"

definition fat32_delete :: "bytes \<Rightarrow> 'a fat32_state_scheme \<Rightarrow> (bool, 'a fat32_state_scheme) res" where
  "fat32_delete path s =
     bind (fat32_find_file path s) (\<lambda>r s.
     case r of None \<Rightarrow> Ret False s
     | Some (ent, parent_cluster) \<Rightarrow>
         bind (if is_directory ent then dir_has_entries (entry_cluster ent) s else Ret False s) (\<lambda>has_entries s.
         if has_entries then Ret False s else
         bind (free_chain (entry_cluster ent) s) (\<lambda>_ s.
         bind (resolve_parent_directory path s) (\<lambda>(_, target_name) s.
         bind (erase_entry parent_cluster (filename_to_fat32 target_name) s) (\<lambda>_ s.
         Ret True s)))))"

text \<open>The clusters of a new file: the first cluster, or 0 when the disk is full.\<close>

definition alloc_chain_step :: "nat \<Rightarrow> (u32 \<times> u32) \<Rightarrow> 'a fat32_state_scheme \<Rightarrow> ((u32 \<times> u32) option, 'a fat32_state_scheme) res" where
  "alloc_chain_step i fp s =
     (case fp of (first_cluster, prev_cluster) \<Rightarrow>
        bind (find_free_cluster s) (\<lambda>cluster s.
        if cluster = 0 then Ret None s
        else bind (if prev_cluster \<noteq> 0 then set_next_cluster prev_cluster cluster s else Ret () s) (\<lambda>_ s.
          Ret (Some (if i = 0 then cluster else first_cluster, cluster)) s)))"

fun alloc_chain :: "nat list \<Rightarrow> (u32 \<times> u32) \<Rightarrow> 'a fat32_state_scheme \<Rightarrow> ((u32 \<times> u32) option, 'a fat32_state_scheme) res" where
  "alloc_chain [] fp s = Ret (Some fp) s"
| "alloc_chain (i # is) fp s =
     bind (alloc_chain_step i fp s) (\<lambda>r s. case r of None \<Rightarrow> Ret None s | Some fp \<Rightarrow> alloc_chain is fp s)"

definition write_chain :: "u32 \<Rightarrow> u32 \<Rightarrow> u32 \<Rightarrow> u32 \<Rightarrow> 'a fat32_state_scheme \<Rightarrow> (u32, 'a fat32_state_scheme) res" where
  "write_chain cluster_buf buffer sz first_cluster s =
     bind (loop (\<lambda>(cluster, written) s. in_chain cluster \<and> written < sz)
       (\<lambda>(cluster, written) s.
          let remaining = sz - written;
              chunk = (if remaining < bytes_per_cluster (bpb s) then remaining else bytes_per_cluster (bpb s));
              s = memset cluster_buf 0 (bytes_per_cluster (bpb s)) s;
              s = memcpy cluster_buf (buffer + written) chunk s;
              s = write_cluster cluster cluster_buf s in
          bind (get_next_cluster cluster s) (\<lambda>nxt s. Ret (nxt, written + chunk) s))
       (first_cluster, 0) s) (\<lambda>(_, written) s. Ret written s)"

definition fat32_write_file :: "bytes \<Rightarrow> u32 \<Rightarrow> u32 \<Rightarrow> 'a fat32_state_scheme \<Rightarrow> (u32, 'a fat32_state_scheme) res" where
  "fat32_write_file path buffer sz s =
     bind (resolve_parent_directory path s) (\<lambda>(parent_cluster, filename) s.
     if parent_cluster = 0 then Ret 0 s else
     bind (fat32_delete path s) (\<lambda>_ s.
     if bytes_per_cluster (bpb s) = 0 then Fault else
     let clusters_needed = (sz + bytes_per_cluster (bpb s) - 1) div bytes_per_cluster (bpb s);
         clusters_needed = (if clusters_needed = 0 then 1 else clusters_needed) in
     bind (alloc_chain [0..<unat clusters_needed] (0, 0) s) (\<lambda>r s.
     case r of None \<Rightarrow> Ret 0 s
     | Some (first_cluster, prev_cluster) \<Rightarrow>
         bind (if prev_cluster \<noteq> 0 then set_next_cluster prev_cluster 0x0FFFFFF8 s else Ret () s) (\<lambda>_ s.
         bind (kmalloc (bytes_per_cluster (bpb s)) s) (\<lambda>cluster_buf s.
         bind (write_chain cluster_buf buffer sz first_cluster s) (\<lambda>written s.
         bind (kfree cluster_buf s) (\<lambda>_ s.
         bind (fat32_create_dir_entry parent_cluster filename 0x20 first_cluster sz s) (\<lambda>_ s.
         Ret written s))))))))"

definition fat32_create_directory :: "bytes \<Rightarrow> 'a fat32_state_scheme \<Rightarrow> (bool, 'a fat32_state_scheme) res" where
  "fat32_create_directory path s =
     bind (fat32_find_file path s) (\<lambda>r s.
     if r \<noteq> None then Ret False s else
     bind (resolve_parent_directory path s) (\<lambda>(parent_cluster, dirname) s.
     if parent_cluster = 0 then Ret False s else
     bind (find_free_cluster s) (\<lambda>cluster s.
     if cluster = 0 then Ret False s else
     bind (set_next_cluster cluster 0x0FFFFFF8 s) (\<lambda>_ s.
     bind (kmalloc (bytes_per_cluster (bpb s)) s) (\<lambda>cluster_buf s.
     let s = memset cluster_buf 0 (bytes_per_cluster (bpb s)) s;
         s = store_dir_entry cluster_buf (new_dir_entry dot_name 0x10 cluster 0) s;
         parent_dir_cluster = (if parent_cluster = 0 then root_cluster (bpb s) else parent_cluster);
         s = store_dir_entry (cluster_buf + 32) (new_dir_entry dotdot_name 0x10 parent_dir_cluster 0) s;
         s = write_cluster cluster cluster_buf s in
     bind (kfree cluster_buf s) (\<lambda>_ s.
     bind (fat32_create_dir_entry parent_cluster dirname 0x10 cluster 0 s) (\<lambda>_ s.
     Ret True s)))))))"

text \<open>The listing of one cluster of a directory.\<close>

definition print_entry :: "DIR_ENTRY \<Rightarrow> 'a vga_state_scheme \<Rightarrow> 'a vga_state_scheme" where
  "print_entry e s =
     (let s = (if is_directory e then print (str ''[DIR]  '') s else print (str ''[FILE] '') s);
          s = print (de_name e @ [0]) s;
          s = (if \<not> is_directory e then
                 let s = print (str ''  ('') s; s = printi (de_size e) s in print (str '' bytes)'') s
               else s)
      in print [10] s)"

fun list_entries :: "u32 \<Rightarrow> nat list \<Rightarrow> 'a vga_state_scheme \<Rightarrow> 'a vga_state_scheme" where
  "list_entries buf [] s = s"
| "list_entries buf (i # is) s =
     (let e = buf + 32 * of_nat i in
      if mem s e = 0 then s
      else if mem s e = 0xE5 then list_entries buf is s
      else if mem s (e + 11) AND 0x0F = 0x0F then list_entries buf is s
      else list_entries buf is (print_entry (dir_entry_at (mem s) e) s))"

definition fat32_list_directory :: "bytes \<Rightarrow> 'a fat32_state_scheme \<Rightarrow> (bool, 'a fat32_state_scheme) res" where
  "fat32_list_directory path s =
     bind (fat32_find_file path s) (\<lambda>r s.
     case r of None \<Rightarrow> Ret False (print (str ''Directory not found\<newline>'') s)
     | Some (ent, _) \<Rightarrow>
         if \<not> is_directory ent then Ret False (print (str ''Not a directory\<newline>'') s) else
         let dir_cluster = (if entry_cluster ent = 0 then root_cluster (bpb s) else entry_cluster ent) in
         bind (kmalloc (bytes_per_cluster (bpb s)) s) (\<lambda>cluster_buf s.
         bind (loop (\<lambda>dir_cluster s. in_chain dir_cluster)
           (\<lambda>dir_cluster s.
              let s = read_cluster dir_cluster cluster_buf s;
                  s = list_entries cluster_buf [0..<unat (entries_per_cluster (bpb s))] s
              in get_next_cluster dir_cluster s)
           dir_cluster (print (str ''Contents:\<newline>'') s)) (\<lambda>_ s.
         bind (kfree cluster_buf s) (\<lambda>_ s. Ret True s))))"

end
