(* ===== verification/Fat32_Correct.thy ===== *)
theory Fat32_Correct
  imports Fat32
begin

unbundle bit_operations_syntax

text \<open>
  The FAT32 driver against the volume on the disk.

  The specification reads the sectors \<open>D\<close>: \<open>fat_entry\<close> is an entry of the allocation table, \<open>is_chain\<close>
  a cluster chain, \<open>cluster_bytes\<close> the contents of a cluster, \<open>dir_entries\<close> the entries of a directory,
  \<open>dir_find\<close> the lookup of a name, \<open>fat_path\<close> the resolution of a path. The sector size is the 512 bytes
  the disk driver transfers.
\<close>

section \<open>Names\<close>

text \<open>The 8.3 form of a name: base and extension in capitals, cut or padded with blanks.\<close>

definition pad :: "nat \<Rightarrow> bytes \<Rightarrow> bytes" where
  "pad n cs = take n (map upper cs @ replicate n 0x20)"

lemma fold_update:
  assumes "k \<le> length xs - j" "j \<le> length xs"
  shows "fold (\<lambda>i n. n[j + i := f i]) [0..<k] xs = take j xs @ map f [0..<k] @ drop (j + k) xs"
  using assms
proof (induction k)
  case (Suc k)
  then have d: "drop (j + k) xs = xs ! (j + k) # drop (Suc (j + k)) xs" by (intro Cons_nth_drop_Suc [symmetric]) simp
  have "fold (\<lambda>i n. n[j + i := f i]) [0..<Suc k] xs = (take j xs @ map f [0..<k] @ drop (j + k) xs)[j + k := f k]"
    using Suc by simp
  also have "\<dots> = take j xs @ map f [0..<Suc k] @ drop (j + Suc k) xs"
    using Suc.prems by (simp add: list_update_append d)
  finally show ?case .
qed simp

lemma pad_upto: "k = min n (length cs) \<Longrightarrow> map (\<lambda>i. upper (cs ! i)) [0..<k] @ replicate (n - k) 0x20 = pad n cs"
  by (rule nth_equalityI) (auto simp: pad_def nth_append min_def)

lemma cut_min: "(if (x :: nat) > n then n else x) = min n x"
  by simp

lemma filename_form:
  "filename_to_fat32 normal =
     pad 8 (takeWhile (\<lambda>c. c \<noteq> 0x2E) normal) @ pad 3 (drop 1 (dropWhile (\<lambda>c. c \<noteq> 0x2E) normal))"
proof -
  let ?name = "\<lambda>k. fold (\<lambda>i n. n[i := upper (normal ! i)]) [0..<k] (replicate 11 0x20)"
  have name: "?name (min 8 k) = pad 8 (take k normal) @ replicate 3 0x20" if "k \<le> length normal" for k
  proof -
    have "?name (min 8 k) = map (\<lambda>i. upper (normal ! i)) [0..<min 8 k] @ replicate (8 - min 8 k) 0x20 @ replicate 3 0x20"
      using fold_update [of "min 8 k" "replicate 11 0x20" 0 "\<lambda>i. upper (normal ! i)"]
      by (simp flip: replicate_add)
    also have "map (\<lambda>i. upper (normal ! i)) [0..<min 8 k] = map (\<lambda>i. upper (take k normal ! i)) [0..<min 8 k]" by simp
    finally show ?thesis using pad_upto [of "min 8 k" 8 "take k normal"] that by simp
  qed
  show ?thesis
  proof (cases "str_index normal 0x2E")
    case None
    then have "0x2E \<notin> set normal" by (simp add: str_index_None)
    then have "takeWhile (\<lambda>c. c \<noteq> 0x2E) normal = normal" "dropWhile (\<lambda>c. c \<noteq> 0x2E) normal = []"
      by (auto simp: takeWhile_eq_all_conv dropWhile_eq_Nil_conv)
    note tw = this
    show ?thesis unfolding tw using None name [of "length normal"]
      by (simp add: filename_to_fat32_def Let_def cut_min) (simp add: pad_def)
  next
    case (Some d)
    from str_index_Some [OF Some] have d: "d < length normal" "normal ! d = 0x2E" "0x2E \<notin> set (take d normal)" by simp_all
    from id_take_nth_drop [OF d(1)] d(2) have split: "take d normal @ 0x2E # drop (Suc d) normal = normal" by simp
    have no: "\<forall>c\<in>set (take d normal). c \<noteq> 0x2E" using d(3) by auto
    have "takeWhile (\<lambda>c. c \<noteq> 0x2E) (take d normal @ 0x2E # drop (Suc d) normal) = take d normal"
      "drop 1 (dropWhile (\<lambda>c. c \<noteq> 0x2E) (take d normal @ 0x2E # drop (Suc d) normal)) = drop (Suc d) normal"
      using no by (simp_all add: takeWhile_append dropWhile_append)
    note be = this [unfolded split]
    define k where "k = min 3 (length normal - Suc d)"
    have k: "k \<le> 3" "k = min 3 (length (drop (Suc d) normal))" by (simp_all add: k_def)
    have len: "length (pad 8 cs) = 8" for cs by (simp add: pad_def)
    have "fold (\<lambda>i n. n[8 + i := upper (normal ! (d + 1 + i))]) [0..<k] (pad 8 (take d normal) @ replicate 3 0x20) =
        pad 8 (take d normal) @ map (\<lambda>i. upper (normal ! (d + 1 + i))) [0..<k] @ replicate (3 - k) 0x20"
      using fold_update [of k "pad 8 (take d normal) @ replicate 3 0x20" 8 "\<lambda>i. upper (normal ! (d + 1 + i))"] k(1) len
      by (simp del: replicate.simps)
    also have "map (\<lambda>i. upper (normal ! (d + 1 + i))) [0..<k] = map (\<lambda>i. upper (drop (Suc d) normal ! i)) [0..<k]"
      by (rule map_cong [OF refl]) (use d(1) in simp)
    also have "\<dots> @ replicate (3 - k) 0x20 = pad 3 (drop (Suc d) normal)" by (rule pad_upto [OF k(2)])
    finally have ext: "fold (\<lambda>i n. n[8 + i := upper (normal ! (d + 1 + i))]) [0..<k] (pad 8 (take d normal) @ replicate 3 0x20) =
        pad 8 (take d normal) @ pad 3 (drop (Suc d) normal)" .
    have "filename_to_fat32 normal = fold (\<lambda>i n. n[8 + i := upper (normal ! (d + 1 + i))]) [0..<k] (?name (min 8 d))"
      unfolding filename_to_fat32_def Let_def Some option.case cut_min k_def ..
    also have "?name (min 8 d) = pad 8 (take d normal) @ replicate 3 0x20" by (rule name) (use d(1) in simp)
    finally show ?thesis unfolding be ext .
  qed
qed

text \<open>C22: the 11 bytes of a name are its part before the first dot and the part after it, in capitals, each
  cut or padded with blanks to its length.\<close>

theorem filename_to_fat32_padded:
  "filename_to_fat32 normal =
     pad 8 (takeWhile (\<lambda>c. c \<noteq> 0x2E) normal) @ pad 3 (drop 1 (dropWhile (\<lambda>c. c \<noteq> 0x2E) normal))"
  by (rule filename_form)

section \<open>The volume\<close>

definition byte_window :: "bytes \<Rightarrow> memory" where
  "byte_window bs = store_bytes 0 bs (\<lambda>_. 0)"

lemma window_load:
  assumes "load_bytes m a n = bs" "n \<le> 4294967296" "unat x < n"
  shows "m (a + x) = byte_window bs x"
proof -
  have "length bs = n" using assms(1) by auto
  moreover have "load_bytes m a n ! unat x = m (a + of_nat (unat x))" using assms(3) by (rule nth_load_bytes)
  ultimately show ?thesis using assms by (simp add: byte_window_def store_bytes_def)
qed

lemma window_load32:
  assumes "load_bytes m a n = bs" "n \<le> 4294967296" "unat x + 4 \<le> n"
  shows "load32 m (a + x) = load32 (byte_window bs) x"
proof -
  have *: "unat (x + of_nat i) < n" if "i < 4" for i
  proof -
    have "unat (x + of_nat i) = unat x + i" using that assms(2,3)
      by (simp add: unat_add_u32 unat_of_nat_u32)
    then show ?thesis using that assms(3) by simp
  qed
  have "m (a + (x + of_nat i)) = byte_window bs (x + of_nat i)" if "i < 4" for i
    using window_load [OF assms(1,2) * [OF that]] .
  from this [of 0] this [of 1] this [of 2] this [of 3] show ?thesis by (simp add: load32_def add.assoc)
qed

text \<open>An entry of the first copy of the allocation table, as a sector number and an offset.\<close>

definition fat_pos :: "FAT32_BPB \<Rightarrow> u32 \<Rightarrow> nat" where
  "fat_pos b c = unat (reserved_sector_count b) + unat c div 128"

definition fat_entry :: "(nat \<Rightarrow> bytes) \<Rightarrow> FAT32_BPB \<Rightarrow> u32 \<Rightarrow> u32" where
  "fat_entry D b c = load32 (byte_window (D (fat_pos b c))) (of_nat (unat c mod 128 * 4)) AND 0x0FFFFFFF"

definition cluster_sector :: "FAT32_BPB \<Rightarrow> u32 \<Rightarrow> nat" where
  "cluster_sector b c = unat (reserved_sector_count b) + unat (fat_count b) * unat (sectors_per_fat b) +
     (unat c - 2) * unat (sectors_per_cluster b)"

definition cluster_bytes :: "(nat \<Rightarrow> bytes) \<Rightarrow> FAT32_BPB \<Rightarrow> u32 \<Rightarrow> bytes" where
  "cluster_bytes D b c = sectors D (cluster_sector b c) (unat (sectors_per_cluster b))"

definition on_disk :: "FAT32_BPB \<Rightarrow> u32 \<Rightarrow> bool" where
  "on_disk b c \<longleftrightarrow> cluster_sector b c + unat (sectors_per_cluster b) \<le> 268435456"

fun is_chain :: "(nat \<Rightarrow> bytes) \<Rightarrow> FAT32_BPB \<Rightarrow> u32 \<Rightarrow> u32 list \<Rightarrow> bool" where
  "is_chain D b c [] = (\<not> in_chain c)"
| "is_chain D b c (x # xs) = (x = c \<and> in_chain c \<and> on_disk b c \<and> is_chain D b (fat_entry D b c) xs)"

definition bpb_ok :: "FAT32_BPB \<Rightarrow> bool" where
  "bpb_ok b \<longleftrightarrow> bytes_per_sector b = 512 \<and> sectors_per_cluster b \<noteq> 0"

lemma in_chain_nat: "in_chain c \<longleftrightarrow> 2 \<le> unat c \<and> unat c < 0x0FFFFFF8"
  by (simp add: in_chain_def u_simps)

lemma times4:
  assumes "unat (c :: u32) < 0x10000000"
  shows "unat (c * 4) = unat c * 4"
  using assms by (simp add: unat_mult_u32)

lemma unat_512: "unat (ucast (512 :: u16) :: u32) = 512"
  by simp

lemma unat_fat_sector:
  assumes "bpb_ok b" "unat c < 0x10000000"
  shows "unat (fat_sector b c) = fat_pos b c" "unat (fat_sector b c) + 1 \<le> 268435456"
proof -
  have q: "unat (c * 4 div ucast (bytes_per_sector b)) = unat c div 128"
    using assms times4 [OF assms(2)] by (simp add: bpb_ok_def unat_div)
  have "unat c div 128 < 2097152" using assms(2) by (simp add: less_mult_imp_div_less)
  then have "unat (reserved_sector_count b) + unat c div 128 < 4294967296"
    using u16_less_size [of "reserved_sector_count b"] by linarith
  then show e: "unat (fat_sector b c) = fat_pos b c" using q
    by (simp add: fat_sector_def fat_pos_def unat_add_u32 unat_ucast_up)
  show "unat (fat_sector b c) + 1 \<le> 268435456" unfolding e fat_pos_def
    using \<open>unat c div 128 < 2097152\<close> u16_less_size [of "reserved_sector_count b"] by linarith
qed

lemma unat_fat_offset:
  assumes "bpb_ok b" "unat c < 0x10000000"
  shows "fat_offset b c = of_nat (unat c mod 128 * 4)" "unat (fat_offset b c) = unat c mod 128 * 4"
proof -
  show "unat (fat_offset b c) = unat c mod 128 * 4"
    using assms times4 [OF assms(2)] mod_mult_mult2 [of "unat c" 4 128] by (simp add: fat_offset_def bpb_ok_def unat_mod)
  then have "of_nat (unat (fat_offset b c)) = (of_nat (unat c mod 128 * 4) :: u32)" by simp
  then show "fat_offset b c = of_nat (unat c mod 128 * 4)" by simp
qed

lemma unat_cluster_lba:
  assumes "bpb_ok b" "in_chain c" "on_disk b c"
  shows "unat (cluster_lba b c) = cluster_sector b c"
proof -
  have b: "cluster_sector b c < 268435456"
    using assms by (simp add: on_disk_def bpb_ok_def) (metis add_less_le_mono le_add1 less_add_same_cancel1 not_gr_zero order_less_le_trans unat_eq_0)
  have u: "unat (ucast (reserved_sector_count b) :: u32) = unat (reserved_sector_count b)"
    "unat (ucast (fat_count b) :: u32) = unat (fat_count b)"
    "unat (ucast (sectors_per_cluster b) :: u32) = unat (sectors_per_cluster b)" by (simp_all add: unat_ucast_up)
  have c2: "unat (c - 2) = unat c - 2" using assms(2) by (simp add: in_chain_nat unat_sub_u32 u32_le_iff)
  show ?thesis using b u c2 by (simp add: cluster_lba_def data_start_def cluster_sector_def unat_add_u32 unat_mult_u32)
qed

section \<open>The allocation table\<close>

text \<open>The fields of the driver that no transfer changes.\<close>

lemma fs_to_fat:
  assumes "fs_to L s t"
  shows "bpb t = bpb s" "fat32_initialized t = fat32_initialized s" "last_free_cluster t = last_free_cluster s"
  using assms by (auto simp: fs_to_def io_only_def)

lemma get_next_cluster_run:
  fixes s :: "'a fat32_state_scheme"
  assumes inv: "fs_inv D bs s" and b: "bpb_ok (bpb s)" and c: "unat c < 0x10000000" and room: "can_take [512] bs"
  shows "\<exists>t. get_next_cluster c s = Ret (fat_entry D (bpb s) c) t \<and> fs_inv D bs t \<and> fs_to (live HEAP bs) s t"
proof -
  have bps: "bytes_per_sector (bpb s) = 512" using b by (simp add: bpb_ok_def)
  have n: "(512 :: u32) \<noteq> 0" "unat (512 :: u32) \<le> 0xFFFFFFF8" "can_take [unat (512 :: u32)] bs" using room by simp_all
  from buffer_scope [OF inv n] obtain p k cs t where t: "kmalloc 512 s = Ret (of_nat p) t" "fs_inv D cs t" "fs_to (live HEAP bs) s t"
    "(p, k) \<in> live HEAP cs" "unat (512 :: u32) \<le> k" "live HEAP cs - {(p, k)} = live HEAP bs"
    and free: "\<And>(u :: 'a fat32_state_scheme) E. fs_inv E cs u \<Longrightarrow> \<exists>w. kfree (of_nat p) u = Ret () w \<and> fs_inv E bs w \<and> fs_to (live HEAP bs) u w"
    by metis
  note f = fs_to_fat [OF t(3)]
  define u where "u = read_sectors (fat_sector (bpb s) c) 1 (of_nat p) t"
  note pos = unat_fat_sector [OF b c] and off = unat_fat_offset [OF b c]
  have u: "fs_inv D cs u" "fs_to (live HEAP bs) t u" "load_bytes (mem u) (of_nat p) 512 = D (fat_pos (bpb s) c)"
    using buffer_read [OF t(2,4), of "fat_sector (bpb s) c" 1] pos t(5,6) by (simp_all add: u_def sectors_def)
  have ld: "load32 (mem u) (of_nat p + fat_offset (bpb s) c) AND 0x0FFFFFFF = fat_entry D (bpb s) c"
    using window_load32 [OF u(3), of "fat_offset (bpb s) c"] off by (simp add: fat_entry_def)
  from free [OF u(1)] obtain w where w: "kfree (of_nat p) u = Ret () w" "fs_inv D bs w" "fs_to (live HEAP bs) u w" by blast
  have "get_next_cluster c s = Ret (fat_entry D (bpb s) c) w"
    using t(1) f fs_to_fat [OF u(2)] bps ld w(1) by (simp add: get_next_cluster_def Let_def flip: u_def)
  then show ?thesis using w(2,3) t(3) u(2) by (blast intro: fs_to_trans)
qed

text \<open>A cluster read into a buffer.\<close>

lemma read_cluster_run:
  fixes s :: "'a fat32_state_scheme"
  assumes inv: "fs_inv D bs s" and lv: "(p, k) \<in> live HEAP bs" and b: "bpb_ok (bpb s)"
    and c: "in_chain c" "on_disk (bpb s) c" and k: "512 * unat (sectors_per_cluster (bpb s)) \<le> k"
  defines "t \<equiv> read_cluster c (of_nat p) s"
  shows "fs_inv D bs t" "fs_to (live HEAP bs - {(p, k)}) s t"
    and "load_bytes (mem t) (of_nat p) (512 * unat (sectors_per_cluster (bpb s))) = cluster_bytes D (bpb s) c"
proof -
  let ?n = "ucast (sectors_per_cluster (bpb s)) :: u32"
  have n: "unat ?n = unat (sectors_per_cluster (bpb s))" by (simp add: unat_ucast_up)
  have lba: "unat (cluster_lba (bpb s) c) = cluster_sector (bpb s) c" using b c by (rule unat_cluster_lba)
  have "unat (sectors_per_cluster (bpb s)) \<noteq> 0" using b by (simp add: bpb_ok_def unat_eq_0)
  then have *: "unat (cluster_lba (bpb s) c) + unat ?n \<le> 268435456" "0 < unat ?n" "unat ?n \<le> 256" "512 * unat ?n \<le> k"
    using c(2) k u8_less_size [of "sectors_per_cluster (bpb s)"] by (simp_all add: n lba on_disk_def del: u8_less_size)
  from buffer_read [OF inv lv *] show "fs_inv D bs t" "fs_to (live HEAP bs - {(p, k)}) s t"
    "load_bytes (mem t) (of_nat p) (512 * unat (sectors_per_cluster (bpb s))) = cluster_bytes D (bpb s) c"
    by (simp_all add: t_def n lba cluster_bytes_def)
qed

section \<open>Directories\<close>

definition entry_of :: "bytes \<Rightarrow> nat \<Rightarrow> DIR_ENTRY" where
  "entry_of bs i = dir_entry_at (byte_window bs) (32 * of_nat i)"

definition cluster_entries :: "bytes \<Rightarrow> DIR_ENTRY list" where
  "cluster_entries bs = map (entry_of bs) [0..<length bs div 32]"

definition dir_entries :: "(nat \<Rightarrow> bytes) \<Rightarrow> FAT32_BPB \<Rightarrow> u32 list \<Rightarrow> DIR_ENTRY list" where
  "dir_entries D b cs = concat (map (\<lambda>c. cluster_entries (cluster_bytes D b c)) cs)"

text \<open>The lookup of a name: entries up to the end mark count, but erased ones and parts of long names
  do not; the first one with the name is found.\<close>

definition dir_find :: "bytes \<Rightarrow> DIR_ENTRY list \<Rightarrow> DIR_ENTRY option" where
  "dir_find name es = find (\<lambda>e. de_name e ! 0 \<noteq> 0xE5 \<and> attributes e AND 0x0F \<noteq> 0x0F \<and> de_name e = name)
     (takeWhile (\<lambda>e. de_name e ! 0 \<noteq> 0) es)"

lemma window_load_bytes:
  assumes "load_bytes m a n = bs" "n \<le> 4294967296" "unat x + l \<le> n"
  shows "load_bytes m (a + x) l = load_bytes (byte_window bs) x l"
proof (rule nth_equalityI)
  fix i assume "i < length (load_bytes m (a + x) l)"
  then have i: "i < l" by simp
  then have "unat (x + of_nat i) < n" using assms(2,3) by (simp add: unat_add_u32 unat_of_nat_u32)
  from window_load [OF assms(1,2) this] i show "load_bytes m (a + x) l ! i = load_bytes (byte_window bs) x l ! i"
    by (simp add: add.assoc)
qed simp

lemma dir_entry_cong:
  assumes "load_bytes m a 32 = load_bytes m' a' 32"
  shows "dir_entry_at m a = dir_entry_at m' a'"
proof -
  have byte: "m (a + of_nat i) = m' (a' + of_nat i)" if "i < 32" for i
    using arg_cong [OF assms, of "\<lambda>bs. bs ! i"] that by simp
  have ld: "load_bytes m a 11 = load_bytes m' a' 11"
    by (rule nth_equalityI) (use byte in simp_all)
  have b: "m (a + 11) = m' (a' + 11)" "m (a + 12) = m' (a' + 12)" "m (a + 13) = m' (a' + 13)"
    using byte [of 11] byte [of 12] byte [of 13] by simp_all
  have l16: "load16 m (a + of_nat i) = load16 m' (a' + of_nat i)" if "i < 31" for i
    using byte [of i] byte [of "Suc i"] that by (simp add: load16_def ac_simps)
  have l32: "load32 m (a + 28) = load32 m' (a' + 28)"
    using byte [of 28] byte [of 29] byte [of 30] byte [of 31] by (simp add: load32_def add.assoc)
  show ?thesis
    using ld b l32 l16 [of 14] l16 [of 16] l16 [of 18] l16 [of 20] l16 [of 22] l16 [of 24] l16 [of 26]
    by (simp add: dir_entry_at_def)
qed

lemma entry_at:
  assumes "load_bytes m a n = bs" "n \<le> 4294967296" "32 * i + 32 \<le> n"
  shows "dir_entry_at m (a + 32 * of_nat i) = entry_of bs i"
proof -
  have "unat (32 * of_nat i :: u32) = 32 * i" using assms(2,3)
    by (simp add: unat_mult_u32 unat_of_nat_u32)
  then have "load_bytes m (a + 32 * of_nat i) 32 = load_bytes (byte_window bs) (32 * of_nat i) 32"
    using assms by (intro window_load_bytes) simp_all
  then show ?thesis unfolding entry_of_def by (rule dir_entry_cong)
qed

lemma dir_entry_name: "de_name (dir_entry_at m a) = load_bytes m a 11" "attributes (dir_entry_at m a) = m (a + 11)"
  "de_name (dir_entry_at m a) ! 0 = m a"
  by (simp_all add: dir_entry_at_def)

text \<open>The scan of a cluster in memory and the lookup among its entries.\<close>

lemma scan_find:
  "(case scan_entries m buf name is of
      None \<Rightarrow> (\<forall>i\<in>set is. de_name (dir_entry_at m (buf + 32 * of_nat i)) ! 0 \<noteq> 0) \<and>
        (\<forall>es. dir_find name (map (\<lambda>i. dir_entry_at m (buf + 32 * of_nat i)) is @ es) = dir_find name es)
    | Some None \<Rightarrow> \<forall>es. dir_find name (map (\<lambda>i. dir_entry_at m (buf + 32 * of_nat i)) is @ es) = None
    | Some (Some e) \<Rightarrow> \<forall>es. dir_find name (map (\<lambda>i. dir_entry_at m (buf + 32 * of_nat i)) is @ es) = Some (dir_entry_at m e))"
proof (induction "is")
  case (Cons i "is")
  then show ?case
    by (auto simp: Let_def dir_find_def dir_entry_name split: option.splits)
qed simp

lemma cluster_size:
  assumes "bpb_ok b"
  shows "unat (bytes_per_cluster b) = 512 * unat (sectors_per_cluster b)"
    "unat (entries_per_cluster b) = 16 * unat (sectors_per_cluster b)"
    "bytes_per_cluster b \<noteq> 0" "unat (bytes_per_cluster b) \<le> 0xFFFFFFF8"
proof -
  have s: "0 < unat (sectors_per_cluster b)" "unat (sectors_per_cluster b) < 256"
    using assms by (auto simp: bpb_ok_def unat_gt_0)
  then have "unat (sectors_per_cluster b) * 512 < 4294967296" by linarith
  then show e: "unat (bytes_per_cluster b) = 512 * unat (sectors_per_cluster b)"
    using assms by (simp add: bytes_per_cluster_def bpb_ok_def unat_mult_u32 unat_ucast_up)
  show "unat (entries_per_cluster b) = 16 * unat (sectors_per_cluster b)"
    by (simp add: entries_per_cluster_def unat_div e)
  show "unat (bytes_per_cluster b) \<le> 0xFFFFFFF8" unfolding e using s by linarith
  show "bytes_per_cluster b \<noteq> 0" using e s(1) by auto
qed

lemma in_chain_small: "in_chain c \<Longrightarrow> unat c < 0x10000000"
  by (simp add: in_chain_nat)

lemma length_cluster: "fs_inv D bs s \<Longrightarrow> length (cluster_bytes D b c) = 512 * unat (sectors_per_cluster b)"
  by (auto simp: cluster_bytes_def fs_inv_def intro: length_sectors)

lemma cluster_entries_at:
  assumes "load_bytes m a (512 * unat (sectors_per_cluster b)) = bs" "bpb_ok b"
  shows "map (\<lambda>i. dir_entry_at m (a + 32 * of_nat i)) [0..<unat (entries_per_cluster b)] = cluster_entries bs"
proof -
  have len: "length bs = 512 * unat (sectors_per_cluster b)" using assms(1) by auto
  have "512 * unat (sectors_per_cluster b) \<le> 4294967296" using u8_less_size [of "sectors_per_cluster b"] by linarith
  then have "dir_entry_at m (a + 32 * of_nat i) = entry_of bs i" if "i < 16 * unat (sectors_per_cluster b)" for i
    using assms(1) that by (intro entry_at) auto
  then show ?thesis unfolding cluster_entries_def by (simp add: len cluster_size(2) [OF assms(2)])
qed

lemma find_loop_run:
  fixes s :: "'a fat32_state_scheme"
  assumes "is_chain D b c cs" "fs_inv D bs s" "bpb s = b" "bpb_ok b" "can_take [512] bs"
    and lv: "(p, k) \<in> live HEAP bs" "512 * unat (sectors_per_cluster b) \<le> k"
  shows "\<exists>c' out t. loop (\<lambda>(current, out) s. out = None \<and> in_chain current) (find_step (of_nat p) name) (c, None) s = Ret (c', out) t \<and>
    map_option fst (case out of Some r \<Rightarrow> r | None \<Rightarrow> None) = dir_find name (dir_entries D b cs) \<and>
    fs_inv D bs t \<and> fs_to (live HEAP bs - {(p, k)}) s t"
  using assms(1-3)
proof (induction cs arbitrary: c s)
  case Nil
  then show ?case by (auto simp: dir_find_def dir_entries_def)
next
  case (Cons x xs)
  let ?rest = "live HEAP bs - {(p, k)}" and ?loop = "loop (\<lambda>(current, out) s. out = None \<and> in_chain current) (find_step (of_nat p) name)"
  have c: "x = c" "in_chain c" "on_disk b c" "is_chain D b (fat_entry D b c) xs" using Cons.prems(1) by simp_all
  define t where "t = read_cluster c (of_nat p) s"
  have bs: "bpb_ok (bpb s)" "on_disk (bpb s) c" "512 * unat (sectors_per_cluster (bpb s)) \<le> k"
    using assms(4) c(3) lv(2) Cons.prems(3) by simp_all
  from read_cluster_run [OF Cons.prems(2) lv(1) bs(1) c(2) bs(2,3)]
  have t: "fs_inv D bs t" "fs_to ?rest s t" "load_bytes (mem t) (of_nat p) (512 * unat (sectors_per_cluster b)) = cluster_bytes D b c"
    by (simp_all add: t_def Cons.prems(3))
  have bt: "bpb t = b" using fs_to_fat(1) [OF t(2)] Cons.prems(3) by simp
  note es = cluster_entries_at [OF t(3) assms(4)]
  let ?scan = "scan_entries (mem t) (of_nat p) name [0..<unat (entries_per_cluster b)]"
  have go: "?loop (c, None) s = bind (find_step (of_nat p) name (c, None) s) ?loop"
    using c(2) by (simp add: loop_step)
  have step: "find_step (of_nat p) name (c, None) s = (case ?scan of
          Some None \<Rightarrow> Ret (c, Some None) t
        | Some (Some e) \<Rightarrow> Ret (c, Some (Some (dir_entry_at (mem t) e, c))) t
        | None \<Rightarrow> bind (get_next_cluster c t) (\<lambda>nxt s. Ret (nxt, None) s))"
    unfolding find_step_def prod.case Let_def t_def [symmetric] bt ..
  note scan = scan_find [where m = "mem t" and buf = "of_nat p" and name = name and ?is = "[0..<unat (entries_per_cluster b)]",
    unfolded map_append [symmetric] es]
  have dir: "dir_entries D b (x # xs) = cluster_entries (cluster_bytes D b c) @ dir_entries D b xs"
    by (simp add: dir_entries_def c(1))
  consider (miss) "?scan = None" | (stop) "?scan = Some None" | (hit) e where "?scan = Some (Some e)" by (cases ?scan) auto
  then show ?case
  proof cases
    case miss
    have bt': "bpb_ok (bpb t)" using assms(4) bt by simp
    from get_next_cluster_run [OF t(1) bt' in_chain_small [OF c(2)] assms(5)] obtain u where
      u: "get_next_cluster c t = Ret (fat_entry D b c) u" "fs_inv D bs u" "fs_to (live HEAP bs) t u" unfolding bt by blast
    have bu: "bpb u = b" using fs_to_fat(1) [OF u(3)] bt by simp
    have su: "fs_to ?rest s u" using t(2) fs_to_mono [OF u(3)] by (blast intro: fs_to_trans)
    from Cons.IH [OF c(4) u(2) bu] obtain c' out w where w: "?loop (fat_entry D b c, None) u = Ret (c', out) w"
      "map_option fst (case out of Some r \<Rightarrow> r | None \<Rightarrow> None) = dir_find name (dir_entries D b xs)"
      "fs_inv D bs w" "fs_to ?rest u w" by blast
    have "?loop (c, None) s = Ret (c', out) w" unfolding go step using miss u(1) w(1) by simp
    moreover have "dir_find name (dir_entries D b (x # xs)) = dir_find name (dir_entries D b xs)"
      using scan unfolding miss by (simp add: dir)
    ultimately show ?thesis using w(2-3) fs_to_trans [OF su w(4)]
      by - (rule exI [where x = c'], rule exI [where x = out], rule exI [where x = w], simp)
  next
    case stop
    have "?loop (c, None) s = Ret (c, Some None) t" unfolding go step using stop by simp
    moreover have "dir_find name (dir_entries D b (x # xs)) = None" using scan unfolding stop by (simp add: dir)
    ultimately show ?thesis using t(1,2)
      by - (rule exI [where x = c], rule exI [where x = "Some None"], rule exI [where x = t], simp)
  next
    case hit
    have "?loop (c, None) s = Ret (c, Some (Some (dir_entry_at (mem t) e, c))) t" unfolding go step using hit by simp
    moreover have "dir_find name (dir_entries D b (x # xs)) = Some (dir_entry_at (mem t) e)" using scan unfolding hit by (simp add: dir)
    ultimately show ?thesis using t(1,2)
      by - (rule exI [where x = c], rule exI [where x = "Some (Some (dir_entry_at (mem t) e, c))"], rule exI [where x = t], simp)
  qed
qed

lemma find_entry_run:
  fixes s :: "'a fat32_state_scheme"
  assumes "fs_inv D bs s" "bpb_ok (bpb s)" "is_chain D (bpb s) c cs" "can_take [unat (bytes_per_cluster (bpb s)), 512] bs"
  shows "\<exists>r t. find_entry_in_cluster c name s = Ret r t \<and>
    map_option fst r = dir_find name (dir_entries D (bpb s) cs) \<and> fs_inv D bs t \<and> fs_to (live HEAP bs) s t"
proof -
  note n = cluster_size [OF assms(2)]
  from buffer_scope [OF assms(1) n(3,4) assms(4)] obtain p k bs' t where t: "kmalloc (bytes_per_cluster (bpb s)) s = Ret (of_nat p) t"
    "fs_inv D bs' t" "fs_to (live HEAP bs) s t" "can_take [512] bs'" "(p, k) \<in> live HEAP bs'"
    "unat (bytes_per_cluster (bpb s)) \<le> k" "live HEAP bs' - {(p, k)} = live HEAP bs"
    and free: "\<And>(u :: 'a fat32_state_scheme) E. fs_inv E bs' u \<Longrightarrow> \<exists>w. kfree (of_nat p) u = Ret () w \<and> fs_inv E bs w \<and> fs_to (live HEAP bs) u w"
    by metis
  have bt: "bpb t = bpb s" by (rule fs_to_fat(1) [OF t(3)])
  have k: "512 * unat (sectors_per_cluster (bpb s)) \<le> k" using t(6) n(1) by simp
  from find_loop_run [OF assms(3) t(2) bt assms(2) t(4,5) k, of name] obtain c' out u where
    u: "loop (\<lambda>(current, out) s. out = None \<and> in_chain current) (find_step (of_nat p) name) (c, None) t = Ret (c', out) u"
    "map_option fst (case out of Some r \<Rightarrow> r | None \<Rightarrow> None) = dir_find name (dir_entries D (bpb s) cs)"
    "fs_inv D bs' u" "fs_to (live HEAP bs) t u" unfolding t(7) by blast
  from free [OF u(3)] obtain w where w: "kfree (of_nat p) u = Ret () w" "fs_inv D bs w" "fs_to (live HEAP bs) u w" by blast
  have "find_entry_in_cluster c name s = Ret (case out of Some r \<Rightarrow> r | None \<Rightarrow> None) w"
    using t(1) u(1) w(1) by (simp add: find_entry_in_cluster_def)
  then show ?thesis using u(2) w(2) t(3) u(4) w(3) by (blast intro: fs_to_trans)
qed

section \<open>Paths\<close>

fun tokens :: "bytes \<Rightarrow> bytes list" where
  "tokens [] = [[]]"
| "tokens (c # cs) = (if c = 0x2F then [] # tokens cs else (c # hd (tokens cs)) # tl (tokens cs))"

definition components :: "bytes \<Rightarrow> bytes list" where
  "components path = filter (\<lambda>t. t \<noteq> []) (tokens path)"

lemma tokens_not_Nil [simp]: "tokens p \<noteq> []"
  by (cases p) auto

lemma tokens_index:
  "tokens p = (case str_index p 0x2F of None \<Rightarrow> [p] | Some i \<Rightarrow> take i p # tokens (drop (Suc i) p))"
  by (induction p) (auto split: option.splits)

lemma components_nonempty: "p \<noteq> [] \<Longrightarrow> last p \<noteq> 0x2F \<Longrightarrow> components p \<noteq> []"
proof (induction p)
  case (Cons c p)
  show ?case
  proof (cases "c = 0x2F \<and> p \<noteq> []")
    case True
    with Cons show ?thesis by (simp add: components_def)
  qed (use Cons.prems in \<open>auto simp: components_def\<close>)
qed simp

text \<open>The entry a sequence of names leads to from a directory.\<close>

inductive fat_path :: "(nat \<Rightarrow> bytes) \<Rightarrow> FAT32_BPB \<Rightarrow> u32 \<Rightarrow> bytes list \<Rightarrow> DIR_ENTRY option \<Rightarrow> bool" for D b where
  missing: "is_chain D b c cs \<Longrightarrow> dir_find (filename_to_fat32 n) (dir_entries D b cs) = None \<Longrightarrow> fat_path D b c (n # ns) None"
| found: "is_chain D b c cs \<Longrightarrow> dir_find (filename_to_fat32 n) (dir_entries D b cs) = Some e \<Longrightarrow> fat_path D b c [n] (Some e)"
| not_directory: "is_chain D b c cs \<Longrightarrow> dir_find (filename_to_fat32 n) (dir_entries D b cs) = Some e \<Longrightarrow>
    \<not> is_directory e \<Longrightarrow> ns \<noteq> [] \<Longrightarrow> fat_path D b c (n # ns) None"
| descend: "is_chain D b c cs \<Longrightarrow> dir_find (filename_to_fat32 n) (dir_entries D b cs) = Some e \<Longrightarrow>
    is_directory e \<Longrightarrow> ns \<noteq> [] \<Longrightarrow> fat_path D b (entry_cluster e) ns r \<Longrightarrow> fat_path D b c (n # ns) r"

inductive_cases fat_path_Cons: "fat_path D b c (n # ns) r"
inductive_cases fat_path_Nil: "fat_path D b c [] r"

lemma is_chain_unique: "is_chain D b c cs \<Longrightarrow> is_chain D b c ds \<Longrightarrow> cs = ds"
proof (induction cs arbitrary: c ds)
  case Nil
  then show ?case by (cases ds) auto
next
  case (Cons x xs)
  then show ?case by (cases ds) auto
qed

lemma walk_run:
  fixes s :: "'a fat32_state_scheme"
  assumes "fs_inv D bs s" "bpb_ok (bpb s)" "can_take [unat (bytes_per_cluster (bpb s)), 512] bs"
    and "fat_path D (bpb s) c (components p) r" "p \<noteq> []" "last p \<noteq> 0x2F"
  shows "\<exists>q t. fat32_walk c p s = Ret q t \<and> map_option fst q = r \<and> fs_inv D bs t \<and> fs_to (live HEAP bs) s t"
  using assms
proof (induction "length p" arbitrary: p c s r rule: less_induct)
  case less
  define i where "i = str_index p 0x2F"
  define token where "token = (case i of Some i \<Rightarrow> take i p | None \<Rightarrow> p)"
  define rest where "rest = (case i of Some i \<Rightarrow> drop (Suc i) p | None \<Rightarrow> [])"
  have rest: "length rest < length p" "rest \<noteq> [] \<Longrightarrow> last rest \<noteq> 0x2F"
    using less.prems(5,6) by (auto simp: rest_def split: option.splits)
  have walk: "fat32_walk c p s =
      (if token = [] then (if i = None then Ret None s else fat32_walk c rest s)
       else bind (find_entry_in_cluster c (filename_to_fat32 token) s) (\<lambda>r s.
         case r of None \<Rightarrow> Ret None s
         | Some (ent, _) \<Rightarrow>
             if i = None \<or> rest = [] then Ret (Some (ent, c)) s
             else if \<not> is_directory ent then Ret None s
             else fat32_walk (entry_cluster ent) rest s))"
    using less.prems(5) by (subst fat32_walk.simps) (simp only: Let_def if_False flip: i_def token_def rest_def)
  have comps: "components p = (if token = [] then [] else [token]) @ (if i = None then [] else components rest)"
    unfolding components_def by (subst tokens_index) (auto simp: i_def token_def rest_def split: option.split)
  show ?case
  proof (cases "token = []")
    case True
    then have "i \<noteq> None" using less.prems(5) by (cases i) (auto simp: token_def)
    moreover have "rest \<noteq> []"
      using True less.prems(6) \<open>i \<noteq> None\<close> less.prems(5) str_index_Some [of p "0x2F"]
      by (cases p) (auto simp: token_def rest_def i_def split: if_splits option.splits)
    ultimately show ?thesis
      using less.hyps [OF rest(1) less.prems(1-3) _ _ rest(2)] less.prems(4) True walk comps by auto
  next
    case False
    define ns where "ns = (if i = None then [] else components rest)"
    have ns: "ns = [] \<longleftrightarrow> i = None \<or> rest = []"
      using components_nonempty [OF _ rest(2)] by (auto simp: ns_def components_def)
    have path: "fat_path D (bpb s) c (token # ns) r" using less.prems(4) comps False by (simp add: ns_def)
    then obtain cs where cs: "is_chain D (bpb s) c cs" by (auto elim: fat_path_Cons)
    from find_entry_run [OF less.prems(1,2) cs less.prems(3), of "filename_to_fat32 token"] obtain q t where
      q: "find_entry_in_cluster c (filename_to_fat32 token) s = Ret q t"
      "map_option fst q = dir_find (filename_to_fat32 token) (dir_entries D (bpb s) cs)"
      "fs_inv D bs t" "fs_to (live HEAP bs) s t" by blast
    have bt: "bpb t = bpb s" by (rule fs_to_fat(1) [OF q(4)])
    have run: "fat32_walk c p s = (case q of None \<Rightarrow> Ret None t | Some (ent, _) \<Rightarrow>
        if ns = [] then Ret (Some (ent, c)) t else if \<not> is_directory ent then Ret None t
        else fat32_walk (entry_cluster ent) rest t)"
      unfolding walk ns using False q(1) by simp
    have same: "dir_find (filename_to_fat32 token) (dir_entries D (bpb s) ds) = map_option fst q" if "is_chain D (bpb s) c ds" for ds
      using is_chain_unique [OF cs that] q(2) by simp
    from path show ?thesis
    proof (rule fat_path_Cons)
      fix ds assume 1: "r = None" "is_chain D (bpb s) c ds" "dir_find (filename_to_fat32 token) (dir_entries D (bpb s) ds) = None"
      then have "q = None" using same [of ds] by simp
      then show ?thesis using run q(3,4) 1(1) by simp
    next
      fix ds e assume 2: "ns = []" "r = Some e" "is_chain D (bpb s) c ds"
        "dir_find (filename_to_fat32 token) (dir_entries D (bpb s) ds) = Some e"
      then obtain a where "q = Some (e, a)" using same [of ds] by auto
      then show ?thesis using run q(3,4) 2(1,2) by simp
    next
      fix ds e assume 3: "r = None" "is_chain D (bpb s) c ds"
        "dir_find (filename_to_fat32 token) (dir_entries D (bpb s) ds) = Some e" "\<not> is_directory e" "ns \<noteq> []"
      then obtain a where "q = Some (e, a)" using same [of ds] by auto
      then show ?thesis using run q(3,4) 3(1,4,5) by simp
    next
      fix ds e assume 4: "is_chain D (bpb s) c ds"
        "dir_find (filename_to_fat32 token) (dir_entries D (bpb s) ds) = Some e" "is_directory e" "ns \<noteq> []"
        "fat_path D (bpb s) (entry_cluster e) ns r"
      then obtain a where qa: "q = Some (e, a)" using same [of ds] by auto
      have "i \<noteq> None" "rest \<noteq> []" using ns 4(4) by auto
      then have path': "fat_path D (bpb t) (entry_cluster e) (components rest) r" using 4(5) by (auto simp: bt ns_def)
      have bt': "bpb_ok (bpb t)" "can_take [unat (bytes_per_cluster (bpb t)), 512] bs"
        using less.prems(2,3) by (simp_all add: bt)
      from less.hyps [OF rest(1) q(3) bt' path' \<open>rest \<noteq> []\<close> rest(2) [OF \<open>rest \<noteq> []\<close>]] obtain q' u where
        "fat32_walk (entry_cluster e) rest t = Ret q' u" "map_option fst q' = r" "fs_inv D bs u" "fs_to (live HEAP bs) t u" by blast
      then show ?thesis using run qa 4(3,4) q(4) by (auto intro: fs_to_trans)
    qed
  qed
qed

lemma tokens_snoc_slash: "tokens (p @ [0x2F]) = tokens p @ [[]]"
  by (induction p) auto

lemma components_slash [simp]: "components (0x2F # p) = components p" "components (p @ [0x2F]) = components p"
  by (simp_all add: components_def tokens_snoc_slash)

lemma components_skip: "components (skip_slash p) = components p"
  by (cases p) (auto simp: skip_slash_def)

lemma strip_slashes_snoc: "strip_slashes (p @ [c]) = (if c = 0x2F then strip_slashes p else p @ [c])"
  by (simp add: strip_slashes_def)

lemma components_strip: "components (strip_slashes p) = components p"
  by (induction p rule: rev_induct) (auto simp: strip_slashes_snoc, simp add: strip_slashes_def)

lemma strip_slashes_last: "strip_slashes p \<noteq> [] \<Longrightarrow> last (strip_slashes p) \<noteq> 0x2F"
  by (induction p rule: rev_induct) (auto simp: strip_slashes_snoc, simp add: strip_slashes_def)

text \<open>The entry of a path: for the root, the directory entry the driver makes up.\<close>

definition volume_path :: "(nat \<Rightarrow> bytes) \<Rightarrow> FAT32_BPB \<Rightarrow> bytes \<Rightarrow> DIR_ENTRY option \<Rightarrow> bool" where
  "volume_path D b path r \<longleftrightarrow>
     (if components path = [] then r = Some (new_dir_entry (replicate 11 0) 0x10 (root_cluster b) 0)
      else fat_path D b (root_cluster b) (components path) r)"

lemma find_file_run:
  fixes s :: "'a fat32_state_scheme"
  assumes "fs_inv D bs s" "bpb_ok (bpb s)" "can_take [unat (bytes_per_cluster (bpb s)), 512] bs"
    and "fat32_initialized s" "length (skip_slash path) < 256" "volume_path D (bpb s) path r"
  shows "\<exists>q t. fat32_find_file path s = Ret q t \<and> map_option fst q = r \<and> fs_inv D bs t \<and> fs_to (live HEAP bs) s t"
proof -
  let ?p = "strip_slashes (skip_slash path)"
  have comps: "components ?p = components path" by (simp add: components_strip components_skip)
  have find: "fat32_find_file path s = (if ?p = [] then
       Ret (Some ((new_dir_entry (replicate 11 0) 0x10 (root_cluster (bpb s)) 0), root_cluster (bpb s))) s
     else fat32_walk (root_cluster (bpb s)) ?p s)"
    using assms(4,5) by (simp add: fat32_find_file_def Let_def)
  show ?thesis
  proof (cases "?p = []")
    case True
    then have "components path = []" using comps by (simp add: components_def)
    then show ?thesis using find True assms(1,6) by (auto simp: volume_path_def)
  next
    case False
    have last: "last ?p \<noteq> 0x2F" by (rule strip_slashes_last [OF False])
    from components_nonempty [OF False this] have "fat_path D (bpb s) (root_cluster (bpb s)) (components ?p) r"
      using assms(6) comps by (simp add: volume_path_def)
    from walk_run [OF assms(1-3) this False last] show ?thesis using find False by simp
  qed
qed

section \<open>Reading a file\<close>

definition chain_bytes :: "(nat \<Rightarrow> bytes) \<Rightarrow> FAT32_BPB \<Rightarrow> u32 list \<Rightarrow> bytes" where
  "chain_bytes D b cs = concat (map (cluster_bytes D b) cs)"

text \<open>The bytes of another buffer survive a step that keeps it.\<close>

lemma fs_to_load:
  assumes "fs_to L s t" "(x, l) \<in> L" "x + l \<le> 4294967296" "n \<le> l" "0 < x"
  shows "load_bytes (mem t) (of_nat x) n = load_bytes (mem s) (of_nat x) n"
proof (cases "n = 0")
  case False
  then have "unat (of_nat x :: u32) = x" using assms(3,4) by (intro unat_of_nat_u32) simp
  then show ?thesis using assms by (intro kept_load [where L = L and k = l]) (auto simp: fs_to_def)
qed simp

lemma buffer_copy:
  fixes s :: "'a heap_state_scheme"
  assumes inv: "fs_inv D bs s" and lv: "(p, k) \<in> live HEAP bs" "(x, l) \<in> live HEAP bs" "(p, k) \<noteq> (x, l)"
    and fits: "unat n \<le> k" "i + unat n \<le> l"
  defines "t \<equiv> memcpy (of_nat x + of_nat i) (of_nat p) n s"
  shows "fs_inv D bs t" "fs_to (live HEAP bs - {(x, l)}) s t"
    and "load_bytes (mem t) (of_nat x) (i + unat n) = load_bytes (mem s) (of_nat x) i @ load_bytes (mem s) (of_nat p) (unat n)"
proof -
  have h: "heap_inv s bs" using inv by (simp add: fs_inv_def)
  note px = buffer_word [OF h lv(1)] and xx = buffer_word [OF h lv(2)]
  let ?ds = "load_bytes (mem s) (of_nat p) (unat n)"
  have t: "t = s\<lparr>mem := store_bytes (of_nat x + of_nat i) ?ds (mem s)\<rparr>"
  proof (cases "unat n = 0")
    case False
    from live_disjoint [OF lv(1,2)] lv(3) have "p + k + 17 \<le> x \<or> x + l + 17 \<le> p" by blast
    then have "apart (of_nat (x + i)) (unat n) (of_nat p) (unat n)"
      using apart_nat(1) [of "x + i" "unat n" p "unat n"] apart_nat(2) [of p "unat n" "x + i" "unat n"] fits False px xx by fastforce
    then show ?thesis unfolding t_def by (simp add: memcpy_copies)
  qed (simp add: t_def memcpy_def)
  have fits': "i + length ?ds \<le> l" using fits(2) by simp
  from buffer_store [OF inv lv(2) fits'] show "fs_inv D bs t" "fs_to (live HEAP bs - {(x, l)}) s t" unfolding t by simp_all
  have "load_bytes (mem t) (of_nat x) i = load_bytes (mem s) (of_nat x) i"
  proof (rule nth_equalityI)
    fix j assume "j < length (load_bytes (mem t) (of_nat x) i)"
    then have j: "j < i" by simp
    have "unat (of_nat j - of_nat i :: u32) = 4294967296 - (i - j)" if "?ds \<noteq> []"
    proof -
      have n0: "0 < unat n" using that by (auto simp: load_bytes_def)
      have u: "unat (of_nat i :: u32) = i" "unat (of_nat j :: u32) = j" using fits n0 xx j by (simp_all add: unat_of_nat_u32)
      then have "(of_nat j :: u32) \<noteq> of_nat i" using j by force
      from unat_diff_swap [OF this] show ?thesis using u j by (simp add: unat_sub_u32 u32_le_iff)
    qed
    then have "length ?ds \<le> unat (of_nat x + of_nat j - (of_nat x + of_nat i) :: u32)"
      using fits xx j by (cases "?ds = []") auto
    from store_bytes_outside [OF this] j show "load_bytes (mem t) (of_nat x) i ! j = load_bytes (mem s) (of_nat x) i ! j"
      by (simp add: t)
  qed simp
  moreover have "load_bytes (mem t) (of_nat x + of_nat i) (unat n) = ?ds"
    using load_store_bytes_same [of ?ds "of_nat x + of_nat i" "mem s"] less_imp_le [OF u32_less_size [of n]] by (simp add: t)
  ultimately show "load_bytes (mem t) (of_nat x) (i + unat n) = load_bytes (mem s) (of_nat x) i @ ?ds"
    by (simp add: load_bytes_add)
qed

lemma read_loop_run:
  fixes s :: "'a fat32_state_scheme"
  assumes "is_chain D b c cs" "fs_inv D bs s" "bpb s = b" "unat tot \<le> unat sz" "unat sz - unat tot \<le> length (chain_bytes D b cs)"
    and b: "bpb_ok b" "can_take [512] bs"
    and lv: "(p, k) \<in> live HEAP bs" "512 * unat (sectors_per_cluster b) \<le> k" "(x, l) \<in> live HEAP bs" "(p, k) \<noteq> (x, l)"
      "unat sz \<le> l"
  shows "\<exists>c' t. loop (\<lambda>(c, tot) s. in_chain c \<and> tot < sz) (read_step (of_nat x) (of_nat p) sz) (c, tot) s = Ret (c', sz) t \<and>
    load_bytes (mem t) (of_nat x) (unat sz) =
      load_bytes (mem s) (of_nat x) (unat tot) @ take (unat sz - unat tot) (chain_bytes D b cs) \<and>
    fs_inv D bs t \<and> fs_to (live HEAP bs - {(p, k), (x, l)}) s t"
  using assms(1-5)
proof (induction cs arbitrary: c s tot)
  case Nil
  then have "unat tot = unat sz" by (simp add: chain_bytes_def)
  then have "tot = sz" by (simp add: word_unat_eq_iff)
  with Nil show ?case by simp
next
  case (Cons y ys)
  let ?rest = "live HEAP bs - {(p, k), (x, l)}" and ?B = "512 * unat (sectors_per_cluster b)"
  let ?loop = "loop (\<lambda>(c, tot) s. in_chain c \<and> tot < sz) (read_step (of_nat x) (of_nat p) sz)"
  have c: "y = c" "in_chain c" "on_disk b c" "is_chain D b (fat_entry D b c) ys" using Cons.prems(1) by simp_all
  show ?case
  proof (cases "tot < sz")
    case False
    then have "tot = sz" using Cons.prems(4) by (simp add: u32_less_iff word_unat_eq_iff)
    then show ?thesis using Cons.prems(2) by simp
  next
    case True
    then have lt: "unat tot < unat sz" by (simp add: u32_less_iff)
    have bs: "bpb_ok (bpb s)" "on_disk (bpb s) c" "512 * unat (sectors_per_cluster (bpb s)) \<le> k"
      using b(1) c(3) lv(2) Cons.prems(3) by simp_all
    define t where "t = read_cluster c (of_nat p) s"
    from read_cluster_run [OF Cons.prems(2) lv(1) bs(1) c(2) bs(2,3)]
    have t: "fs_inv D bs t" "fs_to (live HEAP bs - {(p, k)}) s t" "load_bytes (mem t) (of_nat p) ?B = cluster_bytes D b c"
      by (simp_all add: t_def Cons.prems(3))
    have bt: "bpb t = b" using fs_to_fat(1) [OF t(2)] Cons.prems(3) by simp
    define chunk where "chunk = (if sz - tot < bytes_per_cluster b then sz - tot else bytes_per_cluster b)"
    note size = cluster_size [OF b(1)]
    have rem: "unat (sz - tot) = unat sz - unat tot" using lt by (simp add: unat_sub_u32 u32_le_iff)
    have chunk: "unat chunk = min (unat sz - unat tot) ?B"
      by (auto simp: chunk_def rem size(1) u32_less_iff)
    define u where "u = memcpy (of_nat x + tot) (of_nat p) chunk t"
    have tw: "of_nat (unat tot) = tot" by simp
    have f: "unat chunk \<le> k" "unat tot + unat chunk \<le> l" using chunk lv(2,5) lt by linarith+
    from buffer_copy [OF t(1) lv(1,3,4) f, unfolded tw]
    have u: "fs_inv D bs u" "fs_to (live HEAP bs - {(x, l)}) t u"
      "load_bytes (mem u) (of_nat x) (unat tot + unat chunk) = load_bytes (mem t) (of_nat x) (unat tot) @ load_bytes (mem t) (of_nat p) (unat chunk)"
      by (simp_all add: u_def)
    have bu: "bpb u = b" using fs_to_fat(1) [OF u(2)] bt by simp
    have bu': "bpb_ok (bpb u)" using bu b(1) by simp
    from get_next_cluster_run [OF u(1) bu' in_chain_small [OF c(2)] b(2)] obtain w where
      w: "get_next_cluster c u = Ret (fat_entry D b c) w" "fs_inv D bs w" "fs_to (live HEAP bs) u w" unfolding bu by blast
    have bw: "bpb w = b" using fs_to_fat(1) [OF w(3)] bu by simp
    have tc: "unat (tot + chunk) = unat tot + unat chunk"
      using chunk lt u32_less_size [of sz] by (subst unat_add_nowrap) (simp_all del: u32_less_size)
    have clen: "length (cluster_bytes D b c) = ?B" by (rule length_cluster [OF Cons.prems(2)])
    have step: "read_step (of_nat x) (of_nat p) sz (c, tot) s = bind (get_next_cluster c u) (\<lambda>nxt s. Ret (nxt, tot + chunk) s)"
      unfolding read_step_def prod.case Let_def t_def [symmetric] bt chunk_def [symmetric] u_def [symmetric] ..
    have go: "?loop (c, tot) s = ?loop (fat_entry D b c, tot + chunk) w"
      using c(2) True w(1) step by (simp add: loop_step)
    have prem: "unat (tot + chunk) \<le> unat sz" "unat sz - unat (tot + chunk) \<le> length (chain_bytes D b ys)"
      using Cons.prems(5) c(1) clen chunk lt unfolding tc by (auto simp: chain_bytes_def)
    from Cons.IH [OF c(4) w(2) bw prem] obtain c' v where v: "?loop (fat_entry D b c, tot + chunk) w = Ret (c', sz) v"
      "load_bytes (mem v) (of_nat x) (unat sz) = load_bytes (mem w) (of_nat x) (unat (tot + chunk)) @
         take (unat sz - unat (tot + chunk)) (chain_bytes D b ys)"
      "fs_inv D bs v" "fs_to ?rest w v" by blast
    have xx: "x + l \<le> 4294967296" "0 < x"
      using Cons.prems(2) lv(3) buffer_word [of s bs x l] by (simp_all add: fs_inv_def)
    have in_rest: "(x, l) \<in> live HEAP bs - {(p, k)}" using lv(3,4) by auto
    have "load_bytes (mem w) (of_nat x) (unat tot + unat chunk) = load_bytes (mem u) (of_nat x) (unat tot + unat chunk)"
      by (rule fs_to_load [OF w(3) lv(3) xx(1) f(2) xx(2)])
    also have "\<dots> = load_bytes (mem s) (of_nat x) (unat tot) @ take (unat chunk) (cluster_bytes D b c)"
      using u(3) fs_to_load [OF t(2) in_rest xx(1) _ xx(2), of "unat tot"] f(2) chunk
        load_bytes_sub [of 0 "unat chunk" ?B "mem t" "of_nat p"] by (simp add: t(3))
    finally have "load_bytes (mem v) (of_nat x) (unat sz) = load_bytes (mem s) (of_nat x) (unat tot) @
        take (unat chunk) (cluster_bytes D b c) @ take (unat sz - unat tot - unat chunk) (chain_bytes D b ys)"
      using v(2) by (simp add: tc)
    also have "take (unat chunk) (cluster_bytes D b c) @ take (unat sz - unat tot - unat chunk) (chain_bytes D b ys) =
        take (unat sz - unat tot) (chain_bytes D b (y # ys))"
      using c(1) clen chunk by (auto simp: chain_bytes_def min_def)
    finally have "load_bytes (mem v) (of_nat x) (unat sz) =
      load_bytes (mem s) (of_nat x) (unat tot) @ take (unat sz - unat tot) (chain_bytes D b (y # ys))" .
    moreover have "fs_to ?rest s v"
      using fs_to_mono [OF t(2), of ?rest] fs_to_mono [OF u(2), of ?rest] fs_to_mono [OF w(3), of ?rest] v(4)
      by (fast intro: fs_to_trans)
    ultimately show ?thesis using go v(1,3)
      by - (rule exI [where x = c'], rule exI [where x = v], simp)
  qed
qed

text \<open>The call as a whole.\<close>

lemma read_file_run:
  fixes s :: "'a fat32_state_scheme"
  assumes "fs_inv D bs s" "bpb_ok (bpb s)" "can_take [unat (bytes_per_cluster (bpb s)), 512] bs"
    and "fat32_initialized s" "length (skip_slash path) < 256" "volume_path D (bpb s) path (Some e)"
    and "is_chain D (bpb s) (entry_cluster e) cs" "unat (de_size e) \<le> length (chain_bytes D (bpb s) cs)"
    and "(x, l) \<in> live HEAP bs" "unat (de_size e) \<le> l"
  shows "\<exists>t. fat32_read_file path (of_nat x) s = Ret (de_size e) t \<and>
    load_bytes (mem t) (of_nat x) (unat (de_size e)) = take (unat (de_size e)) (chain_bytes D (bpb s) cs) \<and>
    fs_inv D bs t \<and> fs_to (live HEAP bs - {(x, l)}) s t"
proof -
  let ?sz = "de_size e"
  from find_file_run [OF assms(1-6)] obtain q t where t: "fat32_find_file path s = Ret q t" "map_option fst q = Some e"
    "fs_inv D bs t" "fs_to (live HEAP bs) s t" by blast
  then obtain a where q: "q = Some (e, a)" by (cases q) auto
  have bt: "bpb t = bpb s" by (rule fs_to_fat(1) [OF t(4)])
  note size = cluster_size [OF assms(2)]
  from buffer_scope [OF t(3) size(3,4) assms(3)] obtain p k bs' u where
    u: "kmalloc (bytes_per_cluster (bpb s)) t = Ret (of_nat p) u"
    "fs_inv D bs' u" "fs_to (live HEAP bs) t u" "can_take [512] bs'" "(p, k) \<in> live HEAP bs'"
    "unat (bytes_per_cluster (bpb s)) \<le> k" "live HEAP bs' - {(p, k)} = live HEAP bs"
    and free: "\<And>(v :: 'a fat32_state_scheme) E. fs_inv E bs' v \<Longrightarrow> \<exists>w. kfree (of_nat p) v = Ret () w \<and> fs_inv E bs w \<and> fs_to (live HEAP bs) v w"
    by metis
  have bu: "bpb u = bpb s" using fs_to_fat(1) [OF u(3)] bt by simp
  have xl: "(x, l) \<in> live HEAP bs'" "(p, k) \<noteq> (x, l)" "live HEAP bs' - {(p, k), (x, l)} = live HEAP bs - {(x, l)}"
    using assms(9) u(7) by blast+
  have pre: "unat (0 :: u32) \<le> unat ?sz" "unat ?sz - unat (0 :: u32) \<le> length (chain_bytes D (bpb s) cs)"
    "512 * unat (sectors_per_cluster (bpb s)) \<le> k" using assms(8) u(6) size(1) by simp_all
  from read_loop_run [OF assms(7) u(2) bu pre(1,2) assms(2) u(4,5) pre(3) xl(1,2) assms(10)] obtain c' v where
    v: "loop (\<lambda>(c, tot) s. in_chain c \<and> tot < ?sz) (read_step (of_nat x) (of_nat p) ?sz) (entry_cluster e, 0) u = Ret (c', ?sz) v"
    "load_bytes (mem v) (of_nat x) (unat ?sz) = take (unat ?sz) (chain_bytes D (bpb s) cs)"
    "fs_inv D bs' v" "fs_to (live HEAP bs - {(x, l)}) u v" unfolding xl(3) by auto
  from free [OF v(3)] obtain w where w: "kfree (of_nat p) v = Ret () w" "fs_inv D bs w" "fs_to (live HEAP bs) v w" by blast
  have "fat32_read_file path (of_nat x) s = Ret ?sz w"
    using t(1) q u(1) v(1) w(1) by (simp add: fat32_read_file_def bt)
  moreover have "x + l \<le> 4294967296" "0 < x" using buffer_word [of s bs x l] assms(1,9) by (simp_all add: fs_inv_def)
  then have "load_bytes (mem w) (of_nat x) (unat ?sz) = take (unat ?sz) (chain_bytes D (bpb s) cs)"
    using fs_to_load [OF w(3) assms(9) _ assms(10)] v(2) by simp
  moreover have "fs_to (live HEAP bs - {(x, l)}) s w"
    using fs_to_mono [OF t(4), of "live HEAP bs - {(x, l)}"] fs_to_mono [OF u(3), of "live HEAP bs - {(x, l)}"] v(4)
      fs_to_mono [OF w(3), of "live HEAP bs - {(x, l)}"] by (meson Diff_subset fs_to_trans)
  ultimately show ?thesis using w(2) by blast
qed

end
