(* ===== verification/Fat32_Alloc.thy ===== *)
theory Fat32_Alloc
  imports Fat32_Correct
begin

unbundle bit_operations_syntax

text \<open>
  Changes of the allocation table: \<open>set_next_cluster\<close> in all copies, freeing a chain.
\<close>

section \<open>One entry\<close>

definition put_entry :: "u32 \<Rightarrow> nat \<Rightarrow> u32 \<Rightarrow> (nat \<Rightarrow> bytes) \<Rightarrow> nat \<Rightarrow> bytes" where
  "put_entry v i off D = D(i := load_bytes (store32 off ((load32 (byte_window (D i)) off AND 0xF0000000) OR
     (v AND 0x0FFFFFFF)) (byte_window (D i))) 0 512)"

lemma window_store:
  assumes "load_bytes m a n = bs" "n \<le> 4294967296"
  shows "load_bytes (store_bytes (a + x) es m) a n = load_bytes (store_bytes x es (byte_window bs)) 0 n"
proof (rule nth_equalityI)
  fix j assume "j < length (load_bytes (store_bytes (a + x) es m) a n)"
  then have j: "j < n" by simp
  then have u: "unat (of_nat j :: u32) < n" using assms(2) by (simp add: unat_of_nat_u32)
  from window_load [OF assms u] j
  show "load_bytes (store_bytes (a + x) es m) a n ! j = load_bytes (store_bytes x es (byte_window bs)) 0 n ! j"
    by (simp add: store_bytes_def)
qed simp

lemma window_load0:
  assumes "unat x + 4 \<le> n" "n \<le> 4294967296"
  shows "load32 (byte_window (load_bytes m 0 n)) x = load32 m x"
  using window_load32 [OF refl assms(2,1), of m 0] by simp

lemma entry_value: "((x AND 0xF0000000) OR (v AND 0x0FFFFFFF)) AND 0x0FFFFFFF = (v :: u32) AND 0x0FFFFFFF"
proof -
  have "(0xF0000000 :: u32) AND 0x0FFFFFFF = 0" by simp
  then show ?thesis by (simp add: bit.conj_disj_distrib2 and.assoc)
qed

lemma put_entry_same:
  assumes "unat off + 4 \<le> 512"
  shows "load32 (byte_window (put_entry v i off D i)) off AND 0x0FFFFFFF = v AND 0x0FFFFFFF"
  using assms by (simp add: put_entry_def window_load0 entry_value)

lemma apart_aligned:
  fixes x y :: u32
  assumes "unat x = 4 * i" "unat y = 4 * j" "i \<noteq> j"
  shows "apart x 4 y 4"
proof -
  have "of_nat (unat x) = x" "of_nat (unat y) = y" by simp_all
  then have "of_nat (4 * i) = x" "of_nat (4 * j) = y" unfolding assms(1,2) .
  moreover have "4 * i + 4 \<le> 4294967296" "4 * j + 4 \<le> 4294967296" 
    using u32_less_size [of x] u32_less_size [of y] unfolding assms(1,2) by presburger+
  ultimately show ?thesis using apart_nat(1) [of "4 * i" 4 "4 * j" 4] apart_nat(2) [of "4 * j" 4 "4 * i" 4] assms(3)
    by (cases "i < j") (simp_all del: of_nat_mult)
qed

lemma put_entry_other:
  assumes "unat off = 4 * k" "unat off' = 4 * l" "k < 128" "l < 128" "i' \<noteq> i \<or> k \<noteq> l" "length (D i') = 512"
  shows "load32 (byte_window (put_entry v i off D i')) off' = load32 (byte_window (D i')) off'"
proof (cases "i' = i")
  case True
  then have "apart off 4 off' 4" using assms(1,2,5) by (intro apart_aligned) auto
  then show ?thesis using True assms(2,4) by (simp add: put_entry_def window_load0 load32_store32_apart)
qed (simp add: put_entry_def)

lemma length_put_entry: "\<forall>i. length (D i) = 512 \<Longrightarrow> \<forall>i. length (put_entry v j off D i) = 512"
  by (simp add: put_entry_def)

section \<open>All copies\<close>

definition copy_pos :: "FAT32_BPB \<Rightarrow> u32 \<Rightarrow> nat \<Rightarrow> nat" where
  "copy_pos b c f = fat_pos b c + f * unat (sectors_per_fat b)"

definition put_copies :: "FAT32_BPB \<Rightarrow> u32 \<Rightarrow> u32 \<Rightarrow> nat \<Rightarrow> (nat \<Rightarrow> bytes) \<Rightarrow> nat \<Rightarrow> bytes" where
  "put_copies b c v n D = fold (\<lambda>f. put_entry v (copy_pos b c f) (fat_offset b c)) [0..<n] D"

text \<open>The entry of the cluster lies in the table, and the copies of the table on the disk.\<close>

definition in_fat :: "FAT32_BPB \<Rightarrow> u32 \<Rightarrow> bool" where
  "in_fat b c \<longleftrightarrow> unat c < 0x10000000 \<and> unat c div 128 < unat (sectors_per_fat b)"

definition fats_fit :: "FAT32_BPB \<Rightarrow> bool" where
  "fats_fit b \<longleftrightarrow> 0 < unat (fat_count b) \<and>
     unat (reserved_sector_count b) + unat (fat_count b) * unat (sectors_per_fat b) \<le> 268435456"

lemma copy_pos_bound:
  assumes "in_fat b c" "fats_fit b" "f < unat (fat_count b)"
  shows "copy_pos b c f < unat (reserved_sector_count b) + unat (fat_count b) * unat (sectors_per_fat b)"
    "copy_pos b c f < 268435456"
proof -
  have "Suc f * unat (sectors_per_fat b) \<le> unat (fat_count b) * unat (sectors_per_fat b)"
    using assms(3) by (intro mult_le_mono1) simp
  then show "copy_pos b c f < unat (reserved_sector_count b) + unat (fat_count b) * unat (sectors_per_fat b)"
    using assms(1) by (simp add: copy_pos_def fat_pos_def in_fat_def)
  then show "copy_pos b c f < 268435456" using assms(2) by (simp add: fats_fit_def)
qed

lemma set_fat_copy_run:
  fixes s :: "'a fat32_state_scheme"
  assumes inv: "fs_inv D bs s" and b: "bpb_ok (bpb s)" and c: "in_fat (bpb s) c" "fats_fit (bpb s)" "f < unat (fat_count (bpb s))"
    and lv: "(p, k) \<in> live HEAP bs" "512 \<le> k"
  shows "\<exists>t. set_fat_copy (of_nat p) c v f s = Ret () t \<and>
    fs_inv (put_entry v (copy_pos (bpb s) c f) (fat_offset (bpb s) c) D) bs t \<and> fs_to (live HEAP bs - {(p, k)}) s t"
proof -
  let ?b = "bpb s" and ?i = "copy_pos (bpb s) c f" and ?off = "fat_offset (bpb s) c"
  have small: "unat c < 0x10000000" using c(1) by (simp add: in_fat_def)
  have bps: "bytes_per_sector ?b \<noteq> 0" using b by (auto simp: bpb_ok_def)
  note pos = unat_fat_sector [OF b small] and off = unat_fat_offset(2) [OF b small] and bound = copy_pos_bound [OF c]
  define fs where "fs = of_nat f * sectors_per_fat ?b + fat_sector ?b c"
  have "f < 256" using c(3) u8_less_size [of "fat_count ?b"] by linarith
  then have fs: "unat fs = ?i" using bound(2) pos(1)
    by (simp add: fs_def unat_add_u32 unat_mult_u32 unat_of_nat_u32 copy_pos_def add.commute)
  define t where "t = read_sectors fs 1 (of_nat p) s"
  have n: "unat fs + unat (1 :: u32) \<le> 268435456" "0 < unat (1 :: u32)" "unat (1 :: u32) \<le> 256" "512 * unat (1 :: u32) \<le> k"
    using bound(2) lv(2) by (simp_all add: fs)
  from buffer_read [OF inv lv(1) n]
  have t: "fs_inv D bs t" "fs_to (live HEAP bs - {(p, k)}) s t" "load_bytes (mem t) (of_nat p) 512 = D ?i"
    by (simp_all add: t_def fs sectors_def)
  define new where "new = (load32 (mem t) (of_nat p + ?off) AND 0xF0000000) OR (v AND 0x0FFFFFFF)"
  define u where "u = t\<lparr>mem := store32 (of_nat p + ?off) new (mem t)\<rparr>"
  have o4: "unat ?off + 4 \<le> 512" using off by simp
  then have "unat ?off + length (le32 new) \<le> k" using lv(2) by simp
  from buffer_store [OF t(1) lv(1) this] have u: "fs_inv D bs u" "fs_to (live HEAP bs - {(p, k)}) t u"
    by (simp_all add: u_def store32_def)
  have "load32 (mem t) (of_nat p + ?off) = load32 (byte_window (D ?i)) ?off"
    using window_load32 [OF t(3) _ o4] by simp
  then have ld: "load_bytes (mem u) (of_nat p) 512 = put_entry v ?i ?off D ?i"
    using window_store [OF t(3), of ?off "le32 new"] by (simp add: u_def new_def put_entry_def store32_def)
  define w where "w = write_sectors fs 1 (of_nat p) u"
  have "put_sectors (unat fs) (unat (1 :: u32)) (of_nat p) (mem u) D = put_entry v ?i ?off D"
    by (rule ext) (auto simp: put_sectors_def fs ld, simp_all add: put_entry_def)
  with buffer_write [OF u(1) n(1-3), where a = "of_nat p"]
  have w: "fs_inv (put_entry v ?i ?off D) bs w" "fs_to (live HEAP bs - {(p, k)}) u w" by (simp_all add: w_def)
  have "set_fat_copy (of_nat p) c v f s = Ret () w"
    unfolding set_fat_copy_def Let_def fs_def [symmetric] t_def [symmetric] using bps fs_to_fat(1) [OF t(2)]
    by (simp add: w_def u_def new_def)
  then show ?thesis using w t(2) u(2) by (blast intro: fs_to_trans)
qed

lemma set_copies_run:
  fixes s :: "'a fat32_state_scheme"
  assumes "fs_inv D bs s" "bpb_ok (bpb s)" "in_fat (bpb s) c" "fats_fit (bpb s)" "n \<le> unat (fat_count (bpb s))"
    and lv: "(p, k) \<in> live HEAP bs" "512 \<le> k"
  shows "\<exists>t. for_each [0..<n] (set_fat_copy (of_nat p) c v) s = Ret () t \<and>
    fs_inv (put_copies (bpb s) c v n D) bs t \<and> fs_to (live HEAP bs - {(p, k)}) s t"
  using assms(5)
proof (induction n)
  case 0
  then show ?case using assms(1) by (simp add: put_copies_def)
next
  case (Suc n)
  then obtain t where t: "for_each [0..<n] (set_fat_copy (of_nat p) c v) s = Ret () t"
    "fs_inv (put_copies (bpb s) c v n D) bs t" "fs_to (live HEAP bs - {(p, k)}) s t" by auto
  have bt: "bpb t = bpb s" by (rule fs_to_fat(1) [OF t(3)])
  have "bpb_ok (bpb t)" "in_fat (bpb t) c" "fats_fit (bpb t)" "n < unat (fat_count (bpb t))" using assms(2-4) Suc.prems by (simp_all add: bt)
  from set_fat_copy_run [OF t(2) this lv, of v] obtain u where u: "set_fat_copy (of_nat p) c v n t = Ret () u"
    "fs_inv (put_copies (bpb s) c v (Suc n) D) bs u" "fs_to (live HEAP bs - {(p, k)}) t u"
    unfolding bt by (auto simp: put_copies_def)
  have "for_each [0..<Suc n] (set_fat_copy (of_nat p) c v) s = Ret () u"
    using t(1) u(1) by (simp add: for_each_append)
  then show ?case using u(2,3) t(3) by (blast intro: fs_to_trans)
qed

lemma set_next_cluster_run:
  fixes s :: "'a fat32_state_scheme"
  assumes "fs_inv D bs s" "bpb_ok (bpb s)" "in_fat (bpb s) c" "fats_fit (bpb s)" "can_take [512] bs"
  shows "\<exists>t. set_next_cluster c v s = Ret () t \<and>
    fs_inv (put_copies (bpb s) c v (unat (fat_count (bpb s))) D) bs t \<and> fs_to (live HEAP bs) s t"
proof -
  have bps: "bytes_per_sector (bpb s) = 512" using assms(2) by (simp add: bpb_ok_def)
  have n: "(512 :: u32) \<noteq> 0" "unat (512 :: u32) \<le> 0xFFFFFFF8" "can_take [unat (512 :: u32)] bs" using assms(5) by simp_all
  from buffer_scope [OF assms(1) n] obtain p k cs t where t: "kmalloc 512 s = Ret (of_nat p) t" "fs_inv D cs t" "fs_to (live HEAP bs) s t"
    "(p, k) \<in> live HEAP cs" "unat (512 :: u32) \<le> k" "live HEAP cs - {(p, k)} = live HEAP bs"
    and free: "\<And>(u :: 'a fat32_state_scheme) E. fs_inv E cs u \<Longrightarrow> \<exists>w. kfree (of_nat p) u = Ret () w \<and> fs_inv E bs w \<and> fs_to (live HEAP bs) u w"
    by metis
  have bt: "bpb t = bpb s" by (rule fs_to_fat(1) [OF t(3)])
  have "bpb_ok (bpb t)" "in_fat (bpb t) c" "fats_fit (bpb t)" "unat (fat_count (bpb s)) \<le> unat (fat_count (bpb t))" "512 \<le> k"
    using assms(2-4) t(5) by (simp_all add: bt)
  from set_copies_run [OF t(2) this(1-4) t(4) this(5), of v] obtain u where
    u: "for_each [0..<unat (fat_count (bpb t))] (set_fat_copy (of_nat p) c v) t = Ret () u"
    "fs_inv (put_copies (bpb s) c v (unat (fat_count (bpb s))) D) cs u" "fs_to (live HEAP bs) t u"
    unfolding bt t(6) by blast
  from free [OF u(2)] obtain w where w: "kfree (of_nat p) u = Ret () w"
    "fs_inv (put_copies (bpb s) c v (unat (fat_count (bpb s))) D) bs w" "fs_to (live HEAP bs) u w" by blast
  have "set_next_cluster c v s = Ret () w" using t(1) u(1) w(1) bps by (simp add: set_next_cluster_def)
  then show ?thesis using w(2,3) t(3) u(3) by (blast intro: fs_to_trans)
qed

section \<open>What it does to the volume\<close>

lemma put_entry_at: "put_entry v j off D i = (if i = j then put_entry v i off D i else D i)"
  by (simp add: put_entry_def)

lemma put_copies_at:
  assumes "in_fat b c"
  shows "put_copies b c v n D i = (if \<exists>f<n. copy_pos b c f = i then put_entry v i (fat_offset b c) D i else D i)"
proof (induction n)
  case 0
  then show ?case by (simp add: put_copies_def)
next
  case (Suc n)
  have inj: "copy_pos b c f = copy_pos b c g \<longleftrightarrow> f = g" for f g
    using assms by (auto simp: copy_pos_def in_fat_def)
  have "put_copies b c v (Suc n) D i = put_entry v (copy_pos b c n) (fat_offset b c) (put_copies b c v n D) i"
    by (simp add: put_copies_def)
  also have "\<dots> = (if \<exists>f<Suc n. copy_pos b c f = i then put_entry v i (fat_offset b c) D i else D i)"
  proof (cases "copy_pos b c n = i")
    case True
    then have "put_copies b c v n D i = D i" using Suc inj by auto
    with True show ?thesis by (auto simp: put_entry_def)
  next
    case False
    then have "put_entry v (copy_pos b c n) (fat_offset b c) (put_copies b c v n D) i = put_copies b c v n D i"
      by (simp add: put_entry_def)
    also have "\<dots> = (if \<exists>f<Suc n. copy_pos b c f = i then put_entry v i (fat_offset b c) D i else D i)"
      using Suc False by (auto simp: less_Suc_eq)
    finally show ?thesis .
  qed
  finally show ?case .
qed

lemma copies_entry:
  assumes b: "bpb_ok b" "fats_fit b" and c: "in_fat b c" "in_fat b c'" and D: "\<forall>i. length (D i) = 512"
  shows "fat_entry (put_copies b c v (unat (fat_count b)) D) b c' = (if c' = c then v AND 0x0FFFFFFF else fat_entry D b c')"
proof -
  have n: "0 < unat (fat_count b)" using b(2) by (simp add: fats_fit_def)
  have small: "unat c < 0x10000000" "unat c' < 0x10000000" using c by (simp_all add: in_fat_def)
  let ?off = "of_nat (unat c' mod 128 * 4) :: u32"
  have off': "unat ?off = 4 * (unat c' mod 128)" using unat_fat_offset [OF b(1) small(2)] by simp
  have off: "unat (fat_offset b c) = 4 * (unat c mod 128)" using unat_fat_offset [OF b(1) small(1)] by simp
  have first: "(\<exists>f<unat (fat_count b). copy_pos b c f = fat_pos b c') \<longleftrightarrow> fat_pos b c = fat_pos b c'"
  proof
    assume "\<exists>f<unat (fat_count b). copy_pos b c f = fat_pos b c'"
    then obtain f where f: "copy_pos b c f = fat_pos b c'" by blast
    have "f = 0"
    proof (rule ccontr)
      assume "f \<noteq> 0"
      then have "unat (sectors_per_fat b) \<le> f * unat (sectors_per_fat b)" by simp
      with f c(2) show False by (simp add: copy_pos_def fat_pos_def in_fat_def)
    qed
    then show "fat_pos b c = fat_pos b c'" using f by (simp add: copy_pos_def)
  next
    assume "fat_pos b c = fat_pos b c'"
    then show "\<exists>f<unat (fat_count b). copy_pos b c f = fat_pos b c'" using n by (intro exI [of _ 0]) (simp add: copy_pos_def)
  qed
  have entry: "fat_entry E b c' = load32 (byte_window (E (fat_pos b c'))) ?off AND 0x0FFFFFFF" for E
    by (simp add: fat_entry_def)
  show ?thesis
  proof (cases "fat_pos b c = fat_pos b c'")
    case True
    then have q: "unat c div 128 = unat c' div 128" by (simp add: fat_pos_def)
    have same: "c' = c \<longleftrightarrow> unat c mod 128 = unat c' mod 128"
      using q by (metis div_mult_mod_eq word_unat_eq_iff)
    have at: "put_copies b c v (unat (fat_count b)) D (fat_pos b c') = put_entry v (fat_pos b c') (fat_offset b c) D (fat_pos b c')"
      using put_copies_at [OF c(1)] first True by simp
    show ?thesis
    proof (cases "c' = c")
      case True
      then have "?off = fat_offset b c" using unat_fat_offset(1) [OF b(1) small(1)] by simp
      moreover have "unat (fat_offset b c) + 4 \<le> 512" using off by simp
      ultimately have "fat_entry (put_copies b c v (unat (fat_count b)) D) b c' = v AND 0x0FFFFFFF"
        unfolding entry at by (simp only: put_entry_same)
      then show ?thesis using True by simp
    next
      case False
      then have "unat c mod 128 \<noteq> unat c' mod 128" using same by simp
      then have "load32 (byte_window (put_entry v (fat_pos b c') (fat_offset b c) D (fat_pos b c'))) ?off = load32 (byte_window (D (fat_pos b c'))) ?off"
        using D by (intro put_entry_other [OF off off']) simp_all
      then show ?thesis using False at by (simp only: entry if_False)
    qed
  next
    case False
    then have "c' \<noteq> c" by auto
    then show ?thesis using put_copies_at [OF c(1), of v "unat (fat_count b)" D "fat_pos b c'"] first False
      by (simp add: entry)
  qed
qed

lemma copies_data:
  assumes "in_fat b c" "fats_fit b"
    and "unat (reserved_sector_count b) + unat (fat_count b) * unat (sectors_per_fat b) \<le> i"
  shows "put_copies b c v (unat (fat_count b)) D i = D i"
  using put_copies_at [OF assms(1), of v "unat (fat_count b)" D i] copy_pos_bound(1) [OF assms(1,2)] assms(3) by fastforce

lemma copies_cluster:
  assumes "in_fat b c" "fats_fit b"
  shows "cluster_bytes (put_copies b c v (unat (fat_count b)) D) b c' = cluster_bytes D b c'"
proof -
  have "map (put_copies b c v (unat (fat_count b)) D) [cluster_sector b c'..<cluster_sector b c' + unat (sectors_per_cluster b)] =
      map D [cluster_sector b c'..<cluster_sector b c' + unat (sectors_per_cluster b)]"
    by (rule map_cong [OF refl]) (auto simp: cluster_sector_def intro!: copies_data [OF assms])
  then show ?thesis unfolding cluster_bytes_def sectors_def by (rule arg_cong)
qed

section \<open>Freeing a chain\<close>

lemma chain_suffix: "is_chain D b c (xs @ y # ys) \<Longrightarrow> is_chain D b y (y # ys)"
  by (induction xs arbitrary: c) auto

lemma chain_distinct: "is_chain D b c cs \<Longrightarrow> distinct cs"
proof (induction cs arbitrary: c)
  case (Cons x xs)
  have "x \<notin> set xs"
  proof
    assume "x \<in> set xs"
    then obtain ys zs where xs: "xs = ys @ x # zs" by (meson split_list)
    have "is_chain D b c ((x # ys) @ x # zs)" using Cons.prems unfolding xs by auto
    then have "is_chain D b x (x # zs)" by (rule chain_suffix)
    moreover have "x = c" using Cons.prems by simp
    then have "is_chain D b x (x # xs)" using Cons.prems by simp
    ultimately have "zs = xs" using is_chain_unique by blast
    then show False using xs by (metis length_append length_Cons add_Suc_right less_add_Suc2 less_irrefl)
  qed
  then show ?case using Cons by auto
qed simp

lemma chain_cong:
  assumes "\<forall>x\<in>set cs. fat_entry E b x = fat_entry D b x"
  shows "is_chain E b c cs = is_chain D b c cs"
  using assms by (induction cs arbitrary: c) auto

text \<open>The volume after the entries of the clusters \<open>cs\<close> were set to \<open>v\<close>.\<close>

definition put_all :: "FAT32_BPB \<Rightarrow> u32 \<Rightarrow> u32 list \<Rightarrow> (nat \<Rightarrow> bytes) \<Rightarrow> nat \<Rightarrow> bytes" where
  "put_all b v cs D = fold (\<lambda>c. put_copies b c v (unat (fat_count b))) cs D"

lemma free_chain_run:
  fixes s :: "'a fat32_state_scheme"
  assumes "is_chain D b c cs" "\<forall>x\<in>set cs. in_fat b x" "fs_inv D bs s" "bpb s = b" "bpb_ok b" "fats_fit b" "can_take [512] bs"
  shows "\<exists>c' t. free_chain c s = Ret c' t \<and> fs_inv (put_all b 0 cs D) bs t \<and> fs_to (live HEAP bs) s t"
  using assms(1-4)
proof (induction cs arbitrary: c D s)
  case Nil
  then show ?case by (simp add: free_chain_def put_all_def)
next
  case (Cons x xs)
  let ?E = "put_copies b c 0 (unat (fat_count b)) D"
  have c: "x = c" "in_chain c" "is_chain D b (fat_entry D b c) xs" using Cons.prems(1) by simp_all
  have fat: "in_fat b c" "\<forall>x\<in>set xs. in_fat b x" using Cons.prems(2) c(1) by auto
  have ok: "bpb_ok (bpb s)" using assms(5) Cons.prems(4) by simp
  from get_next_cluster_run [OF Cons.prems(3) ok in_chain_small [OF c(2)] assms(7)] obtain t where
    t: "get_next_cluster c s = Ret (fat_entry D b c) t" "fs_inv D bs t" "fs_to (live HEAP bs) s t" unfolding Cons.prems(4) by blast
  have bt: "bpb t = b" using fs_to_fat(1) [OF t(3)] Cons.prems(4) by simp
  have "bpb_ok (bpb t)" "in_fat (bpb t) c" "fats_fit (bpb t)" using assms(5,6) fat(1) by (simp_all add: bt)
  from set_next_cluster_run [OF t(2) this assms(7), of 0] obtain u where u: "set_next_cluster c 0 t = Ret () u"
    "fs_inv ?E bs u" "fs_to (live HEAP bs) t u" unfolding bt by blast
  have bu: "bpb u = b" using fs_to_fat(1) [OF u(3)] bt by simp
  have D: "\<forall>i. length (D i) = 512" using Cons.prems(3) by (simp add: fs_inv_def ata_ready_def)
  have "c \<notin> set xs" using chain_distinct [OF Cons.prems(1)] c(1) by simp
  then have "\<forall>x\<in>set xs. fat_entry ?E b x = fat_entry D b x"
    using copies_entry [OF assms(5,6) fat(1) _ D] fat(2) by auto
  from chain_cong [OF this] c(3) have "is_chain ?E b (fat_entry D b c) xs" by simp
  from Cons.IH [OF this fat(2) u(2) bu] obtain c' w where w: "free_chain (fat_entry D b c) u = Ret c' w"
    "fs_inv (put_all b 0 xs ?E) bs w" "fs_to (live HEAP bs) u w" by blast
  have "free_chain c s = Ret c' w"
    using c(2) t(1) u(1) w(1) unfolding free_chain_def by (subst loop_step) simp_all
  moreover have "put_all b 0 (x # xs) D = put_all b 0 xs ?E" by (simp add: put_all_def c(1))
  ultimately show ?case using w(2) fs_to_trans [OF t(3) fs_to_trans [OF u(3) w(3)]] by simp
qed

lemma put_all_entry:
  assumes "bpb_ok b" "fats_fit b" "\<forall>x\<in>set cs. in_fat b x" "in_fat b c" "\<forall>i. length (D i) = 512"
  shows "fat_entry (put_all b v cs D) b c = (if c \<in> set cs then v AND 0x0FFFFFFF else fat_entry D b c)"
  using assms(3,5)
proof (induction cs arbitrary: D)
  case (Cons x xs)
  let ?E = "put_copies b x v (unat (fat_count b)) D"
  have x: "in_fat b x" using Cons.prems(1) by simp
  have "\<forall>i. length (?E i) = 512"
    using put_copies_at [OF x, of v "unat (fat_count b)" D] Cons.prems(2) by (simp add: length_put_entry)
  then have "fat_entry (put_all b v (x # xs) D) b c = (if c \<in> set xs then v AND 0x0FFFFFFF else fat_entry ?E b c)"
    using Cons by (simp add: put_all_def)
  then show ?case using copies_entry [OF assms(1,2) x assms(4) Cons.prems(2), of v] by (cases "c = x") simp_all
qed (simp add: put_all_def)

lemma put_all_cluster:
  assumes "fats_fit b" "\<forall>x\<in>set cs. in_fat b x"
  shows "cluster_bytes (put_all b v cs D) b c = cluster_bytes D b c"
  using assms(2)
  by (induction cs arbitrary: D) (simp_all add: put_all_def copies_cluster [OF _ assms(1)])

text \<open>All copies of the table have the same sectors.\<close>

definition mirrored :: "FAT32_BPB \<Rightarrow> (nat \<Rightarrow> bytes) \<Rightarrow> bool" where
  "mirrored b D \<longleftrightarrow> (\<forall>f<unat (fat_count b). \<forall>i<unat (sectors_per_fat b).
     D (unat (reserved_sector_count b) + f * unat (sectors_per_fat b) + i) = D (unat (reserved_sector_count b) + i))"

lemma copies_mirrored:
  assumes "in_fat b c" "fats_fit b" "mirrored b D"
  shows "mirrored b (put_copies b c v (unat (fat_count b)) D)"
  unfolding mirrored_def
proof (intro allI impI)
  let ?r = "unat (reserved_sector_count b)" and ?n = "unat (sectors_per_fat b)" and ?E = "put_copies b c v (unat (fat_count b)) D"
  have at: "?E (?r + f * ?n + i) = (if i = unat c div 128 then put_entry v (?r + f * ?n + i) (fat_offset b c) D (?r + f * ?n + i)
      else D (?r + f * ?n + i))" if fi: "f < unat (fat_count b)" "i < ?n" for f i
  proof -
    have "copy_pos b c g = ?r + f * ?n + i \<longleftrightarrow> g = f \<and> i = unat c div 128" for g
    proof
      assume "copy_pos b c g = ?r + f * ?n + i"
      then have e: "unat c div 128 + g * ?n = i + f * ?n" by (simp add: copy_pos_def fat_pos_def)
      have "(unat c div 128 + g * ?n) mod ?n = unat c div 128" "(i + f * ?n) mod ?n = i"
        using assms(1) fi(2) by (simp_all add: in_fat_def)
      then have "i = unat c div 128" using e by simp
      then show "g = f \<and> i = unat c div 128" using e fi(2) by simp
    qed (simp add: copy_pos_def fat_pos_def)
    then show ?thesis using put_copies_at [OF assms(1), of v "unat (fat_count b)" D "?r + f * ?n + i"] fi(1) by auto
  qed
  fix f i assume fi: "f < unat (fat_count b)" "i < ?n"
  have same: "D (?r + f * ?n + i) = D (?r + i)" using assms(3) fi by (simp add: mirrored_def)
  have "0 < unat (fat_count b)" using assms(2) by (simp add: fats_fit_def)
  with at [of 0 i] fi(2) have 0: "?E (?r + i) = (if i = unat c div 128 then put_entry v (?r + i) (fat_offset b c) D (?r + i) else D (?r + i))"
    by simp
  have "put_entry v (?r + f * ?n + i) (fat_offset b c) D (?r + f * ?n + i) = put_entry v (?r + i) (fat_offset b c) D (?r + i)"
    by (simp add: put_entry_def same)
  then show "?E (?r + f * ?n + i) = ?E (?r + i)" unfolding at [OF fi] 0 same by (rule arg_cong)
qed

section \<open>A small volume\<close>

text \<open>One sector of table, the root directory in cluster 2 with the file \<^verbatim>\<open>A.TXT\<close> of five bytes in cluster 3.\<close>

definition demo_bpb :: FAT32_BPB where
  "demo_bpb = \<lparr>jmp = [0xEB, 0x58, 0x90], oem_iden = str ''mkfs.fat'', bytes_per_sector = 512, sectors_per_cluster = 1,
     reserved_sector_count = 1, fat_count = 1, root_entries_count = 0, total_sectors = 4, media_descriptor = 0xF8,
     sectors_per_fat_16 = 0, sectors_per_track = 1, heads_count = 1, hidden_sectors_count = 0, large_sector_count = 0,
     sectors_per_fat = 1, bpb_flags = 0, fat_version = 0, root_cluster = 2, info_sector = 0, backup_boot_sector = 0,
     bpb_reserved = replicate 12 0, drive_number = 0x80, reserved1 = 0, signature = 0x29, volume_serial = 0,
     volume_label = replicate 11 0x20, fs_type = str ''FAT32   ''\<rparr>"

definition demo_fat :: bytes where
  "demo_fat = le32 0x0FFFFFF8 @ le32 0x0FFFFFFF @ le32 0x0FFFFFF8 @ le32 0x0FFFFFFF @ replicate 496 0"

definition demo_root :: bytes where
  "demo_root = dir_entry_bytes (new_dir_entry (str ''A       TXT'') 0x20 3 5) @ replicate 480 0"

definition demo_disk :: "nat \<Rightarrow> bytes" where
  "demo_disk i = (if i = 1 then demo_fat else if i = 2 then demo_root
     else if i = 3 then str ''hello'' @ replicate 507 0 else replicate 512 0)"

definition demo_volume :: fat32_state where
  "demo_volume = heap_state.extend (booted_heap\<lparr>dev := ata \<lparr>at_count = 0, at_low = 0, at_mid = 0, at_high = 0, at_drive = 0, at_in = [],
     at_left = 0, at_out = 0, at_buf = [], at_sectors = demo_disk\<rparr>\<rparr>) (fat32_state.fields demo_bpb True 2)"

lemma demo_volume_inv: "fs_inv demo_disk [(0xFFEF, False)] demo_volume" "bpb demo_volume = demo_bpb" "fat32_initialized demo_volume"
proof -
  have "\<forall>i. length (demo_disk i) = 512"
    by (simp add: demo_disk_def demo_fat_def demo_root_def dir_entry_bytes_def new_dir_entry_def str_def)
  moreover have "dev demo_volume = ata \<lparr>at_count = 0, at_low = 0, at_mid = 0, at_high = 0, at_drive = 0, at_in = [],
     at_left = 0, at_out = 0, at_buf = [], at_sectors = demo_disk\<rparr>"
    by (simp add: demo_volume_def heap_state.extend_def)
  ultimately have "ata_ready demo_disk demo_volume" unfolding ata_ready_def by fastforce
  moreover have "heap_inv demo_volume [(0xFFEF, False)]" using booted_heap(2)
    by (simp add: heap_inv_def demo_volume_def heap_state.extend_def)
  ultimately show "fs_inv demo_disk [(0xFFEF, False)] demo_volume" by (simp add: fs_inv_def)
  show "bpb demo_volume = demo_bpb" "fat32_initialized demo_volume"
    by (simp_all add: demo_volume_def heap_state.extend_def fat32_state.fields_def)
qed

lemma demo_chains: "is_chain demo_disk demo_bpb 2 [2]" "is_chain demo_disk demo_bpb 3 [3]"
proof -
  have e: "fat_entry demo_disk demo_bpb 2 = 0x0FFFFFF8" "fat_entry demo_disk demo_bpb 3 = 0x0FFFFFFF" by code_simp+
  have "on_disk demo_bpb 2" "on_disk demo_bpb 3" by (simp_all add: on_disk_def cluster_sector_def demo_bpb_def)
  then show "is_chain demo_disk demo_bpb 2 [2]" "is_chain demo_disk demo_bpb 3 [3]" by (simp_all add: e in_chain_def)
qed

lemma demo_ok: "bpb_ok demo_bpb" "fats_fit demo_bpb" "bytes_per_cluster demo_bpb = 512" "can_take [512, 512] [(0xFFEF, False)]"
proof -
  show "bpb_ok demo_bpb" "bytes_per_cluster demo_bpb = 512" by code_simp+
  show "fats_fit demo_bpb" by (simp add: fats_fit_def demo_bpb_def)
  show "can_take [512, 512] [(0xFFEF, False)]" by (simp add: round8_def split_sizes_def)
qed

lemma dir_find_first:
  assumes "entry_of bs 0 = e" "32 \<le> length bs" "de_name e ! 0 \<noteq> 0" "de_name e ! 0 \<noteq> 0xE5" "attributes e AND 0x0F \<noteq> 0x0F"
  shows "dir_find (de_name e) (cluster_entries bs @ es) = Some e"
proof -
  obtain k where "length bs div 32 = Suc k" using assms(2) by (metis div_greater_zero_iff gr0_conv_Suc zero_less_numeral)
  then have "cluster_entries bs = e # map (entry_of bs) [1..<Suc k]"
    using assms(1) by (simp add: cluster_entries_def upt_conv_Cons del: upt_Suc)
  then show ?thesis using assms(3-5) by (simp add: dir_find_def)
qed

definition demo_entry :: DIR_ENTRY where
  "demo_entry = new_dir_entry (str ''A       TXT'') 0x20 3 5"

lemma demo_first: "entry_of (cluster_bytes demo_disk demo_bpb 2) 0 = demo_entry" "length (cluster_bytes demo_disk demo_bpb 2) = 512"
  "cluster_bytes demo_disk demo_bpb 3 = str ''hello'' @ replicate 507 0"
  by code_simp+

lemma demo_name: "filename_to_fat32 (str ''a.txt'') = de_name demo_entry" "components (str ''/a.txt'') = [str ''a.txt'']"
  "de_name demo_entry ! 0 = 0x41" "attributes demo_entry AND 0x0F \<noteq> 0x0F" "entry_cluster demo_entry = 3" "de_size demo_entry = 5"
  by code_simp+

lemma demo_path: "volume_path demo_disk demo_bpb (str ''/a.txt'') (Some demo_entry)"
proof -
  have "dir_find (filename_to_fat32 (str ''a.txt'')) (dir_entries demo_disk demo_bpb [2]) = Some demo_entry"
    using dir_find_first [OF demo_first(1), of "[]"] demo_first(2) by (simp add: demo_name dir_entries_def)
  from fat_path.found [OF demo_chains(1) this]
  show ?thesis unfolding volume_path_def demo_name(2) by (simp add: demo_bpb_def)
qed

lemmas demo_room = demo_ok(4)

section \<open>The properties\<close>

text \<open>C18: \<^verbatim>\<open>find_file\<close> returns, and it finds the entry that the path leads to in the volume on the disk (or
  that there is none); it changes no buffer of the kernel and nothing on the disk.\<close>

theorem fat32_find_file_resolves:
  fixes s :: "'a fat32_state_scheme"
  assumes "fs_inv D bs s" "bpb_ok (bpb s)" "can_take [unat (bytes_per_cluster (bpb s)), 512] bs"
    and "fat32_initialized s" "length (skip_slash path) < 256" "volume_path D (bpb s) path r"
  shows "\<exists>q t. fat32_find_file path s = Ret q t \<and> map_option fst q = r \<and> fs_inv D bs t \<and> fs_to (live HEAP bs) s t"
  using assms by (rule find_file_run)

theorem fat32_find_file_resolves_witness:
  "\<exists>q t. fat32_find_file (str ''/a.txt'') demo_volume = Ret q t \<and> map_option fst q = Some demo_entry"
proof -
  have "length (skip_slash (str ''/a.txt'')) < 256" by code_simp
  with fat32_find_file_resolves [OF demo_volume_inv(1), of "str ''/a.txt''" "Some demo_entry"] demo_path demo_ok demo_room
  show ?thesis by (auto simp: demo_volume_inv(2,3))
qed

text \<open>C19: \<^verbatim>\<open>fat32_read_file\<close> returns the size in the entry of the path, and the buffer then has that many bytes
  of the clusters of the file, in the order of its chain; no other buffer changes.\<close>

theorem fat32_read_file_contents:
  fixes s :: "'a fat32_state_scheme"
  assumes "fs_inv D bs s" "bpb_ok (bpb s)" "can_take [unat (bytes_per_cluster (bpb s)), 512] bs"
    and "fat32_initialized s" "length (skip_slash path) < 256" "volume_path D (bpb s) path (Some e)"
    and "is_chain D (bpb s) (entry_cluster e) cs" "unat (de_size e) \<le> length (chain_bytes D (bpb s) cs)"
    and "(x, l) \<in> live HEAP bs" "unat (de_size e) \<le> l"
  shows "\<exists>t. fat32_read_file path (of_nat x) s = Ret (de_size e) t \<and>
    load_bytes (mem t) (of_nat x) (unat (de_size e)) = take (unat (de_size e)) (chain_bytes D (bpb s) cs) \<and>
    fs_inv D bs t \<and> fs_to (live HEAP bs - {(x, l)}) s t"
  using assms by (rule read_file_run)

theorem fat32_read_file_contents_witness:
  "\<exists>s t. kmalloc 8 demo_volume = Ret 0xD0000011 s \<and> fat32_read_file (str ''/a.txt'') 0xD0000011 s = Ret 5 t \<and>
    load_bytes (mem t) 0xD0000011 5 = str ''hello''"
proof -
  let ?bs = "[(8, True), (0xFFEF - 25, False)]"
  have h: "heap_inv demo_volume [(0xFFEF, False)]" "ata_ready demo_disk demo_volume" using demo_volume_inv(1) by (simp_all add: fs_inv_def)
  obtain s where s: "kmalloc 8 demo_volume = Ret 0xD0000011 s" "heap_inv s ?bs" "only_mem demo_volume s"
    using kmalloc_fit [OF h(1), of 8 "HEAP + 17" ?bs] by (auto simp: round8_def split_sizes_def)
  have inv: "fs_inv demo_disk ?bs s" using s(2) h(2) ata_ready_cong [OF only_mem_dev [OF s(3)]] by (simp add: fs_inv_def)
  have "fs_to {} demo_volume s" using s(3) by (simp add: fs_to_def io_only_mem payload_kept_def)
  note f = fs_to_fat [OF this, unfolded demo_volume_inv(2)]
  have n: "unat (bytes_per_cluster demo_bpb) = 512" by (simp add: demo_ok)
  have room: "can_take [unat (bytes_per_cluster (bpb s)), 512] ?bs" unfolding f(1) n by (simp add: round8_def split_sizes_def)
  have len: "length (skip_slash (str ''/a.txt'')) < 256" by code_simp
  have c: "chain_bytes demo_disk demo_bpb [3] = str ''hello'' @ replicate 507 0" by (simp add: chain_bytes_def demo_first)
  have hello: "length (str ''hello'') = 5" by code_simp
  have lv: "(HEAP + 17, 8) \<in> live HEAP ?bs" by simp
  have "bpb_ok (bpb s)" "fat32_initialized s" "volume_path demo_disk (bpb s) (str ''/a.txt'') (Some demo_entry)"
    "is_chain demo_disk (bpb s) (entry_cluster demo_entry) [3]" "unat (de_size demo_entry) \<le> length (chain_bytes demo_disk (bpb s) [3])"
    "unat (de_size demo_entry) \<le> 8"
    using demo_ok demo_path demo_chains demo_name demo_volume_inv(3) f by (simp_all add: c hello)
  from fat32_read_file_contents [OF inv this(1) room this(2) len this(3-5) lv this(6)] s(1) show ?thesis
    unfolding f(1) c by (auto simp: demo_name hello)
qed

text \<open>C20: \<^verbatim>\<open>set_next_cluster\<close> followed by \<^verbatim>\<open>get_next_cluster\<close>: the entry written is read back, every other entry of
  the table and the contents of all clusters are as before, and the copies of the table stay the same.\<close>

theorem fat32_set_get_next_cluster:
  fixes s :: "'a fat32_state_scheme"
  assumes "fs_inv D bs s" "bpb_ok (bpb s)" "fats_fit (bpb s)" "can_take [512] bs" "in_fat (bpb s) c" "in_fat (bpb s) c'"
  shows "\<exists>t E. bind (set_next_cluster c v s) (\<lambda>_. get_next_cluster c') =
      Ret (if c' = c then v AND 0x0FFFFFFF else fat_entry D (bpb s) c') t \<and> fs_inv E bs t \<and> fs_to (live HEAP bs) s t \<and>
    (\<forall>x. cluster_bytes E (bpb s) x = cluster_bytes D (bpb s) x) \<and> (mirrored (bpb s) D \<longrightarrow> mirrored (bpb s) E)"
proof -
  let ?E = "put_copies (bpb s) c v (unat (fat_count (bpb s))) D"
  from set_next_cluster_run [OF assms(1,2,5,3,4)] obtain t where t: "set_next_cluster c v s = Ret () t" "fs_inv ?E bs t"
    "fs_to (live HEAP bs) s t" by blast
  have bt: "bpb t = bpb s" by (rule fs_to_fat(1) [OF t(3)])
  have "bpb_ok (bpb t)" "unat c' < 0x10000000" using assms(2,6) by (simp_all add: bt in_fat_def)
  from get_next_cluster_run [OF t(2) this assms(4)] obtain u where u: "get_next_cluster c' t = Ret (fat_entry ?E (bpb s) c') u"
    "fs_inv ?E bs u" "fs_to (live HEAP bs) t u" unfolding bt by blast
  have "\<forall>i. length (D i) = 512" using assms(1) by (simp add: fs_inv_def ata_ready_def)
  from copies_entry [OF assms(2,3,5,6) this, of v] u(1) t(1)
  have "bind (set_next_cluster c v s) (\<lambda>_. get_next_cluster c') = Ret (if c' = c then v AND 0x0FFFFFFF else fat_entry D (bpb s) c') u"
    by simp
  then show ?thesis using u(2) fs_to_trans [OF t(3) u(3)] copies_cluster [OF assms(5,3)] copies_mirrored [OF assms(5,3)] by blast
qed

theorem fat32_set_get_next_cluster_witness:
  "\<exists>t. bind (set_next_cluster 4 3 demo_volume) (\<lambda>_. get_next_cluster 4) = Ret 3 t"
proof -
  have "in_fat (bpb demo_volume) 4" "can_take [512] [(0xFFEF, False)]"
    by (simp_all add: demo_volume_inv(2) in_fat_def demo_bpb_def round8_def split_sizes_def)
  with fat32_set_get_next_cluster [OF demo_volume_inv(1), of 4 4 3] demo_ok show ?thesis
    by (auto simp: demo_volume_inv(2))
qed

text \<open>C21: freeing a cluster chain ends, and afterwards exactly the entries of the chain are free.\<close>

theorem fat32_free_chain_ends:
  fixes s :: "'a fat32_state_scheme"
  assumes "fs_inv D bs s" "bpb_ok (bpb s)" "fats_fit (bpb s)" "can_take [512] bs"
    and "is_chain D (bpb s) c cs" "\<forall>x\<in>set cs. in_fat (bpb s) x"
  shows "\<exists>c' t E. free_chain c s = Ret c' t \<and> fs_inv E bs t \<and> fs_to (live HEAP bs) s t \<and>
    (\<forall>x. in_fat (bpb s) x \<longrightarrow> fat_entry E (bpb s) x = (if x \<in> set cs then 0 else fat_entry D (bpb s) x)) \<and>
    (\<forall>x. cluster_bytes E (bpb s) x = cluster_bytes D (bpb s) x)"
proof -
  have D: "\<forall>i. length (D i) = 512" using assms(1) by (simp add: fs_inv_def ata_ready_def)
  from free_chain_run [OF assms(5,6,1) refl assms(2-4)] obtain c' t where "free_chain c s = Ret c' t"
    "fs_inv (put_all (bpb s) 0 cs D) bs t" "fs_to (live HEAP bs) s t" by blast
  then show ?thesis using put_all_entry [OF assms(2,3,6) _ D, of _ 0] put_all_cluster [OF assms(3,6), of 0 D] by fastforce
qed

theorem fat32_free_chain_ends_witness: "\<exists>c' t. free_chain 3 demo_volume = Ret c' t"
proof -
  have "in_fat demo_bpb 3" "can_take [512] [(0xFFEF, False)]"
    by (simp_all add: in_fat_def demo_bpb_def round8_def split_sizes_def)
  with fat32_free_chain_ends [OF demo_volume_inv(1), of 3 "[3]"] demo_ok demo_chains show ?thesis
    by (auto simp: demo_volume_inv(2))
qed

end
