(* ===== verification/Ext3.thy ===== *)
theory Ext3
  imports Fat32
begin

unbundle bit_operations_syntax

text \<open>
  The ext3 driver \<^verbatim>\<open>DRIVER/ext3.c\<close> on top of the heap and the disk.

  As in theory \<open>Fat32\<close>, block buffers are heap buffers in byte memory, and so are the file and
  directory handles that \<^verbatim>\<open>ext3_open\<close> and \<^verbatim>\<open>ext3_opendir\<close> return. A path is the list of its bytes, never
  null. A local \<^verbatim>\<open>EXT3_INODE_T\<close> is an \<open>EXT3_INODE option\<close>: \<open>None\<close> until it has been written as a whole,
  and using it then is a \<open>Fault\<close>; \<^verbatim>\<open>read_inode\<close> copies \<open>inode_size\<close> bytes into a structure of 128, which
  is a \<open>Fault\<close> for larger inodes. A directory whose record lengths do not advance is a \<open>Hang\<close>.
\<close>

section \<open>Structures on the disk\<close>

record EXT3_SUPERBLOCK =
  sb_inodes_count :: u32
  sb_blocks_count :: u32
  sb_r_blocks_count :: u32
  sb_free_blocks_count :: u32
  sb_free_inodes_count :: u32
  sb_first_data_block :: u32
  sb_log_block_size :: u32
  sb_log_frag_size :: u32
  sb_blocks_per_group :: u32
  sb_frags_per_group :: u32
  sb_inodes_per_group :: u32
  sb_mtime :: u32
  sb_wtime :: u32
  sb_mnt_count :: u16
  sb_max_mnt_count :: u16
  sb_magic :: u16
  sb_state :: u16
  sb_errors :: u16
  sb_minor_rev_level :: u16
  sb_lastcheck :: u32
  sb_checkinterval :: u32
  sb_creator_os :: u32
  sb_rev_level :: u32
  sb_def_resuid :: u16
  sb_def_resgid :: u16
  sb_first_inode :: u32
  sb_inode_size :: u16
  sb_block_group_nr :: u16
  sb_feature_compat :: u32
  sb_feature_incompat :: u32
  sb_feature_ro_compat :: u32
  sb_uuid :: bytes
  sb_volume_name :: bytes
  sb_last_mounted :: bytes
  sb_algorithm_usage_bitmap :: u32
  sb_prealloc_blocks :: u8
  sb_prealloc_dir_blocks :: u8
  sb_reserved_gdt_blocks :: u16
  sb_journal_uuid :: bytes
  sb_journal_inum :: u32
  sb_journal_dev :: u32
  sb_last_orphan :: u32
  sb_hash_seed :: "u32 list"
  sb_def_hash_version :: u8
  sb_pad1 :: u8
  sb_desc_size :: u16
  sb_default_mount_opts :: u32
  sb_first_meta_bg :: u32
  sb_mkfs_time :: u32
  sb_jnl_blocks :: "u32 list"

definition load_words :: "memory \<Rightarrow> u32 \<Rightarrow> nat \<Rightarrow> u32 list" where
  "load_words m a n = map (\<lambda>i. load32 m (a + 4 * of_nat i)) [0..<n]"

definition superblock_at :: "memory \<Rightarrow> u32 \<Rightarrow> EXT3_SUPERBLOCK" where
  "superblock_at m a =
     \<lparr>sb_inodes_count = load32 m a, sb_blocks_count = load32 m (a + 4), sb_r_blocks_count = load32 m (a + 8),
      sb_free_blocks_count = load32 m (a + 12), sb_free_inodes_count = load32 m (a + 16),
      sb_first_data_block = load32 m (a + 20), sb_log_block_size = load32 m (a + 24), sb_log_frag_size = load32 m (a + 28),
      sb_blocks_per_group = load32 m (a + 32), sb_frags_per_group = load32 m (a + 36),
      sb_inodes_per_group = load32 m (a + 40), sb_mtime = load32 m (a + 44), sb_wtime = load32 m (a + 48),
      sb_mnt_count = load16 m (a + 52), sb_max_mnt_count = load16 m (a + 54), sb_magic = load16 m (a + 56),
      sb_state = load16 m (a + 58), sb_errors = load16 m (a + 60), sb_minor_rev_level = load16 m (a + 62),
      sb_lastcheck = load32 m (a + 64), sb_checkinterval = load32 m (a + 68), sb_creator_os = load32 m (a + 72),
      sb_rev_level = load32 m (a + 76), sb_def_resuid = load16 m (a + 80), sb_def_resgid = load16 m (a + 82),
      sb_first_inode = load32 m (a + 84), sb_inode_size = load16 m (a + 88), sb_block_group_nr = load16 m (a + 90),
      sb_feature_compat = load32 m (a + 92), sb_feature_incompat = load32 m (a + 96),
      sb_feature_ro_compat = load32 m (a + 100), sb_uuid = load_bytes m (a + 104) 16,
      sb_volume_name = load_bytes m (a + 120) 16, sb_last_mounted = load_bytes m (a + 136) 64,
      sb_algorithm_usage_bitmap = load32 m (a + 200), sb_prealloc_blocks = m (a + 204),
      sb_prealloc_dir_blocks = m (a + 205), sb_reserved_gdt_blocks = load16 m (a + 206),
      sb_journal_uuid = load_bytes m (a + 208) 16, sb_journal_inum = load32 m (a + 224),
      sb_journal_dev = load32 m (a + 228), sb_last_orphan = load32 m (a + 232), sb_hash_seed = load_words m (a + 236) 4,
      sb_def_hash_version = m (a + 252), sb_pad1 = m (a + 253), sb_desc_size = load16 m (a + 254),
      sb_default_mount_opts = load32 m (a + 256), sb_first_meta_bg = load32 m (a + 260),
      sb_mkfs_time = load32 m (a + 264), sb_jnl_blocks = load_words m (a + 268) 17\<rparr>"

record EXT3_INODE =
  i_mode :: u16
  i_uid :: u16
  i_size :: u32
  i_atime :: u32
  i_ctime :: u32
  i_mtime :: u32
  i_dtime :: u32
  i_gid :: u16
  i_links_count :: u16
  i_blocks :: u32
  i_ext_flags :: u32
  i_osd1 :: u32
  i_block :: "u32 list"
  i_generation :: u32
  i_file_acl :: u32
  i_dir_acl :: u32
  i_faddr :: u32
  i_osd2 :: bytes

definition inode_at :: "memory \<Rightarrow> u32 \<Rightarrow> EXT3_INODE" where
  "inode_at m a =
     \<lparr>i_mode = load16 m a, i_uid = load16 m (a + 2), i_size = load32 m (a + 4), i_atime = load32 m (a + 8),
      i_ctime = load32 m (a + 12), i_mtime = load32 m (a + 16), i_dtime = load32 m (a + 20), i_gid = load16 m (a + 24),
      i_links_count = load16 m (a + 26), i_blocks = load32 m (a + 28), i_ext_flags = load32 m (a + 32),
      i_osd1 = load32 m (a + 36), i_block = load_words m (a + 40) 15, i_generation = load32 m (a + 100),
      i_file_acl = load32 m (a + 104), i_dir_acl = load32 m (a + 108), i_faddr = load32 m (a + 112),
      i_osd2 = load_bytes m (a + 116) 12\<rparr>"

definition words_le :: "u32 list \<Rightarrow> bytes" where
  "words_le ws = concat (map le32 ws)"

definition inode_bytes :: "EXT3_INODE \<Rightarrow> bytes" where
  "inode_bytes i = le16 (i_mode i) @ le16 (i_uid i) @ le32 (i_size i) @ le32 (i_atime i) @ le32 (i_ctime i) @
     le32 (i_mtime i) @ le32 (i_dtime i) @ le16 (i_gid i) @ le16 (i_links_count i) @ le32 (i_blocks i) @
     le32 (i_ext_flags i) @ le32 (i_osd1 i) @ words_le (i_block i) @ le32 (i_generation i) @ le32 (i_file_acl i) @
     le32 (i_dir_acl i) @ le32 (i_faddr i) @ i_osd2 i"

text \<open>The structure of 128 bytes as a value, and one of zeros.\<close>

definition inode_of_bytes :: "bytes \<Rightarrow> EXT3_INODE" where
  "inode_of_bytes bs = inode_at (store_bytes 0 bs (\<lambda>_. 0)) 0"

definition zero_inode :: EXT3_INODE where
  "zero_inode = \<lparr>i_mode = 0, i_uid = 0, i_size = 0, i_atime = 0, i_ctime = 0, i_mtime = 0, i_dtime = 0, i_gid = 0,
     i_links_count = 0, i_blocks = 0, i_ext_flags = 0, i_osd1 = 0, i_block = replicate 15 0, i_generation = 0,
     i_file_acl = 0, i_dir_acl = 0, i_faddr = 0, i_osd2 = replicate 12 0\<rparr>"

record EXT3_GROUP_DESC =
  gd_block_bitmap :: u32
  gd_inode_bitmap :: u32
  gd_inode_table :: u32
  gd_free_blocks_count :: u16
  gd_free_inodes_count :: u16
  gd_used_dirs_count :: u16
  gd_pad :: u16
  gd_reserved :: bytes

definition group_desc_at :: "memory \<Rightarrow> u32 \<Rightarrow> EXT3_GROUP_DESC" where
  "group_desc_at m a =
     \<lparr>gd_block_bitmap = load32 m a, gd_inode_bitmap = load32 m (a + 4), gd_inode_table = load32 m (a + 8),
      gd_free_blocks_count = load16 m (a + 12), gd_free_inodes_count = load16 m (a + 14),
      gd_used_dirs_count = load16 m (a + 16), gd_pad = load16 m (a + 18), gd_reserved = load_bytes m (a + 20) 12\<rparr>"

record EXT3_DIR_ENTRY =
  ed_inode :: u32
  ed_rec_len :: u16
  ed_name_len :: u8
  ed_file_type :: u8
  ed_name :: bytes

definition ext3_entry_at :: "memory \<Rightarrow> u32 \<Rightarrow> EXT3_DIR_ENTRY" where
  "ext3_entry_at m a =
     \<lparr>ed_inode = load32 m a, ed_rec_len = load16 m (a + 4), ed_name_len = m (a + 6), ed_file_type = m (a + 7),
      ed_name = load_bytes m (a + 8) 255\<rparr>"

text \<open>The bytes of an entry as it is written: the name is not padded.\<close>

definition ext3_entry_bytes :: "u32 \<Rightarrow> u16 \<Rightarrow> u8 \<Rightarrow> bytes \<Rightarrow> bytes" where
  "ext3_entry_bytes inode rec_len type name = le32 inode @ le16 rec_len @ [of_nat (length name), type] @ name"

record ext3_state = fat32_state +
  sb :: EXT3_SUPERBLOCK
  ext3_initialized :: bool
  block_size :: u32
  inode_size :: u32
  inodes_per_group :: u32
  blocks_per_group :: u32
  group_count :: u32
  first_data_block :: u32
  last_allocated_block :: u32
  partition_offset :: u32
  name_buffer :: bytes

section \<open>Blocks and inodes\<close>

definition block_to_lba :: "u32 \<Rightarrow> 'a ext3_state_scheme \<Rightarrow> u32" where
  "block_to_lba block s =
     (if block_size s = 0 then 0 else (partition_offset s + block) * (block_size s div 512))"

abbreviation rd_block :: "u32 \<Rightarrow> u32 \<Rightarrow> 'a ext3_state_scheme \<Rightarrow> 'a ext3_state_scheme" where
  "rd_block block buf s \<equiv> read_sectors (block_to_lba block s) (block_size s div 512) buf s"

abbreviation wr_block :: "u32 \<Rightarrow> u32 \<Rightarrow> 'a ext3_state_scheme \<Rightarrow> 'a ext3_state_scheme" where
  "wr_block block buf s \<equiv> write_sectors (block_to_lba block s) (block_size s div 512) buf s"

definition inode_to_block :: "u32 \<Rightarrow> 'a ext3_state_scheme \<Rightarrow> (u32, 'a ext3_state_scheme) res" where
  "inode_to_block inode s =
     (if inodes_per_group s = 0 \<or> block_size s = 0 then Ret 0 s else
      let group = (inode - 1) div inodes_per_group s;
          index = (inode - 1) mod inodes_per_group s in
      bind (kmalloc (block_size s) s) (\<lambda>buf s.
      if buf = 0 then Ret 0 s else
      let s = rd_block 2 buf s;
          table = gd_inode_table (group_desc_at (mem s) (buf + group * 32));
          offset = index * inode_size s in
      bind (kfree buf s) (\<lambda>_ s. Ret (table + offset div block_size s) s)))"

definition inode_offset :: "u32 \<Rightarrow> 'a ext3_state_scheme \<Rightarrow> u32" where
  "inode_offset inode s =
     (if inodes_per_group s = 0 \<or> block_size s = 0 then 0
      else ((inode - 1) mod inodes_per_group s * inode_size s) mod block_size s)"

text \<open>What \<^verbatim>\<open>memcpy(out, p, inode_size)\<close> makes of a structure.\<close>

definition copy_inode :: "memory \<Rightarrow> u32 \<Rightarrow> nat \<Rightarrow> EXT3_INODE option \<Rightarrow> EXT3_INODE option" where
  "copy_inode m a n out =
     (if n = 128 then Some (inode_at m a)
      else map_option (\<lambda>i. inode_of_bytes (load_bytes m a n @ drop n (inode_bytes i))) out)"

definition read_inode ::
  "u32 \<Rightarrow> EXT3_INODE option \<Rightarrow> 'a ext3_state_scheme \<Rightarrow> (EXT3_INODE option, 'a ext3_state_scheme) res" where
  "read_inode inode out s =
     (if \<not> ext3_initialized s then Ret out s else
      bind (inode_to_block inode s) (\<lambda>block s.
      if block = 0 then Ret out s else
      let offset = inode_offset inode s in
      bind (kmalloc (block_size s) s) (\<lambda>buf s.
      if buf = 0 then Ret out s else
      let s = rd_block block buf s in
      if unat (inode_size s) > 128 then Fault else
      let out = copy_inode (mem s) (buf + offset) (unat (inode_size s)) out in
      bind (kfree buf s) (\<lambda>_ s. Ret out s))))"

definition write_inode :: "u32 \<Rightarrow> EXT3_INODE \<Rightarrow> 'a ext3_state_scheme \<Rightarrow> (unit, 'a ext3_state_scheme) res" where
  "write_inode inode in_inode s =
     (if \<not> ext3_initialized s then Ret () s else
      bind (inode_to_block inode s) (\<lambda>block s.
      if block = 0 then Ret () s else
      let offset = inode_offset inode s in
      bind (kmalloc (block_size s) s) (\<lambda>buf s.
      if buf = 0 then Ret () s else
      let s = rd_block block buf s in
      if unat (inode_size s) > 128 then Fault else
      let s = s\<lparr>mem := store_bytes (buf + offset) (take (unat (inode_size s)) (inode_bytes in_inode)) (mem s)\<rparr>;
          s = wr_block block buf s in
      kfree buf s)))"

definition read_block :: "u32 \<Rightarrow> u32 \<Rightarrow> 'a ext3_state_scheme \<Rightarrow> 'a ext3_state_scheme" where
  "read_block block buffer s = (if buffer = 0 \<or> \<not> ext3_initialized s then s else rd_block block buffer s)"

definition write_block :: "u32 \<Rightarrow> u32 \<Rightarrow> 'a ext3_state_scheme \<Rightarrow> 'a ext3_state_scheme" where
  "write_block block buffer s = (if buffer = 0 \<or> \<not> ext3_initialized s then s else wr_block block buffer s)"

section \<open>The bitmaps\<close>

text \<open>The first index with a clear bit, and a set bit.\<close>

definition bit_clear :: "memory \<Rightarrow> u32 \<Rightarrow> nat \<Rightarrow> bool" where
  "bit_clear m buf i \<longleftrightarrow> m (buf + of_nat (i div 8)) AND push_bit (i mod 8) 1 = 0"

definition set_map_bit :: "u32 \<Rightarrow> nat \<Rightarrow> 'a machine_scheme \<Rightarrow> 'a machine_scheme" where
  "set_map_bit buf i s = s\<lparr>mem := (mem s)(buf + of_nat (i div 8) := mem s (buf + of_nat (i div 8)) OR push_bit (i mod 8) 1)\<rparr>"

definition clear_map_bit :: "u32 \<Rightarrow> nat \<Rightarrow> 'a machine_scheme \<Rightarrow> 'a machine_scheme" where
  "clear_map_bit buf i s =
     s\<lparr>mem := (mem s)(buf + of_nat (i div 8) := mem s (buf + of_nat (i div 8)) AND NOT (push_bit (i mod 8) 1))\<rparr>"

definition group_desc_of :: "u32 \<Rightarrow> u32 \<Rightarrow> 'a ext3_state_scheme \<Rightarrow> EXT3_GROUP_DESC" where
  "group_desc_of buf g s = group_desc_at (mem s) (buf + (g mod (block_size s div 32)) * 32)"

text \<open>One group of \<^verbatim>\<open>find_free_inode\<close>: \<open>Some r\<close> is a return of \<open>r\<close>.\<close>

definition free_inode_in_group :: "nat \<Rightarrow> 'a ext3_state_scheme \<Rightarrow> (u32 option, 'a ext3_state_scheme) res" where
  "free_inode_in_group n s =
     (let g = of_nat n in
      bind (kmalloc (block_size s) s) (\<lambda>buf s.
      if buf = 0 then Ret (Some 0) s else
      let s = rd_block (2 + g * 2) buf s in
      if block_size s div 32 = 0 then Fault else
      let gd = group_desc_of buf g s in
      if gd_free_inodes_count gd = 0 then bind (kfree buf s) (\<lambda>_ s. Ret None s) else
      let bitmap = gd_inode_bitmap gd;
          s = rd_block bitmap buf s in
      case find (bit_clear (mem s) buf) [(if g = 0 then 2 else 0)..<unat (inodes_per_group s)] of
        None \<Rightarrow> bind (kfree buf s) (\<lambda>_ s. Ret None s)
      | Some i \<Rightarrow>
          let inode = g * inodes_per_group s + of_nat i + 1;
              s = set_map_bit buf i s;
              s = wr_block bitmap buf s in
          bind (kfree buf s) (\<lambda>_ s. Ret (Some inode) s)))"

definition find_free_inode :: "'a ext3_state_scheme \<Rightarrow> (u32, 'a ext3_state_scheme) res" where
  "find_free_inode s =
     (if \<not> ext3_initialized s then Ret 0 s else
      bind (for_ret [0..<unat (group_count s)] free_inode_in_group s) (\<lambda>r s.
      case r of Some inode \<Rightarrow> Ret inode s | None \<Rightarrow> Ret 0 s))"

definition free_block_in_group :: "nat \<Rightarrow> 'a ext3_state_scheme \<Rightarrow> (u32 option, 'a ext3_state_scheme) res" where
  "free_block_in_group n s =
     (let g = of_nat n in
      bind (kmalloc (block_size s) s) (\<lambda>buf s.
      if buf = 0 then Ret (Some 0) s else
      let s = rd_block (2 + g * 2) buf s in
      if block_size s div 32 = 0 then Fault else
      let gd = group_desc_of buf g s in
      if gd_free_blocks_count gd = 0 then bind (kfree buf s) (\<lambda>_ s. Ret None s) else
      let bitmap = gd_block_bitmap gd;
          s = rd_block bitmap buf s in
      case find (\<lambda>i. bit_clear (mem s) buf i \<and> \<not> g * blocks_per_group s + of_nat i < first_data_block s)
          [(if g = 0 then unat (first_data_block s) else 0)..<unat (blocks_per_group s)] of
        None \<Rightarrow> bind (kfree buf s) (\<lambda>_ s. Ret None s)
      | Some i \<Rightarrow>
          let block = g * blocks_per_group s + of_nat i;
              s = set_map_bit buf i s;
              s = wr_block bitmap buf s in
          bind (kfree buf s) (\<lambda>_ s. Ret (Some block) s)))"

definition find_free_block :: "'a ext3_state_scheme \<Rightarrow> (u32, 'a ext3_state_scheme) res" where
  "find_free_block s =
     (if \<not> ext3_initialized s then Ret 0 s else
      let s = (if last_allocated_block s = 0 then s\<lparr>last_allocated_block := first_data_block s\<rparr> else s) in
      bind (for_ret [0..<unat (group_count s)] free_block_in_group s) (\<lambda>r s.
      case r of Some block \<Rightarrow> Ret block s | None \<Rightarrow> Ret 0 s))"

definition free_block :: "u32 \<Rightarrow> 'a ext3_state_scheme \<Rightarrow> (unit, 'a ext3_state_scheme) res" where
  "free_block block s =
     (if \<not> ext3_initialized s then Ret () s else
      if blocks_per_group s = 0 then Fault else
      let group = block div blocks_per_group s;
          index = block mod blocks_per_group s in
      bind (kmalloc (block_size s) s) (\<lambda>buf s.
      if buf = 0 then Ret () s else
      let s = rd_block (2 + group * 2) buf s in
      if block_size s div 32 = 0 then Fault else
      let bitmap = gd_block_bitmap (group_desc_of buf group s);
          s = rd_block bitmap buf s;
          s = clear_map_bit buf (unat index) s;
          s = wr_block bitmap buf s in
      kfree buf s))"

section \<open>The blocks of a file\<close>

definition block_from_inode :: "EXT3_INODE \<Rightarrow> u32 \<Rightarrow> 'a ext3_state_scheme \<Rightarrow> (u32, 'a ext3_state_scheme) res" where
  "block_from_inode inode index s =
     (if \<not> ext3_initialized s then Ret 0 s else
      if index < 12 then Ret (i_block inode ! unat index) s else
      let entries = block_size s div 4 in
      if entries = 0 then Ret 0 s else
      let index = index - 12 in
      if index < entries then
        bind (kmalloc (block_size s) s) (\<lambda>buf s.
        if buf = 0 then Ret 0 s else
        let s = read_block (i_block inode ! 12) buf s;
            result = load32 (mem s) (buf + 4 * index) in
        bind (kfree buf s) (\<lambda>_ s. Ret result s))
      else
      let index = index - entries in
      if index < entries * entries then
        let ptr1 = index div entries;
            ptr2 = index mod entries in
        bind (kmalloc (block_size s) s) (\<lambda>buf s.
        if buf = 0 then Ret 0 s else
        let s = read_block (i_block inode ! 13) buf s;
            block = load32 (mem s) (buf + 4 * ptr1);
            s = read_block block buf s;
            result = load32 (mem s) (buf + 4 * ptr2) in
        bind (kfree buf s) (\<lambda>_ s. Ret result s))
      else Ret 0 s)"

definition add_block_to_inode :: "EXT3_INODE \<Rightarrow> u32 \<Rightarrow> 'a ext3_state_scheme \<Rightarrow> EXT3_INODE" where
  "add_block_to_inode inode block s =
     (case find (\<lambda>i. i_block inode ! i = 0) [0..<12] of
        None \<Rightarrow> inode
      | Some i \<Rightarrow> inode\<lparr>i_block := (i_block inode)[i := block], i_blocks := i_blocks inode + block_size s div 512\<rparr>)"

text \<open>The direct blocks of a directory, read one after the other into a buffer.\<close>

fun load_dir_blocks :: "u32 list \<Rightarrow> u32 \<Rightarrow> 'a ext3_state_scheme \<Rightarrow> 'a ext3_state_scheme" where
  "load_dir_blocks [] buf s = s"
| "load_dir_blocks (b # bs) buf s =
     (if b = 0 then s else load_dir_blocks bs (buf + block_size s) (read_block b buf s))"

definition load_directory :: "EXT3_INODE \<Rightarrow> u32 \<Rightarrow> 'a ext3_state_scheme \<Rightarrow> 'a ext3_state_scheme" where
  "load_directory inode buf s =
     load_dir_blocks (take 12 (i_block inode)) buf (memset buf 0 (i_size inode + block_size s) s)"

section \<open>Directories\<close>

text \<open>The name of the entry at \<open>e\<close>: the array the code copies it into, and the C string in it.\<close>

definition entry_name :: "memory \<Rightarrow> u32 \<Rightarrow> bytes" where
  "entry_name m e = load_bytes m (e + 8) (unat (m (e + 6)))"

definition entry_string :: "memory \<Rightarrow> u32 \<Rightarrow> bytes" where
  "entry_string m e = takeWhile (\<lambda>c. c \<noteq> 0) (entry_name m e)"

definition dot_entry :: "memory \<Rightarrow> u32 \<Rightarrow> bool" where
  "dot_entry m e \<longleftrightarrow> (let n = entry_name m e in
     n \<noteq> [] \<and> n ! 0 = 0x2E \<and> (length n = 1 \<or> length n = 2 \<and> n ! 1 = 0x2E))"

text \<open>The walk along the entries in a buffer to the first one that satisfies \<open>P\<close>: the offset where it
  stops and whether that entry does.\<close>

definition scan_directory ::
  "(memory \<Rightarrow> u32 \<Rightarrow> bool) \<Rightarrow> u32 \<Rightarrow> u32 \<Rightarrow> 'a ext3_state_scheme \<Rightarrow> (u32 \<times> bool, 'a ext3_state_scheme) res" where
  "scan_directory P buf sz s =
     bind (loop (\<lambda>(offset, r) s. r = None \<and> offset < sz)
       (\<lambda>(offset, r) s.
          let e = buf + offset in
          if load32 (mem s) e = 0 then Ret (offset, Some False) s
          else if P (mem s) e then Ret (offset, Some True) s
          else Ret (offset + ucast (ed_rec_len (ext3_entry_at (mem s) e)), None) s)
       (0, None) s) (\<lambda>(offset, r) s. Ret (offset, r = Some True) s)"

definition find_dir_entry ::
  "u32 \<Rightarrow> bytes \<Rightarrow> 'a ext3_state_scheme \<Rightarrow> (EXT3_DIR_ENTRY option, 'a ext3_state_scheme) res" where
  "find_dir_entry inode name s =
     (if \<not> ext3_initialized s then Ret None s else
      bind (read_inode inode None s) (\<lambda>in_inode s.
      case in_inode of None \<Rightarrow> Fault
      | Some in_inode \<Rightarrow>
          bind (kmalloc (i_size in_inode + block_size s) s) (\<lambda>buf s.
          if buf = 0 then Ret None s else
          let s = load_directory in_inode buf s in
          bind (scan_directory (\<lambda>m e. entry_string m e = name) buf (i_size in_inode) s) (\<lambda>(offset, found) s.
          let out = (if found then Some (ext3_entry_at (mem s) (buf + offset)) else None) in
          bind (kfree buf s) (\<lambda>_ s. Ret out s)))))"

text \<open>The superblock is at sectors 2 and 3; \<^verbatim>\<open>1024 << n\<close> shifts by the low five bits of \<open>n\<close>, as the
  processor does.\<close>

definition init_ext3 :: "'a ext3_state_scheme \<Rightarrow> (unit, 'a ext3_state_scheme) res" where
  "init_ext3 s =
     (if ext3_initialized s then Ret () s else
      let s = s\<lparr>partition_offset := 0\<rparr> in
      bind (kmalloc 1024 s) (\<lambda>buf s.
      let s = read_sectors 2 2 buf s;
          s = s\<lparr>sb := superblock_at (mem s) buf\<rparr> in
      if sb_magic (sb s) \<noteq> 0xEF53 then kfree buf s else
      let s = s\<lparr>block_size := push_bit (unat (sb_log_block_size (sb s) AND 31)) 1024\<rparr>;
          s = s\<lparr>inode_size := ucast (sb_inode_size (sb s))\<rparr>;
          s = s\<lparr>inodes_per_group := sb_inodes_per_group (sb s)\<rparr>;
          s = s\<lparr>blocks_per_group := sb_blocks_per_group (sb s)\<rparr> in
      if blocks_per_group s = 0 then Fault else
      let s = s\<lparr>group_count := sb_blocks_count (sb s) div blocks_per_group s\<rparr>;
          s = s\<lparr>first_data_block := sb_first_data_block (sb s)\<rparr> in
      if inodes_per_group s = 0 \<or> block_size s = 0 then kfree buf s else
      let s = s\<lparr>ext3_initialized := True\<rparr> in
      kfree buf s))"

text \<open>The result of a successful lookup is the inode, as far as it was read, and its number.\<close>

function ext3_walk ::
  "u32 \<Rightarrow> bytes \<Rightarrow> EXT3_INODE option \<Rightarrow> 'a ext3_state_scheme \<Rightarrow> ((EXT3_INODE option \<times> u32) option, 'a ext3_state_scheme) res" where
  "ext3_walk current_inode token_start out s =
     (if token_start = [] then Ret None s else
      let slash = str_index token_start 0x2F;
          token = (case slash of Some i \<Rightarrow> take i token_start | None \<Rightarrow> token_start);
          rest = (case slash of Some i \<Rightarrow> drop (Suc i) token_start | None \<Rightarrow> []) in
      if token = [] then (if slash = None then Ret None s else ext3_walk current_inode rest out s)
      else bind (find_dir_entry current_inode token s) (\<lambda>r s.
        case r of None \<Rightarrow> Ret None s
        | Some ent \<Rightarrow>
            if slash = None \<or> rest = [] then
              bind (read_inode (ed_inode ent) out s) (\<lambda>i s. Ret (Some (i, ed_inode ent)) s)
            else
              bind (read_inode (ed_inode ent) None s) (\<lambda>dir s.
              case dir of None \<Rightarrow> Fault
              | Some dir \<Rightarrow>
                  if i_mode dir AND 0x4000 = 0 then Ret None s
                  else ext3_walk (ed_inode ent) rest out s)))"
  by pat_completeness auto
termination
  by (relation "measure (\<lambda>(c, t, out, s). length t)") (auto split: option.splits)

declare ext3_walk.simps [simp del]

definition ext3_find_file ::
  "bytes \<Rightarrow> EXT3_INODE option \<Rightarrow> 'a ext3_state_scheme \<Rightarrow> ((EXT3_INODE option \<times> u32) option, 'a ext3_state_scheme) res" where
  "ext3_find_file path out s =
     bind (if ext3_initialized s then Ret () s else init_ext3 s) (\<lambda>_ s.
     if \<not> ext3_initialized s then Ret None s else
     if length (skip_slash path) \<ge> 256 then Fault else
     let path_copy = strip_slashes (skip_slash path) in
     if path_copy = [] then bind (read_inode 2 out s) (\<lambda>i s. Ret (Some (i, 2)) s)
     else ext3_walk 2 path_copy out s)"

definition resolve_parent :: "bytes \<Rightarrow> 'a ext3_state_scheme \<Rightarrow> (u32 \<times> bytes, 'a ext3_state_scheme) res" where
  "resolve_parent path s =
     (if \<not> ext3_initialized s then Ret (0, []) s else
      if length (skip_slash path) \<ge> 256 then Fault else
      let path_copy = skip_slash path;
          path_copy = (if path_copy \<noteq> [] \<and> last path_copy = 0x2F then butlast path_copy else path_copy) in
      case str_rindex path_copy 0x2F of
        None \<Rightarrow> Ret (2, path_copy) s
      | Some last_slash \<Rightarrow>
          let filename = drop (Suc last_slash) path_copy in
          bind (ext3_find_file (take last_slash path_copy) None s) (\<lambda>r s.
          case r of None \<Rightarrow> Ret (0, filename) s
          | Some (None, _) \<Rightarrow> Fault
          | Some (Some dir_inode, dir_inode_num) \<Rightarrow>
              if i_mode dir_inode AND 0x4000 = 0 then Ret (0, filename) s else Ret (dir_inode_num, filename) s))"

definition ext3_create_dir_entry ::
  "u32 \<Rightarrow> bytes \<Rightarrow> u32 \<Rightarrow> u8 \<Rightarrow> 'a ext3_state_scheme \<Rightarrow> (bool, 'a ext3_state_scheme) res" where
  "ext3_create_dir_entry parent_inode name inode_num type s =
     (if \<not> ext3_initialized s then Ret False s else
      bind (read_inode parent_inode None s) (\<lambda>parent s.
      case parent of None \<Rightarrow> Fault
      | Some parent \<Rightarrow>
          let sz = i_size parent;
              blocks_needed = (sz + block_size s) div block_size s in
          bind (kmalloc ((blocks_needed + 1) * block_size s) s) (\<lambda>buf s.
          if buf = 0 then Ret False s else
          let s = memset buf 0 ((blocks_needed + 1) * block_size s) s;
              s = load_dir_blocks (take 12 (i_block parent)) buf s in
          bind (scan_directory (\<lambda>_ _. False) buf sz s) (\<lambda>(offset, _) s.
          let name_len = of_nat (length name) :: u32;
              rec_len = (263 - 255 + name_len + 7) AND NOT 7;
              s = s\<lparr>mem := store_bytes (buf + offset) (ext3_entry_bytes inode_num (ucast rec_len) type name) (mem s)\<rparr>;
              parent = parent\<lparr>i_size := i_size parent + rec_len\<rparr>;
              block_index = sz div block_size s in
          if block_index < 12 \<and> i_block parent ! unat block_index = 0 then
            bind (find_free_block s) (\<lambda>new_block s.
            if new_block = 0 then bind (kfree buf s) (\<lambda>_ s. Ret False s) else
            let parent = parent\<lparr>i_block := (i_block parent)[unat block_index := new_block],
                                i_blocks := i_blocks parent + block_size s div 512\<rparr> in
            bind (write_inode parent_inode parent s) (\<lambda>_ s.
            let s = write_block new_block (buf + block_index * block_size s) s in
            bind (write_inode parent_inode parent s) (\<lambda>_ s.
            bind (kfree buf s) (\<lambda>_ s. Ret True s))))
          else if unat block_index \<ge> 15 then Fault
          else
            let s = write_block (i_block parent ! unat block_index) (buf + block_index * block_size s) s in
            bind (write_inode parent_inode parent s) (\<lambda>_ s.
            bind (kfree buf s) (\<lambda>_ s. Ret True s))))))"

text \<open>Freeing blocks up to the first unused one.\<close>

fun free_blocks :: "u32 list \<Rightarrow> 'a ext3_state_scheme \<Rightarrow> (unit, 'a ext3_state_scheme) res" where
  "free_blocks [] s = Ret () s"
| "free_blocks (b # bs) s = (if b = 0 then Ret () s else bind (free_block b s) (\<lambda>_ s. free_blocks bs s))"

text \<open>Whether a directory has an entry other than \<^verbatim>\<open>.\<close> and \<^verbatim>\<open>..\<close>; \<open>None\<close> when there is no memory.\<close>

definition ext3_has_entries :: "EXT3_INODE \<Rightarrow> 'a ext3_state_scheme \<Rightarrow> (bool option, 'a ext3_state_scheme) res" where
  "ext3_has_entries inode s =
     bind (kmalloc (i_size inode + block_size s) s) (\<lambda>buf s.
     if buf = 0 then Ret None s else
     let s = load_directory inode buf s in
     bind (scan_directory (\<lambda>m e. \<not> dot_entry m e) buf (i_size inode) s) (\<lambda>(_, has_entries) s.
     bind (kfree buf s) (\<lambda>_ s. Ret (Some has_entries) s)))"

definition ext3_erase_entry :: "EXT3_INODE \<Rightarrow> bytes \<Rightarrow> 'a ext3_state_scheme \<Rightarrow> (bool, 'a ext3_state_scheme) res" where
  "ext3_erase_entry parent target_name s =
     bind (kmalloc (i_size parent + block_size s) s) (\<lambda>buf s.
     if buf = 0 then Ret False s else
     let s = load_directory parent buf s in
     bind (scan_directory (\<lambda>m e. entry_string m e = target_name) buf (i_size parent) s) (\<lambda>(offset, found) s.
     if found then
       let s = s\<lparr>mem := store32 (buf + offset) 0 (mem s)\<rparr>;
           i = offset div block_size s in
       if unat i \<ge> 15 then Fault else
       let s = write_block (i_block parent ! unat i) (buf + i * block_size s) s in
       bind (kfree buf s) (\<lambda>_ s. Ret True s)
     else bind (kfree buf s) (\<lambda>_ s. Ret True s)))"

definition ext3_delete :: "bytes \<Rightarrow> 'a ext3_state_scheme \<Rightarrow> (bool, 'a ext3_state_scheme) res" where
  "ext3_delete path s =
     (if \<not> ext3_initialized s then Ret False s else
      bind (ext3_find_file path None s) (\<lambda>r s.
      case r of None \<Rightarrow> Ret False s
      | Some (None, _) \<Rightarrow> Fault
      | Some (Some inode, _) \<Rightarrow>
          bind (if i_mode inode AND 0x4000 \<noteq> 0 then
                  bind (ext3_has_entries inode s) (\<lambda>h s.
                  if h = Some False then bind (free_blocks (take 12 (i_block inode)) s) (\<lambda>_ s. Ret True s)
                  else Ret False s)
                else Ret True s) (\<lambda>go s.
          if \<not> go then Ret False s else
          bind (if i_mode inode AND 0xA000 \<noteq> 0 \<and> i_size inode \<ge> 60 then free_block (i_block inode ! 0) s
                else Ret () s) (\<lambda>_ s.
          bind (free_blocks (take 12 (i_block inode)) s) (\<lambda>_ s.
          bind (resolve_parent path s) (\<lambda>(parent_inode, target_name) s.
          bind (read_inode parent_inode None s) (\<lambda>parent s.
          case parent of None \<Rightarrow> Fault
          | Some parent \<Rightarrow> ext3_erase_entry parent target_name s)))))))"

section \<open>Files\<close>

definition symlink_bytes :: "EXT3_INODE \<Rightarrow> bytes" where
  "symlink_bytes inode = take (unat (i_size inode)) (words_le (i_block inode))"

text \<open>One block of the copying loop; the locals are \<^verbatim>\<open>total_read\<close>, \<^verbatim>\<open>block_index\<close> and whether the loop
  was left by a \<^verbatim>\<open>break\<close>.\<close>

definition ext3_read_step ::
  "EXT3_INODE \<Rightarrow> u32 \<Rightarrow> u32 \<times> u32 \<times> bool \<Rightarrow> 'a ext3_state_scheme \<Rightarrow> (u32 \<times> u32 \<times> bool, 'a ext3_state_scheme) res" where
  "ext3_read_step inode buffer l s =
     (case l of (total_read, block_index, _) \<Rightarrow>
        bind (block_from_inode inode block_index s) (\<lambda>block s.
        if block = 0 then Ret (total_read, block_index, True) s else
        let remaining = i_size inode - total_read;
            chunk = (if remaining < block_size s then remaining else block_size s) in
        bind (kmalloc (block_size s) s) (\<lambda>buf s.
        if buf = 0 then Ret (total_read, block_index, True) s else
        let s = read_block block buf s;
            s = memcpy (buffer + total_read) buf chunk s in
        bind (kfree buf s) (\<lambda>_ s. Ret (total_read + chunk, block_index + 1, False) s))))"

definition ext3_read_blocks :: "EXT3_INODE \<Rightarrow> u32 \<Rightarrow> 'a ext3_state_scheme \<Rightarrow> (u32, 'a ext3_state_scheme) res" where
  "ext3_read_blocks inode buffer s =
     bind (loop (\<lambda>(total_read, _, stop) s. \<not> stop \<and> total_read < i_size inode) (ext3_read_step inode buffer) (0, 0, False) s)
       (\<lambda>(total_read, _, _) s. Ret total_read s)"

definition ext3_read_file :: "bytes \<Rightarrow> u32 \<Rightarrow> 'a ext3_state_scheme \<Rightarrow> (u32, 'a ext3_state_scheme) res" where
  "ext3_read_file path buffer s =
     (if \<not> ext3_initialized s \<or> buffer = 0 then Ret 0 s else
      bind (ext3_find_file path None s) (\<lambda>r s.
      case r of None \<Rightarrow> Ret 0 s
      | Some (None, _) \<Rightarrow> Fault
      | Some (Some inode, _) \<Rightarrow>
          if i_mode inode AND 0xA000 \<noteq> 0 then
            if i_size inode < 60 then
              Ret (i_size inode) (s\<lparr>mem := store_bytes buffer (symlink_bytes inode) (mem s)\<rparr>)
            else
              bind (kmalloc (block_size s) s) (\<lambda>buf s.
              if buf = 0 then Ret 0 s else
              let s = read_block (i_block inode ! 0) buf s;
                  s = memcpy buffer buf (i_size inode) s in
              bind (kfree buf s) (\<lambda>_ s. Ret (i_size inode) s))
          else ext3_read_blocks inode buffer s))"

definition new_file_inode :: "u16 \<Rightarrow> u32 \<Rightarrow> u16 \<Rightarrow> EXT3_INODE" where
  "new_file_inode mode sz links = zero_inode\<lparr>i_mode := mode, i_size := sz, i_links_count := links\<rparr>"

text \<open>The writing loop builds the inode: its locals are the inode, \<^verbatim>\<open>total_written\<close> and the \<^verbatim>\<open>break\<close>.\<close>

definition ext3_write_step ::
  "u32 \<Rightarrow> u32 \<Rightarrow> EXT3_INODE \<times> u32 \<times> bool \<Rightarrow> 'a ext3_state_scheme \<Rightarrow> (EXT3_INODE \<times> u32 \<times> bool, 'a ext3_state_scheme) res" where
  "ext3_write_step buffer sz l s =
     (case l of (inode, total_written, _) \<Rightarrow>
        bind (find_free_block s) (\<lambda>block s.
        if block = 0 then Ret (inode, total_written, True) s else
        let remaining = sz - total_written;
            chunk = (if remaining < block_size s then remaining else block_size s) in
        bind (kmalloc (block_size s) s) (\<lambda>buf s.
        if buf = 0 then Ret (inode, total_written, True) s else
        let s = memset buf 0 (block_size s) s;
            s = memcpy buf (buffer + total_written) chunk s;
            s = write_block block buf s in
        bind (kfree buf s) (\<lambda>_ s. Ret (add_block_to_inode inode block s, total_written + chunk, False) s))))"

definition ext3_write_file :: "bytes \<Rightarrow> u32 \<Rightarrow> u32 \<Rightarrow> 'a ext3_state_scheme \<Rightarrow> (u32, 'a ext3_state_scheme) res" where
  "ext3_write_file path buffer sz s =
     (if \<not> ext3_initialized s then Ret 0 s else
      bind (resolve_parent path s) (\<lambda>(parent, filename) s.
      if parent = 0 then Ret 0 s else
      bind (ext3_delete path s) (\<lambda>_ s.
      bind (find_free_inode s) (\<lambda>inode_num s.
      if inode_num = 0 then Ret 0 s else
      bind (loop (\<lambda>(_, total_written, stop) s. \<not> stop \<and> total_written < sz) (ext3_write_step buffer sz)
        (new_file_inode 0x81A4 sz 1, 0, False) s) (\<lambda>(inode, total_written, _) s.
      bind (write_inode inode_num inode s) (\<lambda>_ s.
      bind (ext3_create_dir_entry parent filename inode_num 1 s) (\<lambda>_ s.
      Ret total_written s)))))))"

text \<open>A short target is kept in the array of block numbers.\<close>

definition words_of_bytes :: "bytes \<Rightarrow> nat \<Rightarrow> u32 list" where
  "words_of_bytes bs n = load_words (store_bytes 0 bs (\<lambda>_. 0)) 0 n"

definition ext3_create_symlink :: "bytes \<Rightarrow> bytes \<Rightarrow> 'a ext3_state_scheme \<Rightarrow> (bool, 'a ext3_state_scheme) res" where
  "ext3_create_symlink target path s =
     (if \<not> ext3_initialized s then Ret False s else
      bind (resolve_parent path s) (\<lambda>(parent, filename) s.
      if parent = 0 then Ret False s else
      bind (ext3_delete path s) (\<lambda>_ s.
      bind (find_free_inode s) (\<lambda>inode_num s.
      if inode_num = 0 then Ret False s else
      let inode = new_file_inode 0xA1FF (of_nat (length target)) 1 in
      bind (if i_size inode < 60 then Ret (Some (inode\<lparr>i_block := words_of_bytes target 15\<rparr>)) s
            else
              bind (find_free_block s) (\<lambda>block s.
              if block = 0 then Ret None s else
              bind (kmalloc (block_size s) s) (\<lambda>buf s.
              if buf = 0 then Ret None s else
              let s = memset buf 0 (block_size s) s;
                  s = s\<lparr>mem := store_bytes buf target (mem s)\<rparr>;
                  s = write_block block buf s in
              bind (kfree buf s) (\<lambda>_ s.
              Ret (Some (inode\<lparr>i_block := (i_block inode)[0 := block], i_blocks := block_size s div 512\<rparr>)) s))))
        (\<lambda>r s. case r of None \<Rightarrow> Ret False s
        | Some inode \<Rightarrow>
            bind (write_inode inode_num inode s) (\<lambda>_ s.
            bind (ext3_create_dir_entry parent filename inode_num 7 s) (\<lambda>_ s.
            Ret True s)))))))"

text \<open>The result is a pointer to a heap buffer with the target as a C string, or null.\<close>

definition ext3_read_symlink :: "bytes \<Rightarrow> 'a ext3_state_scheme \<Rightarrow> (u32, 'a ext3_state_scheme) res" where
  "ext3_read_symlink path s =
     (if \<not> ext3_initialized s then Ret 0 s else
      bind (ext3_find_file path None s) (\<lambda>r s.
      case r of None \<Rightarrow> Ret 0 s
      | Some (None, _) \<Rightarrow> Fault
      | Some (Some inode, _) \<Rightarrow>
          if i_mode inode AND 0xA000 = 0 then Ret 0 s else
          bind (kmalloc (i_size inode + 1) s) (\<lambda>result s.
          if result = 0 then Ret 0 s else
          bind (if i_size inode < 60 then
                  Ret True (s\<lparr>mem := store_bytes result (symlink_bytes inode) (mem s)\<rparr>)
                else
                  bind (kmalloc (block_size s) s) (\<lambda>buf s.
                  if buf = 0 then bind (kfree result s) (\<lambda>_ s. Ret False s) else
                  let s = read_block (i_block inode ! 0) buf s;
                      s = memcpy result buf (i_size inode) s in
                  bind (kfree buf s) (\<lambda>_ s. Ret True s))) (\<lambda>ok s.
          if \<not> ok then Ret 0 s
          else Ret result (s\<lparr>mem := (mem s)(result + i_size inode := 0)\<rparr>)))))"

definition ext3_is_symlink :: "bytes \<Rightarrow> 'a ext3_state_scheme \<Rightarrow> (bool, 'a ext3_state_scheme) res" where
  "ext3_is_symlink path s =
     (if \<not> ext3_initialized s then Ret False s else
      bind (ext3_find_file path None s) (\<lambda>r s.
      case r of None \<Rightarrow> Ret False s
      | Some (None, _) \<Rightarrow> Fault
      | Some (Some inode, _) \<Rightarrow> Ret (i_mode inode AND 0xA000 \<noteq> 0) s))"

definition ext3_file_size :: "bytes \<Rightarrow> 'a ext3_state_scheme \<Rightarrow> (u32, 'a ext3_state_scheme) res" where
  "ext3_file_size path s =
     (if \<not> ext3_initialized s then Ret 0 s else
      bind (ext3_find_file path None s) (\<lambda>r s.
      case r of None \<Rightarrow> Ret 0 s
      | Some (None, _) \<Rightarrow> Fault
      | Some (Some inode, _) \<Rightarrow> Ret (i_size inode) s))"

definition ext3_file_exists :: "bytes \<Rightarrow> 'a ext3_state_scheme \<Rightarrow> (bool, 'a ext3_state_scheme) res" where
  "ext3_file_exists path s =
     (if \<not> ext3_initialized s then Ret False s else
      bind (ext3_find_file path None s) (\<lambda>r s. Ret (r \<noteq> None) s))"

definition ext3_create_directory :: "bytes \<Rightarrow> 'a ext3_state_scheme \<Rightarrow> (bool, 'a ext3_state_scheme) res" where
  "ext3_create_directory path s =
     (if \<not> ext3_initialized s then Ret False s else
      bind (ext3_find_file path None s) (\<lambda>r s.
      if r \<noteq> None then Ret False s else
      bind (resolve_parent path s) (\<lambda>(parent, dirname) s.
      if parent = 0 then Ret False s else
      bind (find_free_inode s) (\<lambda>inode_num s.
      if inode_num = 0 then Ret False s else
      bind (find_free_block s) (\<lambda>block s.
      if block = 0 then Ret False s else
      let inode = (new_file_inode 0x41ED (block_size s) 2)\<lparr>i_blocks := block_size s div 512\<rparr>;
          inode = inode\<lparr>i_block := (i_block inode)[0 := block]\<rparr> in
      bind (kmalloc (block_size s) s) (\<lambda>buf s.
      if buf = 0 then Ret False s else
      let s = memset buf 0 (block_size s) s;
          s = s\<lparr>mem := store_bytes buf (ext3_entry_bytes inode_num 12 2 [0x2E]) (mem s)\<rparr>;
          s = s\<lparr>mem := store_bytes (buf + 12) (ext3_entry_bytes parent (ucast (block_size s - 12)) 2 [0x2E, 0x2E]) (mem s)\<rparr>;
          s = write_block block buf s in
      bind (kfree buf s) (\<lambda>_ s.
      bind (write_inode inode_num inode s) (\<lambda>_ s.
      bind (ext3_create_dir_entry parent dirname inode_num 2 s) (\<lambda>_ s.
      Ret True s)))))))))"

text \<open>The listing prints one entry after the other.\<close>

definition ext3_print_entry :: "EXT3_INODE \<Rightarrow> bytes \<Rightarrow> 'a vga_state_scheme \<Rightarrow> 'a vga_state_scheme" where
  "ext3_print_entry file_inode name s =
     (let dir = i_mode file_inode AND 0x4000 \<noteq> 0;
          symlink = i_mode file_inode AND 0xA000 \<noteq> 0;
          s = print (str (if dir then ''[DIR]  '' else if symlink then ''[LINK] '' else ''[FILE] '')) s;
          s = print (name @ [0]) s;
          s = (if \<not> dir \<and> \<not> symlink then
                 let s = print (str ''  ('') s; s = printi (i_size file_inode) s in print (str '' bytes)'') s
               else s)
      in print [10] s)"

definition ext3_list_step :: "u32 \<Rightarrow> u32 \<times> bool \<Rightarrow> 'a ext3_state_scheme \<Rightarrow> (u32 \<times> bool, 'a ext3_state_scheme) res" where
  "ext3_list_step buf l s =
     (case l of (offset, _) \<Rightarrow>
        let e = buf + offset;
            ent = ext3_entry_at (mem s) e in
        if ed_inode ent = 0 then Ret (offset, True) s
        else if dot_entry (mem s) e then Ret (offset + ucast (ed_rec_len ent), False) s
        else
          let name = entry_name (mem s) e in
          bind (read_inode (ed_inode ent) None s) (\<lambda>i s.
          case i of None \<Rightarrow> Fault
          | Some file_inode \<Rightarrow>
              let s = ext3_print_entry file_inode name s in
              Ret (offset + ucast (ed_rec_len (ext3_entry_at (mem s) e)), False) s))"

definition ext3_list_directory :: "bytes \<Rightarrow> 'a ext3_state_scheme \<Rightarrow> (bool, 'a ext3_state_scheme) res" where
  "ext3_list_directory path s =
     (if \<not> ext3_initialized s then Ret False s else
      bind (ext3_find_file path None s) (\<lambda>r s.
      case r of None \<Rightarrow> Ret False (print (str ''Directory not found\<newline>'') s)
      | Some (None, _) \<Rightarrow> Fault
      | Some (Some inode, _) \<Rightarrow>
          if i_mode inode AND 0x4000 = 0 then Ret False (print (str ''Not a directory\<newline>'') s) else
          bind (kmalloc (i_size inode + block_size s) s) (\<lambda>buf s.
          if buf = 0 then Ret False s else
          let s = load_directory inode buf s;
              s = print (str ''Contents:\<newline>'') s in
          bind (loop (\<lambda>(offset, stop) s. \<not> stop \<and> offset < i_size inode) (ext3_list_step buf) (0, False) s) (\<lambda>_ s.
          bind (kfree buf s) (\<lambda>_ s. Ret True s)))))"

section \<open>File handles\<close>

text \<open>An \<^verbatim>\<open>EXT3_FILE_T\<close> is 148 bytes of the heap; these are the offsets of its fields.\<close>

definition file_get :: "u32 \<Rightarrow> u32 \<Rightarrow> 'a machine_scheme \<Rightarrow> u32" where
  "file_get field file s = load32 (mem s) (file + field)"

definition file_put :: "u32 \<Rightarrow> u32 \<Rightarrow> u32 \<Rightarrow> 'a machine_scheme \<Rightarrow> 'a machine_scheme" where
  "file_put field file v s = s\<lparr>mem := store32 (file + field) v (mem s)\<rparr>"

definition FILE_inode_num :: u32 where "FILE_inode_num = 0"
definition FILE_position :: u32 where "FILE_position = 4"
definition FILE_size :: u32 where "FILE_size = 8"
definition FILE_flags :: u32 where "FILE_flags = 12"
definition FILE_inode :: u32 where "FILE_inode = 16"
definition FILE_path :: u32 where "FILE_path = 144"

lemmas FILE_fields = FILE_inode_num_def FILE_position_def FILE_size_def FILE_flags_def FILE_inode_def FILE_path_def

text \<open>The C string at an address; a missing end makes the routine that reads it run for ever.\<close>

definition string_at :: "memory \<Rightarrow> u32 \<Rightarrow> bytes option" where
  "string_at m a = map_option (\<lambda>n. load_bytes m a (unat n)) (strlen m a)"

definition put_inode :: "u32 \<Rightarrow> EXT3_INODE \<Rightarrow> 'a machine_scheme \<Rightarrow> 'a machine_scheme" where
  "put_inode a i s = s\<lparr>mem := store_bytes a (inode_bytes i) (mem s)\<rparr>"

definition new_file_handle :: "bytes \<Rightarrow> u32 \<Rightarrow> EXT3_INODE \<Rightarrow> u32 \<Rightarrow> 'a ext3_state_scheme \<Rightarrow> (u32, 'a ext3_state_scheme) res" where
  "new_file_handle path flags inode inode_num s =
     bind (kmalloc 148 s) (\<lambda>file s.
     if file = 0 then Ret 0 s else
     let s = file_put FILE_inode_num file inode_num s;
         s = file_put FILE_position file 0 s;
         s = file_put FILE_size file (i_size inode) s;
         s = file_put FILE_flags file flags s;
         s = put_inode (file + FILE_inode) inode s in
     bind (kmalloc (of_nat (length path) + 1) s) (\<lambda>path_copy s.
     if path_copy = 0 then bind (kfree file s) (\<lambda>_ s. Ret 0 s) else
     let s = s\<lparr>mem := store_bytes path_copy (path @ [0]) (mem s)\<rparr>;
         s = file_put FILE_path file path_copy s in
     Ret file s))"

text \<open>Opening follows symbolic links by recursion, which a cycle of links makes endless: \<open>fuel\<close> bounds
  the number of links followed.\<close>

fun ext3_open :: "nat \<Rightarrow> bytes \<Rightarrow> u32 \<Rightarrow> 'a ext3_state_scheme \<Rightarrow> (u32, 'a ext3_state_scheme) res" where
  "ext3_open fuel path flags s =
     (if \<not> ext3_initialized s then Ret 0 s else
      bind (bind (ext3_find_file path None s) (\<lambda>r s.
        case r of Some f \<Rightarrow> Ret (Some f) s
        | None \<Rightarrow>
            if flags AND 0x02 \<noteq> 0 then
              bind (ext3_write_file path 0 0 s) (\<lambda>w s. if w = 0 then Ret None s else ext3_find_file path None s)
            else Ret None s)) (\<lambda>r s.
      case r of None \<Rightarrow> Ret 0 s
      | Some (None, _) \<Rightarrow> Fault
      | Some (Some inode, inode_num) \<Rightarrow>
          if i_mode inode AND 0xA000 \<noteq> 0 then
            bind (ext3_read_symlink path s) (\<lambda>target s.
            if target = 0 then Ret 0 s else
            case string_at (mem s) target of None \<Rightarrow> Hang
            | Some target_path \<Rightarrow>
                case fuel of 0 \<Rightarrow> Hang
                | Suc fuel \<Rightarrow>
                    bind (ext3_open fuel target_path flags s) (\<lambda>result s.
                    bind (kfree target s) (\<lambda>_ s. Ret result s)))
          else new_file_handle path flags inode inode_num s))"

declare ext3_open.simps [simp del]

definition ext3_chunk_step ::
  "u32 \<Rightarrow> u32 \<Rightarrow> u32 \<Rightarrow> u32 \<times> u32 \<times> u32 \<times> bool \<Rightarrow> 'a ext3_state_scheme \<Rightarrow> (u32 \<times> u32 \<times> u32 \<times> bool, 'a ext3_state_scheme) res" where
  "ext3_chunk_step file buffer to_read l s =
     (case l of (total_read, offset_in_block, block_index, _) \<Rightarrow>
        bind (block_from_inode (inode_at (mem s) (file + FILE_inode)) block_index s) (\<lambda>block s.
        if block = 0 then Ret (total_read, offset_in_block, block_index, True) s else
        let chunk = block_size s - offset_in_block;
            chunk = (if chunk > to_read - total_read then to_read - total_read else chunk) in
        bind (kmalloc (block_size s) s) (\<lambda>buf s.
        if buf = 0 then Ret (total_read, offset_in_block, block_index, True) s else
        let s = read_block block buf s;
            s = memcpy (buffer + total_read) (buf + offset_in_block) chunk s in
        bind (kfree buf s) (\<lambda>_ s. Ret (total_read + chunk, 0, block_index + 1, False) s))))"

definition ext3_read :: "u32 \<Rightarrow> u32 \<Rightarrow> u32 \<Rightarrow> 'a ext3_state_scheme \<Rightarrow> (u32, 'a ext3_state_scheme) res" where
  "ext3_read file buffer sz s =
     (if file = 0 \<or> buffer = 0 \<or> \<not> ext3_initialized s then Ret 0 s else
      if file_get FILE_position file s \<ge> file_get FILE_size file s then Ret 0 s else
      let remaining = file_get FILE_size file s - file_get FILE_position file s;
          to_read = (if sz < remaining then sz else remaining);
          block_index = file_get FILE_position file s div block_size s;
          offset_in_block = file_get FILE_position file s mod block_size s in
      bind (loop (\<lambda>(total_read, _, _, stop) s. \<not> stop \<and> total_read < to_read) (ext3_chunk_step file buffer to_read)
        (0, offset_in_block, block_index, False) s) (\<lambda>(total_read, _) s.
      Ret total_read (file_put FILE_position file (file_get FILE_position file s + total_read) s)))"

definition ext3_write :: "u32 \<Rightarrow> u32 \<Rightarrow> u32 \<Rightarrow> 'a ext3_state_scheme \<Rightarrow> (u32, 'a ext3_state_scheme) res" where
  "ext3_write file buffer sz s =
     (if file = 0 \<or> buffer = 0 \<or> \<not> ext3_initialized s then Ret 0 s else
      if file_get FILE_flags file s AND 0x01 = 0 then Ret 0 s else
      case string_at (mem s) (file_get FILE_path file s) of None \<Rightarrow> Hang
      | Some path \<Rightarrow>
          bind (ext3_write_file path buffer sz s) (\<lambda>written s.
          if written = 0 then Ret 0 s else
          let s = file_put FILE_size file written s;
              s = file_put FILE_position file written s in
          case string_at (mem s) (file_get FILE_path file s) of None \<Rightarrow> Hang
          | Some path \<Rightarrow>
              bind (ext3_find_file path (Some (inode_at (mem s) (file + FILE_inode))) s) (\<lambda>r s.
              case r of None \<Rightarrow> Ret written s
              | Some (None, _) \<Rightarrow> Fault
              | Some (Some inode, inode_num) \<Rightarrow>
                  let s = put_inode (file + FILE_inode) inode s in
                  Ret written (file_put FILE_inode_num file inode_num s))))"

definition ext3_close :: "u32 \<Rightarrow> 'a ext3_state_scheme \<Rightarrow> (unit, 'a ext3_state_scheme) res" where
  "ext3_close file s =
     (if file = 0 then Ret () s else
      bind (if file_get FILE_path file s \<noteq> 0 then kfree (file_get FILE_path file s) s else Ret () s) (\<lambda>_ s.
      kfree file s))"

definition ext3_seek :: "u32 \<Rightarrow> u32 \<Rightarrow> u8 \<Rightarrow> 'a machine_scheme \<Rightarrow> u32 \<times> 'a machine_scheme" where
  "ext3_seek file offset whence s =
     (if file = 0 then (0, s) else
      let s = (if whence = 0 then file_put FILE_position file offset s
               else if whence = 1 then file_put FILE_position file (file_get FILE_position file s + offset) s
               else if whence = 2 then file_put FILE_position file (file_get FILE_size file s - offset) s
               else s);
          s = (if file_get FILE_position file s > file_get FILE_size file s
               then file_put FILE_position file (file_get FILE_size file s) s else s)
      in (file_get FILE_position file s, s))"

definition ext3_tell :: "u32 \<Rightarrow> 'a machine_scheme \<Rightarrow> u32" where
  "ext3_tell file s = (if file = 0 then 0 else file_get FILE_position file s)"

definition ext3_eof :: "u32 \<Rightarrow> 'a machine_scheme \<Rightarrow> bool" where
  "ext3_eof file s \<longleftrightarrow> file = 0 \<or> file_get FILE_position file s \<ge> file_get FILE_size file s"

text \<open>An \<^verbatim>\<open>EXT3_DIR_T\<close> has the first fields at the same offsets, a buffer and the offset of the next entry.\<close>

definition DIR_buffer :: u32 where "DIR_buffer = 12"
definition DIR_current_offset :: u32 where "DIR_current_offset = 144"

definition ext3_opendir :: "bytes \<Rightarrow> 'a ext3_state_scheme \<Rightarrow> (u32, 'a ext3_state_scheme) res" where
  "ext3_opendir path s =
     (if \<not> ext3_initialized s then Ret 0 s else
      bind (ext3_find_file path None s) (\<lambda>r s.
      case r of None \<Rightarrow> Ret 0 s
      | Some (None, _) \<Rightarrow> Fault
      | Some (Some inode, inode_num) \<Rightarrow>
          if i_mode inode AND 0x4000 = 0 then Ret 0 s else
          bind (kmalloc 148 s) (\<lambda>dir s.
          if dir = 0 then Ret 0 s else
          let s = file_put FILE_inode_num dir inode_num s;
              s = file_put FILE_position dir 0 s;
              s = file_put FILE_size dir (i_size inode) s;
              s = put_inode (dir + FILE_inode) inode s;
              s = file_put DIR_current_offset dir 0 s in
          bind (kmalloc (i_size inode + block_size s) s) (\<lambda>buf s.
          let s = file_put DIR_buffer dir buf s in
          if buf = 0 then bind (kfree dir s) (\<lambda>_ s. Ret 0 s)
          else Ret dir (load_directory inode buf s)))))"

text \<open>The name is returned in a static buffer.\<close>

definition readdir_step :: "u32 \<Rightarrow> bytes option option \<Rightarrow> 'a ext3_state_scheme \<Rightarrow> (bytes option option, 'a ext3_state_scheme) res" where
  "readdir_step dir r s =
     (let e = file_get DIR_buffer dir s + file_get DIR_current_offset dir s;
          ent = ext3_entry_at (mem s) e in
      if ed_inode ent = 0 then Ret (Some None) (file_put DIR_current_offset dir (file_get FILE_size dir s) s)
      else
        let name = entry_name (mem s) e;
            dots = dot_entry (mem s) e;
            s = s\<lparr>name_buffer := name @ [0] @ drop (Suc (length name)) (name_buffer s)\<rparr>;
            s = file_put DIR_current_offset dir (file_get DIR_current_offset dir s + ucast (ed_rec_len ent)) s in
        if dots then Ret None s else Ret (Some (Some (takeWhile (\<lambda>c. c \<noteq> 0) name))) s)"

definition ext3_readdir :: "u32 \<Rightarrow> 'a ext3_state_scheme \<Rightarrow> (bytes option, 'a ext3_state_scheme) res" where
  "ext3_readdir dir s =
     (if dir = 0 \<or> \<not> ext3_initialized s then Ret None s else
      if file_get DIR_current_offset dir s \<ge> file_get FILE_size dir s then Ret None s else
      bind (loop (\<lambda>r s. r = None \<and> file_get DIR_current_offset dir s < file_get FILE_size dir s) (readdir_step dir) None s)
        (\<lambda>r s. Ret (case r of Some n \<Rightarrow> n | None \<Rightarrow> None) s))"

definition ext3_closedir :: "u32 \<Rightarrow> 'a ext3_state_scheme \<Rightarrow> (unit, 'a ext3_state_scheme) res" where
  "ext3_closedir dir s =
     (if dir = 0 then Ret () s else
      bind (if file_get DIR_buffer dir s \<noteq> 0 then kfree (file_get DIR_buffer dir s) s else Ret () s) (\<lambda>_ s.
      kfree dir s))"

end
