(* ===== verification/Ext3_Blocks.thy ===== *)
theory Ext3_Blocks
  imports Ext3 Fat32_Alloc
begin

unbundle bit_operations_syntax

text \<open>
  The blocks of an ext3 file: \<^verbatim>\<open>block_from_inode\<close> finds, through no, one or two indirect blocks, the block
  that the volume on the disk assigns to an index, and the copying loop of \<^verbatim>\<open>ext3_read_file\<close> fills the
  buffer with the bytes of these blocks. The specification reads the sectors \<open>D\<close> directly.
\<close>

section \<open>The volume\<close>

definition block_sector :: "'a ext3_state_scheme \<Rightarrow> u32 \<Rightarrow> nat" where
  "block_sector s b = (unat (partition_offset s) + unat b) * (unat (block_size s) div 512)"

definition block_bytes :: "(nat \<Rightarrow> bytes) \<Rightarrow> 'a ext3_state_scheme \<Rightarrow> u32 \<Rightarrow> bytes" where
  "block_bytes D s b = sectors D (block_sector s b) (unat (block_size s) div 512)"

definition block_on_disk :: "'a ext3_state_scheme \<Rightarrow> u32 \<Rightarrow> bool" where
  "block_on_disk s b \<longleftrightarrow> block_sector s b + unat (block_size s) div 512 \<le> 268435456"

text \<open>The volume is mounted, with one of the block sizes of ext3.\<close>

definition ext3_mounted :: "'a ext3_state_scheme \<Rightarrow> bool" where
  "ext3_mounted s \<longleftrightarrow> ext3_initialized s \<and> block_size s \<in> {1024, 2048, 4096}"

text \<open>The entries of an indirect block, and the block at an index of a file.\<close>

definition block_entry :: "(nat \<Rightarrow> bytes) \<Rightarrow> 'a ext3_state_scheme \<Rightarrow> u32 \<Rightarrow> nat \<Rightarrow> u32" where
  "block_entry D s b i = load32 (byte_window (block_bytes D s b)) (of_nat (4 * i))"

definition file_block :: "(nat \<Rightarrow> bytes) \<Rightarrow> 'a ext3_state_scheme \<Rightarrow> EXT3_INODE \<Rightarrow> nat \<Rightarrow> u32" where
  "file_block D s ino n =
     (let E = unat (block_size s) div 4 in
      if n < 12 then i_block ino ! n
      else if n < 12 + E then block_entry D s (i_block ino ! 12) (n - 12)
      else if n < 12 + E + E * E then
        block_entry D s (block_entry D s (i_block ino ! 13) ((n - 12 - E) div E)) ((n - 12 - E) mod E)
      else 0)"

text \<open>The indirect blocks on the way to an index are on the disk.\<close>

definition path_on_disk :: "(nat \<Rightarrow> bytes) \<Rightarrow> 'a ext3_state_scheme \<Rightarrow> EXT3_INODE \<Rightarrow> nat \<Rightarrow> bool" where
  "path_on_disk D s ino n \<longleftrightarrow>
     (let E = unat (block_size s) div 4 in
      (12 \<le> n \<and> n < 12 + E \<longrightarrow> block_on_disk s (i_block ino ! 12)) \<and>
      (12 + E \<le> n \<and> n < 12 + E + E * E \<longrightarrow>
         block_on_disk s (i_block ino ! 13) \<and> block_on_disk s (block_entry D s (i_block ino ! 13) ((n - 12 - E) div E))))"

lemma ext3_kept:
  assumes "fs_to L s t"
  shows "block_size t = block_size s" "ext3_initialized t = ext3_initialized s" "partition_offset t = partition_offset s"
  using assms by (auto simp: fs_to_def io_only_def)

lemma volume_kept:
  assumes "fs_to L s t"
  shows "block_bytes D t = block_bytes D s" "block_on_disk t = block_on_disk s" "ext3_mounted t = ext3_mounted s"
    "file_block D t = file_block D s" "path_on_disk D t = path_on_disk D s" "block_entry D t = block_entry D s"
proof -
  note k = ext3_kept [OF assms]
  have b: "block_sector t = block_sector s" by (rule ext) (simp add: block_sector_def k)
  show bb: "block_bytes D t = block_bytes D s" "block_on_disk t = block_on_disk s" "ext3_mounted t = ext3_mounted s"
    by (auto simp: block_bytes_def block_on_disk_def ext3_mounted_def b k fun_eq_iff)
  show e: "block_entry D t = block_entry D s" by (simp add: block_entry_def bb fun_eq_iff)
  show "file_block D t = file_block D s" "path_on_disk D t = path_on_disk D s"
    unfolding file_block_def [abs_def] path_on_disk_def [abs_def] bb e k by (rule refl)+
qed

lemma mounted_size:
  assumes "ext3_mounted s"
  shows "block_size s \<noteq> 0" "unat (block_size s) \<le> 0xFFFFFFF8" "unat (block_size s) \<le> 4096"
    "unat (block_size s div 512) = unat (block_size s) div 512" "0 < unat (block_size s) div 512"
    "512 * (unat (block_size s) div 512) = unat (block_size s)" "unat (block_size s div 4) = unat (block_size s) div 4"
    "4 * (unat (block_size s) div 4) = unat (block_size s)" "256 \<le> unat (block_size s) div 4"
  using assms by (auto simp: ext3_mounted_def unat_div)

lemma unat_block_to_lba:
  assumes "ext3_mounted s" "block_on_disk s b"
  shows "unat (block_to_lba b s) = block_sector s b"
proof -
  let ?n = "unat (block_size s) div 512"
  note z = mounted_size [OF assms(1)]
  have lt: "(unat (partition_offset s) + unat b) * ?n \<le> 268435456" using assms(2) by (simp add: block_on_disk_def block_sector_def)
  have "unat (partition_offset s) + unat b \<le> (unat (partition_offset s) + unat b) * ?n" using z(5) by simp
  with lt have sum: "unat (partition_offset s + b) = unat (partition_offset s) + unat b" by (intro unat_add_nowrap) linarith
  have "unat ((partition_offset s + b) * (block_size s div 512)) = (unat (partition_offset s) + unat b) * ?n"
    using lt by (simp add: unat_mult_u32 sum z(4))
  then show ?thesis using z(1) by (simp add: block_to_lba_def block_sector_def)
qed

lemma length_block: "fs_inv D bs s \<Longrightarrow> ext3_mounted s \<Longrightarrow> length (block_bytes D s b) = unat (block_size s)"
  using mounted_size(6) [of s] by (auto simp: block_bytes_def fs_inv_def length_sectors)

lemma read_block_run:
  fixes s :: "'a ext3_state_scheme"
  assumes inv: "fs_inv D bs s" and lv: "(p, k) \<in> live HEAP bs" and m: "ext3_mounted s" "block_on_disk s b" "unat (block_size s) \<le> k"
  defines "t \<equiv> read_block b (of_nat p) s"
  shows "fs_inv D bs t" "fs_to (live HEAP bs - {(p, k)}) s t"
    and "load_bytes (mem t) (of_nat p) (unat (block_size s)) = block_bytes D s b"
proof -
  note z = mounted_size [OF m(1)]
  have h: "heap_inv s bs" using inv by (simp add: fs_inv_def)
  have "(of_nat p :: u32) \<noteq> 0" using buffer_word [OF h lv] by auto
  then have t: "t = read_sectors (block_to_lba b s) (block_size s div 512) (of_nat p) s"
    using m(1) by (simp add: t_def read_block_def ext3_mounted_def)
  have *: "unat (block_to_lba b s) + unat (block_size s div 512) \<le> 268435456" "0 < unat (block_size s div 512)"
    "unat (block_size s div 512) \<le> 256" "512 * unat (block_size s div 512) \<le> k"
    using m(2,3) z by (auto simp: unat_block_to_lba [OF m(1,2)] block_on_disk_def)
  from buffer_read [OF inv lv *] show "fs_inv D bs t" "fs_to (live HEAP bs - {(p, k)}) s t"
    "load_bytes (mem t) (of_nat p) (unat (block_size s)) = block_bytes D s b"
    by (simp_all add: t z(4,6) block_bytes_def unat_block_to_lba [OF m(1,2)])
qed

lemma entry_read:
  assumes "load_bytes m a (unat (block_size s)) = block_bytes D s b" "ext3_mounted s" "unat i < unat (block_size s) div 4"
  shows "load32 m (a + 4 * i) = block_entry D s b (unat i)"
proof -
  note z = mounted_size [OF assms(2)]
  have i: "unat (4 * i) = 4 * unat i" using assms(3) z(3,8) by (simp add: unat_mult_u32)
  have f: "unat (4 * i) + 4 \<le> unat (block_size s)" using assms(3) z(8) i by linarith
  have "(of_nat (4 * unat i) :: u32) = 4 * i" by simp
  then show ?thesis using window_load32 [OF assms(1) _ f] less_imp_le [OF u32_less_size [of "block_size s"]]
    by (simp add: block_entry_def)
qed

section \<open>The block at an index\<close>

lemma block_from_inode_run:
  fixes s :: "'a ext3_state_scheme"
  assumes inv: "fs_inv D bs s" and m: "ext3_mounted s" and room: "can_take [unat (block_size s)] bs"
    and path: "path_on_disk D s ino (unat n)"
  shows "\<exists>t. block_from_inode ino n s = Ret (file_block D s ino (unat n)) t \<and> fs_inv D bs t \<and> fs_to (live HEAP bs) s t"
proof -
  note z = mounted_size [OF m]
  define E where "E = unat (block_size s) div 4"
  have E: "unat (block_size s div 4) = E" "256 \<le> E" "E \<le> 1024" using z by (simp_all add: E_def)
  have ini: "ext3_initialized s" using m by (simp add: ext3_mounted_def)
  have n12: "n < 12 \<longleftrightarrow> unat n < 12" by (simp add: u32_less_iff)
  have e0: "block_size s div 4 \<noteq> 0" using E by force
  consider (direct) "unat n < 12" | (single) "12 \<le> unat n" "unat n < 12 + E" | (double) "12 + E \<le> unat n" "unat n < 12 + E + E * E"
    | (beyond) "12 + E + E * E \<le> unat n" by linarith
  then show ?thesis
  proof cases
    case direct
    then show ?thesis using inv ini n12 by (auto simp: block_from_inode_def file_block_def)
  next
    case single
    then have i: "unat (n - 12) = unat n - 12" by (simp add: unat_sub_u32 u32_le_iff)
    have lt: "n - 12 < block_size s div 4" using single i E by (simp add: u32_less_iff)
    have od: "block_on_disk s (i_block ino ! 12)" using path single by (simp add: path_on_disk_def E_def Let_def)
    from buffer_scope [OF inv z(1,2) room] obtain p k cs t where t: "kmalloc (block_size s) s = Ret (of_nat p) t" "fs_inv D cs t"
      "fs_to (live HEAP bs) s t" "(p, k) \<in> live HEAP cs" "unat (block_size s) \<le> k" "live HEAP cs - {(p, k)} = live HEAP bs"
      and free: "\<And>(u :: 'a ext3_state_scheme) F. fs_inv F cs u \<Longrightarrow> \<exists>w. kfree (of_nat p) u = Ret () w \<and> fs_inv F bs w \<and> fs_to (live HEAP bs) u w"
      by metis
    note vt = volume_kept [OF t(3)] and kt = ext3_kept [OF t(3)]
    define u where "u = read_block (i_block ino ! 12) (of_nat p) t"
    have u: "fs_inv D cs u" "fs_to (live HEAP bs) t u" "load_bytes (mem u) (of_nat p) (unat (block_size s)) = block_bytes D s (i_block ino ! 12)"
      using read_block_run [OF t(2,4), of "i_block ino ! 12"] m od t(5) by (simp_all add: u_def vt kt t(6))
    have p0: "(of_nat p :: u32) \<noteq> 0" using t(2,4) buffer_word [of t cs p k] by (auto simp: fs_inv_def)
    have res: "load32 (mem u) (of_nat p + 4 * (n - 12)) = file_block D s ino (unat n)"
      using entry_read [OF u(3) m, of "n - 12"] single i by (simp add: file_block_def E_def Let_def)
    from free [OF u(1)] obtain w where w: "kfree (of_nat p) u = Ret () w" "fs_inv D bs w" "fs_to (live HEAP bs) u w" by blast
    have "block_from_inode ino n s = Ret (file_block D s ino (unat n)) w"
      using ini n12 single(1) e0 lt t(1) p0 w(1) res by (simp add: block_from_inode_def Let_def u_def [symmetric])
    then show ?thesis using w(2) t(3) u(2) w(3) by (blast intro: fs_to_trans)
  next
    case double
    let ?i = "n - 12 - block_size s div 4"
    have i12: "unat (n - 12) = unat n - 12" using double by (simp add: unat_sub_u32 u32_le_iff)
    then have i: "unat ?i = unat n - 12 - E" using double E by (simp add: unat_sub_u32 u32_le_iff)
    have sq: "E * E < 4294967296" using mult_le_mono [OF E(3) E(3)] by simp
    have lt: "\<not> n - 12 < block_size s div 4" "?i < (block_size s div 4) * (block_size s div 4)"
      using double i12 i E sq by (simp_all add: u32_less_iff unat_mult_u32)
    have q: "unat (?i div (block_size s div 4)) = (unat n - 12 - E) div E" "unat (?i mod (block_size s div 4)) = (unat n - 12 - E) mod E"
      by (simp_all add: unat_div unat_mod i E_def)
    have qE: "(unat n - 12 - E) div E < E" "(unat n - 12 - E) mod E < E"
      using double E by (simp_all add: div_less_iff_less_mult less_diff_conv)
    define b1 where "b1 = block_entry D s (i_block ino ! 13) ((unat n - 12 - E) div E)"
    have od: "block_on_disk s (i_block ino ! 13)" "block_on_disk s b1"
      using path double by (simp_all add: path_on_disk_def E_def b1_def Let_def)
    from buffer_scope [OF inv z(1,2) room] obtain p k cs t where t: "kmalloc (block_size s) s = Ret (of_nat p) t" "fs_inv D cs t"
      "fs_to (live HEAP bs) s t" "(p, k) \<in> live HEAP cs" "unat (block_size s) \<le> k" "live HEAP cs - {(p, k)} = live HEAP bs"
      and free: "\<And>(u :: 'a ext3_state_scheme) F. fs_inv F cs u \<Longrightarrow> \<exists>w. kfree (of_nat p) u = Ret () w \<and> fs_inv F bs w \<and> fs_to (live HEAP bs) u w"
      by metis
    note vt = volume_kept [OF t(3)] and kt = ext3_kept [OF t(3)]
    define u where "u = read_block (i_block ino ! 13) (of_nat p) t"
    have u: "fs_inv D cs u" "fs_to (live HEAP bs) t u" "load_bytes (mem u) (of_nat p) (unat (block_size s)) = block_bytes D s (i_block ino ! 13)"
      using read_block_run [OF t(2,4), of "i_block ino ! 13"] m od(1) t(5) by (simp_all add: u_def vt kt t(6))
    note vu = volume_kept [OF u(2)] and ku = ext3_kept [OF u(2)]
    have b1: "load32 (mem u) (of_nat p + 4 * (?i div (block_size s div 4))) = b1"
      using entry_read [OF u(3) m, of "?i div (block_size s div 4)"] qE(1) unfolding q(1) b1_def E_def by simp
    define v where "v = read_block b1 (of_nat p) u"
    have v: "fs_inv D cs v" "fs_to (live HEAP bs) u v" "load_bytes (mem v) (of_nat p) (unat (block_size s)) = block_bytes D s b1"
      using read_block_run [OF u(1) t(4), of b1] m od(2) t(5) by (simp_all add: v_def vu ku vt kt t(6))
    have p0: "(of_nat p :: u32) \<noteq> 0" using t(2,4) buffer_word [of t cs p k] by (auto simp: fs_inv_def)
    have res: "load32 (mem v) (of_nat p + 4 * (?i mod (block_size s div 4))) = file_block D s ino (unat n)"
      using entry_read [OF v(3) m, of "?i mod (block_size s div 4)"] qE(2) double unfolding q(2)
      by (simp add: file_block_def E_def [symmetric] b1_def Let_def)
    from free [OF v(1)] obtain w where w: "kfree (of_nat p) v = Ret () w" "fs_inv D bs w" "fs_to (live HEAP bs) v w" by blast
    have big: "\<not> n < 12" using double n12 by simp
    have "block_from_inode ino n s = Ret (file_block D s ino (unat n)) w"
      using ini big e0 lt t(1) p0 w(1) res b1 by (simp add: block_from_inode_def Let_def u_def [symmetric] v_def [symmetric])
    then show ?thesis using w(2) t(3) u(2) v(2) w(3) by (blast intro: fs_to_trans)
  next
    case beyond
    have i12: "unat (n - 12) = unat n - 12" using beyond by (simp add: unat_sub_u32 u32_le_iff)
    then have i: "unat (n - 12 - block_size s div 4) = unat n - 12 - E" using beyond E by (simp add: unat_sub_u32 u32_le_iff)
    have sq: "E * E < 4294967296" using mult_le_mono [OF E(3) E(3)] by simp
    have lt: "\<not> n - 12 < block_size s div 4" "\<not> n - 12 - block_size s div 4 < (block_size s div 4) * (block_size s div 4)"
      using beyond i12 i E sq by (simp_all add: u32_less_iff unat_mult_u32)
    have big: "\<not> n < 12" using beyond n12 by simp
    have "block_from_inode ino n s = Ret 0 s" using ini big e0 lt by (simp add: block_from_inode_def Let_def)
    moreover have "file_block D s ino (unat n) = 0" using beyond by (simp add: file_block_def E_def Let_def)
    ultimately show ?thesis using inv by auto
  qed
qed

section \<open>The bytes of a file\<close>

definition file_bytes :: "(nat \<Rightarrow> bytes) \<Rightarrow> 'a ext3_state_scheme \<Rightarrow> EXT3_INODE \<Rightarrow> nat \<Rightarrow> bytes" where
  "file_bytes D s ino m = concat (map (\<lambda>n. block_bytes D s (file_block D s ino n)) [0..<m])"

text \<open>The first \<open>m\<close> blocks of the file are there, and on the disk.\<close>

definition file_ok :: "(nat \<Rightarrow> bytes) \<Rightarrow> 'a ext3_state_scheme \<Rightarrow> EXT3_INODE \<Rightarrow> nat \<Rightarrow> bool" where
  "file_ok D s ino m \<longleftrightarrow> (\<forall>n<m. file_block D s ino n \<noteq> 0 \<and> block_on_disk s (file_block D s ino n) \<and> path_on_disk D s ino n)"

lemma file_kept: "fs_to L s t \<Longrightarrow> file_bytes D t = file_bytes D s" "fs_to L s t \<Longrightarrow> file_ok D t = file_ok D s"
  unfolding file_bytes_def [abs_def] file_ok_def [abs_def] by (simp_all only: volume_kept)

lemma length_file_bytes: "fs_inv D bs s \<Longrightarrow> ext3_mounted s \<Longrightarrow> length (file_bytes D s ino m) = m * unat (block_size s)"
  by (induction m) (simp_all add: file_bytes_def length_block)

lemma file_bytes_prefix: "j \<le> m \<Longrightarrow> \<exists>r. file_bytes D s ino m = file_bytes D s ino j @ r"
proof -
  assume "j \<le> m"
  then have "[0..<m] = [0..<j] @ [j..<m]" using upt_add_eq_append [of 0 j "m - j"] by simp
  then show ?thesis by (simp add: file_bytes_def)
qed

lemma take_file_bytes:
  assumes "fs_inv D bs s" "ext3_mounted s" "j < m" "c \<le> unat (block_size s)"
  shows "take (j * unat (block_size s) + c) (file_bytes D s ino m) =
    take (j * unat (block_size s)) (file_bytes D s ino m) @ take c (block_bytes D s (file_block D s ino j))"
proof -
  have "file_bytes D s ino (Suc j) = file_bytes D s ino j @ block_bytes D s (file_block D s ino j)" by (simp add: file_bytes_def)
  moreover obtain r where "file_bytes D s ino m = file_bytes D s ino (Suc j) @ r" using file_bytes_prefix [of "Suc j" m D s ino] assms(3) by auto
  ultimately have e: "file_bytes D s ino m = file_bytes D s ino j @ block_bytes D s (file_block D s ino j) @ r" by simp
  show ?thesis using assms(4) unfolding e by (simp add: length_file_bytes [OF assms(1,2)] length_block [OF assms(1,2)])
qed

lemma ext3_read_loop_run:
  fixes s :: "'a ext3_state_scheme"
  assumes "fs_inv D bs s" "ext3_mounted s" "can_take [unat (block_size s)] bs" "file_ok D s ino m"
    and "unat (i_size ino) \<le> m * unat (block_size s)" "(x, l) \<in> live HEAP bs" "unat (i_size ino) \<le> l"
    and "unat tot \<le> unat (i_size ino)" "unat tot < unat (i_size ino) \<Longrightarrow> unat tot = unat idx * unat (block_size s)"
    and "load_bytes (mem s) (of_nat x) (unat tot) = take (unat tot) (file_bytes D s ino m)"
  shows "\<exists>j t. loop (\<lambda>(total_read, _, stop) s. \<not> stop \<and> total_read < i_size ino) (ext3_read_step ino (of_nat x)) (tot, idx, False) s =
      Ret (i_size ino, j, False) t \<and>
    load_bytes (mem t) (of_nat x) (unat (i_size ino)) = take (unat (i_size ino)) (file_bytes D s ino m) \<and>
    fs_inv D bs t \<and> fs_to (live HEAP bs - {(x, l)}) s t"
  using assms
proof (induction "unat (i_size ino) - unat tot" arbitrary: tot idx s rule: less_induct)
  case less
  let ?loop = "loop (\<lambda>(total_read, _, stop) s. \<not> stop \<and> total_read < i_size ino) (ext3_read_step ino (of_nat x))"
  let ?sz = "unat (i_size ino)" and ?B = "unat (block_size s)" and ?rest = "live HEAP bs - {(x, l)}"
  note prems = less.prems
  show ?case
  proof (cases "tot < i_size ino")
    case False
    then have "tot = i_size ino" using prems(8) by (simp add: u32_less_iff word_unat_eq_iff)
    with prems show ?thesis by auto
  next
    case True
    then have lt: "unat tot < ?sz" by (simp add: u32_less_iff)
    note at = prems(9) [OF lt]
    have im: "unat idx < m" using lt at prems(5) by (metis mult_le_mono1 not_le order_less_le_trans)
    let ?b = "file_block D s ino (unat idx)"
    have fb: "?b \<noteq> 0" "block_on_disk s ?b" "path_on_disk D s ino (unat idx)" using prems(4) im by (simp_all add: file_ok_def)
    note z = mounted_size [OF prems(2)]
    from block_from_inode_run [OF prems(1-3) fb(3)] obtain t where
      t: "block_from_inode ino idx s = Ret ?b t" "fs_inv D bs t" "fs_to (live HEAP bs) s t" by blast
    note vt = volume_kept [OF t(3)] and kt = ext3_kept [OF t(3)]
    from buffer_scope [OF t(2), of "block_size s" "[]"] z(1,2) prems(3) obtain p k cs u where
      u: "kmalloc (block_size s) t = Ret (of_nat p) u" "fs_inv D cs u" "fs_to (live HEAP bs) t u" "(p, k) \<in> live HEAP cs"
        "?B \<le> k" "live HEAP cs - {(p, k)} = live HEAP bs"
      and free: "\<And>(v :: 'a ext3_state_scheme) F. fs_inv F cs v \<Longrightarrow> \<exists>w. kfree (of_nat p) v = Ret () w \<and> fs_inv F bs w \<and> fs_to (live HEAP bs) v w"
      by metis
    note vu = volume_kept [OF u(3)] and ku = ext3_kept [OF u(3)]
    have xl: "(x, l) \<in> live HEAP cs" "(p, k) \<noteq> (x, l)" using prems(6) u(6) by blast+
    define v where "v = read_block ?b (of_nat p) u"
    have v: "fs_inv D cs v" "fs_to (live HEAP bs) u v" "load_bytes (mem v) (of_nat p) ?B = block_bytes D s ?b"
      using read_block_run [OF u(2,4), of ?b] prems(2) fb(2) u(5) by (simp_all add: v_def vu ku vt kt u(6))
    note kv = ext3_kept [OF v(2)]
    define chunk where "chunk = (if i_size ino - tot < block_size s then i_size ino - tot else block_size s)"
    have rem: "unat (i_size ino - tot) = ?sz - unat tot" using lt by (simp add: unat_sub_u32 u32_le_iff)
    have chunk: "unat chunk = min (?sz - unat tot) ?B" by (auto simp: chunk_def rem u32_less_iff)
    have f: "unat chunk \<le> k" "unat tot + unat chunk \<le> l" using chunk u(5) prems(7) lt by linarith+
    define w where "w = memcpy (of_nat x + tot) (of_nat p) chunk v"
    have tw: "of_nat (unat tot) = tot" by simp
    from buffer_copy [OF v(1) u(4) xl f, unfolded tw]
    have w: "fs_inv D cs w" "fs_to (live HEAP cs - {(x, l)}) v w"
      "load_bytes (mem w) (of_nat x) (unat tot + unat chunk) = load_bytes (mem v) (of_nat x) (unat tot) @ load_bytes (mem v) (of_nat p) (unat chunk)"
      by (simp_all add: w_def)
    from free [OF w(1)] obtain q where q: "kfree (of_nat p) w = Ret () q" "fs_inv D bs q" "fs_to (live HEAP bs) w q" by blast
    have sub: "?rest \<subseteq> live HEAP bs" "?rest \<subseteq> live HEAP cs - {(x, l)}" using u(6) by blast+
    have sq: "fs_to ?rest s q"
      using fs_to_mono [OF t(3) sub(1)] fs_to_mono [OF u(3) sub(1)] fs_to_mono [OF v(2) sub(1)] fs_to_mono [OF w(2) sub(2)]
        fs_to_mono [OF q(3) sub(1)] by (fast intro: fs_to_trans)
    have p0: "(of_nat p :: u32) \<noteq> 0" using u(2,4) buffer_word [of u cs p k] by (auto simp: fs_inv_def)
    have "ext3_read_step ino (of_nat x) (tot, idx, False) s =
        bind (kfree (of_nat p) w) (\<lambda>_ s. Ret (tot + chunk, idx + 1, False) s)"
      unfolding w_def chunk_def v_def ext3_read_step_def using t(1) u(1) fb(1) p0 kt by (simp add: Let_def)
    then have step: "ext3_read_step ino (of_nat x) (tot, idx, False) s = Ret (tot + chunk, idx + 1, False) q" using q(1) by simp
    have go: "?loop (tot, idx, False) s = ?loop (tot + chunk, idx + 1, False) q" using True step by (simp add: loop_step)
    have tc: "unat (tot + chunk) = unat tot + unat chunk"
      using chunk lt u32_less_size [of "i_size ino"] by (subst unat_add_nowrap) (simp_all del: u32_less_size)
    have xx: "x + l \<le> 4294967296" "0 < x" using prems(1,6) buffer_word [of s bs x l] by (simp_all add: fs_inv_def)
    have sv: "fs_to (live HEAP bs) s v" using t(3) u(3) v(2) by (fast intro: fs_to_trans)
    have "load_bytes (mem q) (of_nat x) (unat (tot + chunk)) = load_bytes (mem w) (of_nat x) (unat tot + unat chunk)"
      unfolding tc by (rule fs_to_load [OF q(3) prems(6) xx(1) f(2) xx(2)])
    also have "\<dots> = load_bytes (mem s) (of_nat x) (unat tot) @ take (unat chunk) (block_bytes D s ?b)"
      using w(3) fs_to_load [OF sv prems(6) xx(1) _ xx(2), of "unat tot"] f(2) chunk
        load_bytes_sub [of 0 "unat chunk" ?B "mem v" "of_nat p"] by (simp add: v(3))
    also have "\<dots> = take (unat (tot + chunk)) (file_bytes D s ino m)"
      using take_file_bytes [OF prems(1,2) im, of "unat chunk"] chunk prems(10) at tc by simp
    finally have data: "load_bytes (mem q) (of_nat x) (unat (tot + chunk)) = take (unat (tot + chunk)) (file_bytes D q ino m)"
      by (simp add: file_kept [OF sq])
    have kq: "block_size q = block_size s" "ext3_mounted q = ext3_mounted s" "file_ok D q = file_ok D s" "file_bytes D q = file_bytes D s"
      using ext3_kept [OF sq] volume_kept [OF sq] file_kept [OF sq] by simp_all
    have nxt: "unat (tot + chunk) = unat (idx + 1) * ?B" if "unat (tot + chunk) < ?sz"
    proof -
      have "unat chunk = ?B" using that chunk unfolding tc by linarith
      moreover have "unat (idx + 1) = unat idx + 1"
      proof -
        have "0 < ?B" using z(1) by (simp add: unat_gt_0)
        then have "unat idx < unat idx * ?B + 1" by (simp add: less_Suc_eq_le)
        then have "unat idx + 1 < 4294967296" using at lt u32_less_size [of "i_size ino"] by linarith
        then show ?thesis by (simp add: unat_add_u32)
      qed
      ultimately show ?thesis using at unfolding tc by simp
    qed
    have B0: "0 < ?B" using z(1) by (simp add: unat_gt_0)
    have smaller: "?sz - unat (tot + chunk) < ?sz - unat tot" using chunk lt B0 unfolding tc by linarith
    have le: "unat (tot + chunk) \<le> ?sz" using chunk lt unfolding tc by linarith
    have "\<exists>j r. ?loop (tot + chunk, idx + 1, False) q = Ret (i_size ino, j, False) r \<and>
        load_bytes (mem r) (of_nat x) ?sz = take ?sz (file_bytes D q ino m) \<and> fs_inv D bs r \<and> fs_to ?rest q r"
      by (rule less.hyps [OF smaller q(2)]) (use prems(2-7) nxt data kq le in simp_all)
    then obtain j r where "?loop (tot + chunk, idx + 1, False) q = Ret (i_size ino, j, False) r"
      "load_bytes (mem r) (of_nat x) ?sz = take ?sz (file_bytes D s ino m)" "fs_inv D bs r" "fs_to ?rest q r"
      unfolding kq by blast
    then show ?thesis using go sq by (auto intro: fs_to_trans)
  qed
qed

lemma read_blocks_run:
  fixes s :: "'a ext3_state_scheme"
  assumes "fs_inv D bs s" "ext3_mounted s" "can_take [unat (block_size s)] bs"
    and "file_ok D s ino m" "unat (i_size ino) \<le> m * unat (block_size s)"
    and "(x, l) \<in> live HEAP bs" "unat (i_size ino) \<le> l"
  shows "\<exists>t. ext3_read_blocks ino (of_nat x) s = Ret (i_size ino) t \<and>
    load_bytes (mem t) (of_nat x) (unat (i_size ino)) = take (unat (i_size ino)) (file_bytes D s ino m) \<and>
    fs_inv D bs t \<and> fs_to (live HEAP bs - {(x, l)}) s t"
proof -
  from ext3_read_loop_run [OF assms, of 0 0] obtain j t where
    "loop (\<lambda>(total_read, _, stop) s. \<not> stop \<and> total_read < i_size ino) (ext3_read_step ino (of_nat x)) (0, 0, False) s =
      Ret (i_size ino, j, False) t"
    "load_bytes (mem t) (of_nat x) (unat (i_size ino)) = take (unat (i_size ino)) (file_bytes D s ino m)"
    "fs_inv D bs t" "fs_to (live HEAP bs - {(x, l)}) s t" by auto
  then show ?thesis by (simp add: ext3_read_blocks_def)
qed

end
