(* ===== verification/Ext3_Paths.thy ===== *)
theory Ext3_Paths
  imports Ext3_Blocks
begin

unbundle bit_operations_syntax

text \<open>
  The inodes, directories and paths of an ext3 volume: \<^verbatim>\<open>find_file\<close> follows a path from the root inode
  through the directory blocks on the disk, and \<^verbatim>\<open>ext3_read_file\<close> fills a buffer from the inode it finds.
  The layout is the driver's: inodes of 128 bytes, and the group descriptors in block 2.
\<close>

section \<open>Inodes\<close>

definition ext3_volume :: "'a ext3_state_scheme \<Rightarrow> bool" where
  "ext3_volume s \<longleftrightarrow> ext3_mounted s \<and> inode_size s = 128 \<and> 0 < unat (inodes_per_group s) \<and>
     unat (inodes_per_group s) \<le> 32768 \<and> block_on_disk s 2"

text \<open>The group of an inode, its offset in the inode table of the group, and the block it is in.\<close>

definition inode_group :: "'a ext3_state_scheme \<Rightarrow> u32 \<Rightarrow> nat" where
  "inode_group s n = (unat n - 1) div unat (inodes_per_group s)"

definition table_offset :: "'a ext3_state_scheme \<Rightarrow> u32 \<Rightarrow> nat" where
  "table_offset s n = 128 * ((unat n - 1) mod unat (inodes_per_group s))"

definition inode_block :: "(nat \<Rightarrow> bytes) \<Rightarrow> 'a ext3_state_scheme \<Rightarrow> u32 \<Rightarrow> u32" where
  "inode_block D s n =
     load32 (byte_window (block_bytes D s 2)) (of_nat (32 * inode_group s n + 8)) + of_nat (table_offset s n div unat (block_size s))"

definition disk_inode :: "(nat \<Rightarrow> bytes) \<Rightarrow> 'a ext3_state_scheme \<Rightarrow> u32 \<Rightarrow> EXT3_INODE" where
  "disk_inode D s n =
     inode_at (byte_window (block_bytes D s (inode_block D s n))) (of_nat (table_offset s n mod unat (block_size s)))"

definition inode_ok :: "(nat \<Rightarrow> bytes) \<Rightarrow> 'a ext3_state_scheme \<Rightarrow> u32 \<Rightarrow> bool" where
  "inode_ok D s n \<longleftrightarrow> n \<noteq> 0 \<and> 32 * inode_group s n + 32 \<le> unat (block_size s) \<and>
     inode_block D s n \<noteq> 0 \<and> block_on_disk s (inode_block D s n)"

lemma inode_cong:
  assumes "load_bytes m a 128 = load_bytes m' a' 128"
  shows "inode_at m a = inode_at m' a'"
proof -
  have byte: "m (a + of_nat i) = m' (a' + of_nat i)" if "i < 128" for i
    using arg_cong [OF assms, of "\<lambda>bs. bs ! i"] that by simp
  have l16: "load16 m (a + of_nat i) = load16 m' (a' + of_nat i)" if "i < 127" for i
    using byte [of i] byte [of "i + 1"] that by (simp add: load16_def ac_simps)
  have l32: "load32 m (a + of_nat i) = load32 m' (a' + of_nat i)" if "i < 125" for i
    using byte [of i] byte [of "i + 1"] byte [of "i + 2"] byte [of "i + 3"] that by (simp add: load32_def ac_simps)
  have ws: "load_words m (a + 40) 15 = load_words m' (a' + 40) 15"
    unfolding load_words_def by (intro map_cong refl) (use l32 [of "40 + 4 * i" for i] in \<open>auto simp: add.assoc\<close>)
  have bs: "load_bytes m (a + 116) 12 = load_bytes m' (a' + 116) 12"
    by (rule nth_equalityI) (use byte [of "116 + i" for i] in \<open>auto simp: add.assoc\<close>)
  show ?thesis
    using l16 [of 0] l16 [of 2] l16 [of 24] l16 [of 26] l32 [of 4] l32 [of 8] l32 [of 12] l32 [of 16] l32 [of 20] l32 [of 28]
      l32 [of 32] l32 [of 36] l32 [of 100] l32 [of 104] l32 [of 108] l32 [of 112] ws bs
    by (simp add: inode_at_def)
qed

lemma ext3_kept':
  assumes "fs_to L s t"
  shows "inode_size t = inode_size s" "inodes_per_group t = inodes_per_group s"
  using assms by (auto simp: fs_to_def io_only_def)

lemma inode_kept:
  assumes "fs_to L s t"
  shows "ext3_volume t = ext3_volume s" "inode_block D t = inode_block D s" "disk_inode D t = disk_inode D s"
    "inode_ok D t = inode_ok D s"
proof -
  note k = ext3_kept [OF assms] ext3_kept' [OF assms] volume_kept [OF assms]
  have g: "inode_group t = inode_group s" "table_offset t = table_offset s"
    by (simp_all add: inode_group_def table_offset_def k fun_eq_iff)
  show "ext3_volume t = ext3_volume s" by (simp add: ext3_volume_def k)
  show b: "inode_block D t = inode_block D s" by (simp add: inode_block_def k g fun_eq_iff)
  show "disk_inode D t = disk_inode D s" "inode_ok D t = inode_ok D s" by (simp_all add: disk_inode_def inode_ok_def k g b fun_eq_iff)
qed


lemma inode_read:
  assumes "load_bytes m a (unat (block_size s)) = bs" "ext3_mounted s" "unat o' + 128 \<le> unat (block_size s)"
  shows "inode_at m (a + o') = inode_at (byte_window bs) o'"
  by (intro inode_cong window_load_bytes [OF assms(1) _ assms(3)]) (use mounted_size(3) [OF assms(2)] in simp)

lemma inode_blocks: "length (i_block (disk_inode D s n)) = 15"
  by (simp add: disk_inode_def inode_at_def load_words_def)

lemma of_nat_unat: "unat w = n \<Longrightarrow> of_nat n = w"
  by auto

text \<open>The number computed by the code, and the offset in the block.\<close>

lemma inode_numbers:
  assumes "ext3_volume s" "n \<noteq> 0"
  shows "unat ((n - 1) div inodes_per_group s) = inode_group s n"
    "unat ((n - 1) mod inodes_per_group s * inode_size s) = table_offset s n"
    "unat (inode_offset n s) = table_offset s n mod unat (block_size s)"
    "table_offset s n mod unat (block_size s) + 128 \<le> unat (block_size s)"
proof -
  have v: "inode_size s = 128" "0 < unat (inodes_per_group s)" "unat (inodes_per_group s) \<le> 32768"
    "block_size s \<in> {1024, 2048, 4096}" using assms(1) by (simp_all add: ext3_volume_def ext3_mounted_def)
  have n1: "unat (n - 1) = unat n - 1" using assms(2) by (simp add: unat_minus_one)
  show "unat ((n - 1) div inodes_per_group s) = inode_group s n" by (simp add: inode_group_def unat_div n1)
  have "(unat n - 1) mod unat (inodes_per_group s) < 32768" using v(2,3) mod_less_divisor [OF v(2), of "unat n - 1"] by linarith
  then show off: "unat ((n - 1) mod inodes_per_group s * inode_size s) = table_offset s n"
    by (simp add: v(1) table_offset_def unat_mult_u32 unat_mod n1)
  have nz: "inodes_per_group s \<noteq> 0" "block_size s \<noteq> 0" using v by auto
  then show "unat (inode_offset n s) = table_offset s n mod unat (block_size s)"
    by (simp add: inode_offset_def unat_mod off)
  define q where "q = unat (block_size s) div 128"
  have q: "unat (block_size s) = 128 * q" "0 < q" using v(4) by (auto simp: q_def)
  have "table_offset s n mod unat (block_size s) = 128 * ((unat n - 1) mod unat (inodes_per_group s) mod q)"
    by (simp only: table_offset_def q(1) mult_mod_right)
  moreover have "(unat n - 1) mod unat (inodes_per_group s) mod q < q" using q(2) by simp
  ultimately show "table_offset s n mod unat (block_size s) + 128 \<le> unat (block_size s)" unfolding q(1) by linarith
qed

lemma inode_to_block_run:
  fixes s :: "'a ext3_state_scheme"
  assumes inv: "fs_inv D bs s" and v: "ext3_volume s" and room: "can_take [unat (block_size s)] bs" and ok: "inode_ok D s n"
  shows "\<exists>t. inode_to_block n s = Ret (inode_block D s n) t \<and> fs_inv D bs t \<and> fs_to (live HEAP bs) s t"
proof -
  have m: "ext3_mounted s" "inodes_per_group s \<noteq> 0" "block_on_disk s 2" using v by (auto simp: ext3_volume_def)
  have n0: "n \<noteq> 0" and g: "32 * inode_group s n + 32 \<le> unat (block_size s)" using ok by (simp_all add: inode_ok_def)
  note z = mounted_size [OF m(1)] and num = inode_numbers [OF v n0]
  from buffer_scope [OF inv z(1,2) room] obtain p k cs t where t: "kmalloc (block_size s) s = Ret (of_nat p) t" "fs_inv D cs t"
    "fs_to (live HEAP bs) s t" "(p, k) \<in> live HEAP cs" "unat (block_size s) \<le> k" "live HEAP cs - {(p, k)} = live HEAP bs"
    and free: "\<And>(u :: 'a ext3_state_scheme) F. fs_inv F cs u \<Longrightarrow> \<exists>w. kfree (of_nat p) u = Ret () w \<and> fs_inv F bs w \<and> fs_to (live HEAP bs) u w"
    by metis
  note vt = volume_kept [OF t(3)] and kt = ext3_kept [OF t(3)] ext3_kept' [OF t(3)]
  define u where "u = rd_block 2 (of_nat p) t"
  have p0: "(of_nat p :: u32) \<noteq> 0" using t(2,4) buffer_word [of t cs p k] by (auto simp: fs_inv_def)
  have ud: "read_sectors (block_to_lba 2 t) (block_size s div 512) (of_nat p) t = u" by (simp add: u_def kt)
  have ur: "u = read_block 2 (of_nat p) t" using p0 m(1) kt by (simp add: u_def read_block_def ext3_mounted_def)
  have u: "fs_inv D cs u" "fs_to (live HEAP bs) t u" "load_bytes (mem u) (of_nat p) (unat (block_size s)) = block_bytes D s 2"
    using read_block_run [OF t(2,4), of 2] m t(5) by (simp_all add: ur vt kt t(6))
  note ku = ext3_kept [OF u(2)] ext3_kept' [OF u(2)]
  let ?g = "(n - 1) div inodes_per_group s"
  have g8: "unat (?g * 32 + 8) = 32 * inode_group s n + 8" "of_nat (32 * inode_group s n + 8) = ?g * 32 + 8"
  proof -
    show "unat (?g * 32 + 8) = 32 * inode_group s n + 8" using g z(3) num(1) by (simp add: unat_add_u32 unat_mult_u32)
    then show "of_nat (32 * inode_group s n + 8) = ?g * 32 + 8" by (rule of_nat_unat)
  qed
  have table: "gd_inode_table (group_desc_at (mem u) (of_nat p + ?g * 32)) = load32 (byte_window (block_bytes D s 2)) (?g * 32 + 8)"
    using window_load32 [OF u(3), of "?g * 32 + 8"] g8(1) g z(3) by (simp add: group_desc_at_def add.assoc)
  have "unat ((n - 1) mod inodes_per_group s * inode_size s div block_size s) = table_offset s n div unat (block_size s)"
    by (simp add: unat_div num(2))
  then have q: "of_nat (table_offset s n div unat (block_size s)) = (n - 1) mod inodes_per_group s * inode_size s div block_size s"
    by (rule of_nat_unat)
  from free [OF u(1)] obtain w where w: "kfree (of_nat p) u = Ret () w" "fs_inv D bs w" "fs_to (live HEAP bs) u w" by blast
  have "inode_to_block n s = Ret (inode_block D s n) w"
    unfolding inode_block_def g8(2) q table [symmetric]
    using m(2) z(1) t(1) p0 w(1) kt ku ext3_kept [OF w(3)] by (simp add: inode_to_block_def Let_def ud)
  then show ?thesis using w(2) t(3) u(2) w(3) by (blast intro: fs_to_trans)
qed

lemma read_inode_run:
  fixes s :: "'a ext3_state_scheme"
  assumes inv: "fs_inv D bs s" and v: "ext3_volume s" and room: "can_take [unat (block_size s)] bs" and ok: "inode_ok D s n"
  shows "\<exists>t. read_inode n out s = Ret (Some (disk_inode D s n)) t \<and> fs_inv D bs t \<and> fs_to (live HEAP bs) s t"
proof -
  have n0: "n \<noteq> 0" and b: "inode_block D s n \<noteq> 0" "block_on_disk s (inode_block D s n)" using ok by (simp_all add: inode_ok_def)
  from inode_to_block_run [OF inv v room ok] obtain r where r: "inode_to_block n s = Ret (inode_block D s n) r" "fs_inv D bs r"
    "fs_to (live HEAP bs) s r" by blast
  note vr = volume_kept [OF r(3)] inode_kept [OF r(3)] and kr = ext3_kept [OF r(3)] ext3_kept' [OF r(3)]
  have m: "ext3_mounted s" "inode_size s = 128" using v by (auto simp: ext3_volume_def)
  note z = mounted_size [OF m(1)] and num = inode_numbers [OF v n0]
  have "can_take [unat (block_size r)] bs" using room by (simp add: kr)
  from buffer_scope [OF r(2) _ _ this] z(1,2) obtain p k cs t where t: "kmalloc (block_size s) r = Ret (of_nat p) t" "fs_inv D cs t"
    "fs_to (live HEAP bs) r t" "(p, k) \<in> live HEAP cs" "unat (block_size s) \<le> k" "live HEAP cs - {(p, k)} = live HEAP bs"
    and free: "\<And>(u :: 'a ext3_state_scheme) F. fs_inv F cs u \<Longrightarrow> \<exists>w. kfree (of_nat p) u = Ret () w \<and> fs_inv F bs w \<and> fs_to (live HEAP bs) u w"
    unfolding kr by metis
  note vt = volume_kept [OF t(3)] and kt = ext3_kept [OF t(3)] ext3_kept' [OF t(3)]
  define u where "u = rd_block (inode_block D s n) (of_nat p) t"
  have p0: "(of_nat p :: u32) \<noteq> 0" using t(2,4) buffer_word [of t cs p k] by (auto simp: fs_inv_def)
  have ud: "read_sectors (block_to_lba (inode_block D s n) t) (block_size s div 512) (of_nat p) t = u" by (simp add: u_def kt kr)
  have ur: "u = read_block (inode_block D s n) (of_nat p) t" using p0 m(1) kt kr by (simp add: u_def read_block_def ext3_mounted_def)
  have u: "fs_inv D cs u" "fs_to (live HEAP bs) t u" "load_bytes (mem u) (of_nat p) (unat (block_size s)) = block_bytes D s (inode_block D s n)"
    using read_block_run [OF t(2,4), of "inode_block D s n"] m(1) b(2) t(5) by (simp_all add: ur vt kt vr kr t(6))
  note ku = ext3_kept [OF u(2)] ext3_kept' [OF u(2)]
  have off: "inode_offset n t = inode_offset n s" by (simp add: inode_offset_def kt kr)
  have oo: "of_nat (table_offset s n mod unat (block_size s)) = inode_offset n s" using num(3) by (rule of_nat_unat)
  have ino: "inode_at (mem u) (of_nat p + inode_offset n s) = disk_inode D s n"
    using inode_read [OF u(3) m(1), of "inode_offset n s"] num(3,4) by (simp add: disk_inode_def oo)
  from free [OF u(1)] obtain w where w: "kfree (of_nat p) u = Ret () w" "fs_inv D bs w" "fs_to (live HEAP bs) u w" by blast
  have offr: "inode_offset n r = inode_offset n s" by (simp add: inode_offset_def kr)
  have "ext3_initialized s" using m(1) by (simp add: ext3_mounted_def)
  then have "read_inode n out s = Ret (Some (disk_inode D s n)) w"
    using b(1) r(1) t(1) p0 w(1) m(2) by (simp add: read_inode_def Let_def kr kt ku offr copy_inode_def ino ud)
  then show ?thesis using w(2) r(3) t(3) u(2) w(3) by (blast intro: fs_to_trans)
qed

section \<open>Directories\<close>

text \<open>The blocks of a directory up to the first zero, and its bytes followed by zeros as a memory of their own.\<close>

definition dir_blocks :: "EXT3_INODE \<Rightarrow> u32 list" where
  "dir_blocks ino = takeWhile (\<lambda>b. b \<noteq> 0) (take 12 (i_block ino))"

definition dir_bytes :: "(nat \<Rightarrow> bytes) \<Rightarrow> 'a ext3_state_scheme \<Rightarrow> u32 list \<Rightarrow> bytes" where
  "dir_bytes D s ws = concat (map (block_bytes D s) ws)"

definition dir_ok :: "nat \<Rightarrow> 'a ext3_state_scheme \<Rightarrow> EXT3_INODE \<Rightarrow> bool" where
  "dir_ok room s ino \<longleftrightarrow> (\<forall>b\<in>set (dir_blocks ino). block_on_disk s b) \<and>
     length (dir_blocks ino) * unat (block_size s) \<le> unat (i_size ino) + unat (block_size s) \<and>
     unat (i_size ino) + unat (block_size s) \<le> room"

lemma length_dir_bytes: "fs_inv D bs s \<Longrightarrow> ext3_mounted s \<Longrightarrow> length (dir_bytes D s ws) = length ws * unat (block_size s)"
  by (induction ws) (simp_all add: dir_bytes_def length_block)

text \<open>Sectors read into the middle of a buffer.\<close>

lemma buffer_read_at:
  fixes s :: "'a heap_state_scheme"
  assumes inv: "fs_inv D bs s" and lv: "(p, k) \<in> live HEAP bs"
    and n: "unat lba + unat n \<le> 268435456" "0 < unat n" "unat n \<le> 256" "i + 512 * unat n \<le> k"
  defines "t \<equiv> read_sectors lba n (of_nat p + of_nat i) s"
  shows "fs_inv D bs t" "fs_to (live HEAP bs - {(p, k)}) s t"
    and "mem t = store_bytes (of_nat p + of_nat i) (sectors D (unat lba) (unat n)) (mem s)"
proof -
  have hi: "heap_inv s bs" "ata_ready D s" using inv by (simp_all add: fs_inv_def)
  from disk.rd_law [OF hi(2) n(1-3), of "of_nat p + of_nat i"]
  have rd: "ata_ready D t" "mem t = store_bytes (of_nat p + of_nat i) (sectors D (unat lba) (unat n)) (mem s)"
    by (simp_all add: t_def sectors_def)
  have "512 * unat n \<le> 4294967296" using n(3) by simp
  from read_sectors_io [OF this] have io: "io_only s t" unfolding t_def by (rule io_only_io_on)
  from io_only_form [OF io] obtain d where t: "t = s\<lparr>mem := mem t\<rparr>\<lparr>dev := d\<rparr>" by blast
  have fits: "i + length (sectors D (unat lba) (unat n)) \<le> k" using length_sectors [OF hi(2)] n(4) by simp
  from payload_write [OF hi(1) lv fits]
  have pw: "heap_inv (s\<lparr>mem := mem t\<rparr>) bs" "payload_kept (live HEAP bs - {(p, k)}) (mem s) (mem t)" by (simp_all add: rd(2))
  have "heap_inv t bs" by (subst t) (simp add: pw(1))
  then show "fs_inv D bs t" using rd(1) by (simp add: fs_inv_def)
  show "fs_to (live HEAP bs - {(p, k)}) s t" using io pw(2) by (simp add: fs_to_def)
  show "mem t = store_bytes (of_nat p + of_nat i) (sectors D (unat lba) (unat n)) (mem s)" by (rule rd(2))
qed

lemma read_block_at:
  fixes s :: "'a ext3_state_scheme"
  assumes inv: "fs_inv D bs s" and lv: "(p, k) \<in> live HEAP bs" and m: "ext3_mounted s" "block_on_disk s b"
    and fits: "i + unat (block_size s) \<le> k"
  defines "t \<equiv> read_block b (of_nat p + of_nat i) s"
  shows "fs_inv D bs t" "fs_to (live HEAP bs - {(p, k)}) s t" "mem t = store_bytes (of_nat p + of_nat i) (block_bytes D s b) (mem s)"
proof -
  note z = mounted_size [OF m(1)]
  have h: "heap_inv s bs" using inv by (simp add: fs_inv_def)
  have "0 < unat (block_size s)" using z(1) by (simp add: unat_gt_0)
  then have "p + i < 4294967296" "0 < p + i" using buffer_word [OF h lv] fits by simp_all
  then have "unat (of_nat (p + i) :: u32) = p + i" by (intro unat_of_nat_u32)
  then have "(of_nat p + of_nat i :: u32) \<noteq> 0" using \<open>0 < p + i\<close> by (metis of_nat_add less_irrefl unat_0)
  then have t: "t = read_sectors (block_to_lba b s) (block_size s div 512) (of_nat p + of_nat i) s"
    using m(1) by (simp add: t_def read_block_def ext3_mounted_def)
  have *: "unat (block_to_lba b s) + unat (block_size s div 512) \<le> 268435456" "0 < unat (block_size s div 512)"
    "unat (block_size s div 512) \<le> 256" "i + 512 * unat (block_size s div 512) \<le> k"
    using m(2) fits z by (auto simp: unat_block_to_lba [OF m(1,2)] block_on_disk_def)
  from buffer_read_at [OF inv lv *] show "fs_inv D bs t" "fs_to (live HEAP bs - {(p, k)}) s t"
    "mem t = store_bytes (of_nat p + of_nat i) (block_bytes D s b) (mem s)"
    by (simp_all add: t z(4) block_bytes_def unat_block_to_lba [OF m(1,2)])
qed

lemma load_dir_blocks_run:
  fixes s :: "'a ext3_state_scheme"
  assumes "fs_inv D bs s" "(p, k) \<in> live HEAP bs" "ext3_mounted s" "\<forall>b\<in>set (takeWhile (\<lambda>b. b \<noteq> 0) ws). block_on_disk s b"
    and "i + length (takeWhile (\<lambda>b. b \<noteq> 0) ws) * unat (block_size s) \<le> k"
  defines "t \<equiv> load_dir_blocks ws (of_nat p + of_nat i) s"
  shows "fs_inv D bs t \<and> fs_to (live HEAP bs - {(p, k)}) s t \<and>
    mem t = store_bytes (of_nat p + of_nat i) (dir_bytes D s (takeWhile (\<lambda>b. b \<noteq> 0) ws)) (mem s)"
  using assms(1,3-5) unfolding t_def
proof (induction ws arbitrary: s i)
  case (Cons b ws)
  note pre = Cons.prems
  show ?case
  proof (cases "b = 0")
    case False
    let ?n = "unat (block_size s)" and ?tl = "takeWhile (\<lambda>b. b \<noteq> 0) ws"
    define u where "u = read_block b (of_nat p + of_nat i) s"
    have b: "block_on_disk s b" "i + ?n \<le> k" using pre(3,4) False by simp_all
    note u = read_block_at [OF pre(1) assms(2) pre(2) b, folded u_def]
    note vu = volume_kept [OF u(2)] and ku = ext3_kept [OF u(2)]
    have addr: "of_nat p + of_nat i + block_size s = (of_nat p + of_nat (i + ?n) :: u32)" by (simp add: add.assoc)
    have f: "i + ?n + length ?tl * ?n \<le> k" using pre(4) False by simp
    define v where "v = load_dir_blocks ws (of_nat p + of_nat (i + ?n)) u"
    have lv: "load_dir_blocks ws (of_nat p + (of_nat i + block_size s)) u = v" by (simp add: v_def)
    have t: "fs_inv D bs v" "fs_to (live HEAP bs - {(p, k)}) u v"
      "mem v = store_bytes (of_nat p + of_nat (i + ?n)) (dir_bytes D s ?tl) (mem u)"
      using Cons.IH [OF u(1), of "i + ?n"] pre(2,3) False f unfolding v_def by (simp_all add: vu ku dir_bytes_def)
    have h: "heap_inv s bs" using pre(1) by (simp add: fs_inv_def)
    have len: "length (block_bytes D s b) + length (dir_bytes D s ?tl) \<le> 4294967296"
      using f buffer_word [OF h assms(2)] length_block [OF pre(1,2), of b] length_dir_bytes [OF pre(1,2), of ?tl] by simp
    have "mem v = store_bytes (of_nat p + of_nat i) (block_bytes D s b @ dir_bytes D s ?tl) (mem s)"
      unfolding t(3) u(3) by (subst store_bytes_append [OF len]) (simp add: length_block [OF pre(1,2)] add.assoc)
    then show ?thesis using t(1) fs_to_trans [OF u(2) t(2)] False
      by (simp add: addr dir_bytes_def lv flip: u_def)
  qed (use pre in \<open>simp add: dir_bytes_def\<close>)
qed (simp add: dir_bytes_def)

text \<open>A directory in a buffer.\<close>

lemma load_directory_run:
  fixes s :: "'a ext3_state_scheme"
  assumes inv: "fs_inv D bs s" and lv: "(p, k) \<in> live HEAP bs" and m: "ext3_mounted s"
    and ok: "dir_ok room s ino" and fits: "unat (i_size ino) + unat (block_size s) \<le> k"
  defines "t \<equiv> load_directory ino (of_nat p) s"
  shows "fs_inv D bs t" "fs_to (live HEAP bs - {(p, k)}) s t"
    "x < unat (i_size ino) + unat (block_size s) \<Longrightarrow> mem t (of_nat p + of_nat x) = byte_window (dir_bytes D s (dir_blocks ino)) (of_nat x)"
proof -
  let ?N = "unat (i_size ino) + unat (block_size s)" and ?B = "dir_bytes D s (dir_blocks ino)"
  have h: "heap_inv s bs" using inv by (simp add: fs_inv_def)
  note w = buffer_word [OF h lv]
  have N: "?N < 4294967296" using fits w by simp
  then have un: "unat (i_size ino + block_size s) = ?N" by (rule unat_add_nowrap)
  define u where "u = memset (of_nat p) 0 (i_size ino + block_size s) s"
  have ud: "u = s\<lparr>mem := store_bytes (of_nat p + of_nat 0) (replicate ?N 0) (mem s)\<rparr>" by (simp add: u_def memset_stores un)
  have f0: "0 + length (replicate ?N (0 :: u8)) \<le> k" using fits by simp
  from buffer_store [OF inv lv f0] have u: "fs_inv D bs u" "fs_to (live HEAP bs - {(p, k)}) s u" by (simp_all only: ud)
  note vu = volume_kept [OF u(2)] and ku = ext3_kept [OF u(2)]
  have db: "dir_bytes D u = dir_bytes D s" by (simp add: dir_bytes_def fun_eq_iff vu)
  have ok': "\<forall>b\<in>set (dir_blocks ino). block_on_disk u b" "0 + length (dir_blocks ino) * unat (block_size u) \<le> k"
    using ok fits by (simp_all add: dir_ok_def vu ku)
  have "ext3_mounted u" using m by (simp add: vu)
  from load_dir_blocks_run [OF u(1) lv this, of "take 12 (i_block ino)" 0] ok'
  have t: "fs_inv D bs t" "fs_to (live HEAP bs - {(p, k)}) u t" "mem t = store_bytes (of_nat p) ?B (mem u)"
    by (simp_all add: t_def load_directory_def dir_blocks_def db flip: u_def)
  show "fs_inv D bs t" "fs_to (live HEAP bs - {(p, k)}) s t" using t(1) fs_to_trans [OF u(2) t(2)] by simp_all
  assume x: "x < ?N"
  then have "unat (of_nat x :: u32) = x" using N by (intro unat_of_nat_u32) simp
  then show "mem t (of_nat p + of_nat x) = byte_window ?B (of_nat x)"
    using x by (simp add: t(3) ud store_bytes_def byte_window_def)
qed

section \<open>The entries of a directory\<close>

text \<open>The walk along the record lengths to the first entry with the name; an unused entry ends it.\<close>

inductive dir_scan :: "memory \<Rightarrow> nat \<Rightarrow> bytes \<Rightarrow> nat \<Rightarrow> u32 option \<Rightarrow> bool" for w sz name where
  at_end: "sz \<le> i \<Longrightarrow> dir_scan w sz name i None"
| unused: "i < sz \<Longrightarrow> load32 w (of_nat i) = 0 \<Longrightarrow> dir_scan w sz name i None"
| hit: "i < sz \<Longrightarrow> load32 w (of_nat i) \<noteq> 0 \<Longrightarrow> entry_string w (of_nat i) = name \<Longrightarrow>
    dir_scan w sz name i (Some (load32 w (of_nat i)))"
| skip: "i < sz \<Longrightarrow> load32 w (of_nat i) \<noteq> 0 \<Longrightarrow> entry_string w (of_nat i) \<noteq> name \<Longrightarrow>
    dir_scan w sz name (i + unat (load16 w (of_nat i + 4))) r \<Longrightarrow> dir_scan w sz name i r"

definition agrees :: "memory \<Rightarrow> u32 \<Rightarrow> memory \<Rightarrow> nat \<Rightarrow> bool" where
  "agrees m a w n \<longleftrightarrow> (\<forall>x<n. m (a + of_nat x) = w (of_nat x))"

lemma agrees_loads:
  assumes "agrees m a w n" "i + 263 \<le> n"
  shows "load32 m (a + of_nat i) = load32 w (of_nat i)" "load16 m (a + of_nat i + 4) = load16 w (of_nat i + 4)"
    "entry_string m (a + of_nat i) = entry_string w (of_nat i)"
proof -
  have b: "m (a + (of_nat i + of_nat j)) = w (of_nat i + of_nat j)" if "j < 263" for j
    using assms that unfolding agrees_def by (metis add_less_cancel_left of_nat_add order_less_le_trans)
  show "load32 m (a + of_nat i) = load32 w (of_nat i)" "load16 m (a + of_nat i + 4) = load16 w (of_nat i + 4)"
    using b [of 0] b [of 1] b [of 2] b [of 3] b [of 4] b [of 5] by (simp_all add: load32_def load16_def add.assoc)
  have l: "m (a + of_nat i + 6) = w (of_nat i + 6)" using b [of 6] by (simp add: add.assoc)
  have "load_bytes m (a + of_nat i + 8) (unat (w (of_nat i + 6))) = load_bytes w (of_nat i + 8) (unat (w (of_nat i + 6)))"
  proof (rule nth_equalityI)
    fix j assume "j < length (load_bytes m (a + of_nat i + 8) (unat (w (of_nat i + 6))))"
    then have j: "j < unat (w (of_nat i + 6))" by simp
    then have "8 + j < 263" using u8_less_size [of "w (of_nat i + 6)"] by linarith
    from b [OF this] j show "load_bytes m (a + of_nat i + 8) (unat (w (of_nat i + 6))) ! j =
        load_bytes w (of_nat i + 8) (unat (w (of_nat i + 6))) ! j" by (simp add: add.assoc)
  qed simp
  then show "entry_string m (a + of_nat i) = entry_string w (of_nat i)" by (simp add: entry_string_def entry_name_def l)
qed

lemma scan_directory_run:
  assumes "dir_scan w (unat sz) name i r" "agrees (mem s) buf w (unat sz + 1024)" "unat sz + 65536 < 4294967296"
    and "i < unat sz + 65536"
  shows "\<exists>o' f. loop (\<lambda>(offset, r) s. r = None \<and> offset < sz)
       (\<lambda>(offset, r) s.
          let e = buf + offset in
          if load32 (mem s) e = 0 then Ret (offset, Some False) s
          else if entry_string (mem s) e = name then Ret (offset, Some True) s
          else Ret (offset + ucast (ed_rec_len (ext3_entry_at (mem s) e)), None) s) (of_nat i, None) s = Ret (o', f) s \<and>
     (case r of None \<Rightarrow> f \<noteq> Some True | Some n \<Rightarrow> f = Some True \<and> load32 (mem s) (buf + o') = n)"
  using assms(1,4)
proof (induction rule: dir_scan.induct)
  case (at_end i)
  then have "unat (of_nat i :: u32) = i" using assms(3) by (intro unat_of_nat_u32) linarith
  then show ?case using at_end by (simp add: u32_less_iff)
next
  case (unused i)
  then have "unat (of_nat i :: u32) = i" using assms(3) by (intro unat_of_nat_u32) linarith
  then show ?case using unused agrees_loads [OF assms(2), of i] by (simp add: u32_less_iff loop_step Let_def)
next
  case (hit i)
  then have "unat (of_nat i :: u32) = i" using assms(3) by (intro unat_of_nat_u32) linarith
  then show ?case using hit agrees_loads [OF assms(2), of i] by (simp add: u32_less_iff loop_step Let_def)
next
  case (skip i r)
  let ?l = "load16 w (of_nat i + 4)"
  have u: "unat (of_nat i :: u32) = i" using assms(3) skip.hyps(1) by (intro unat_of_nat_u32) linarith
  have l: "i + unat ?l < unat sz + 65536" using skip.hyps(1) u16_less_size [of ?l] by linarith
  have "unat (of_nat i + ucast ?l :: u32) = i + unat ?l" using u l assms(3) by (subst unat_add_nowrap) (simp_all add: unat_ucast_up)
  then have nxt: "of_nat (i + unat ?l) = (of_nat i + ucast ?l :: u32)" by (rule of_nat_unat)
  have rl: "ed_rec_len (ext3_entry_at (mem s) (buf + of_nat i)) = ?l"
    using agrees_loads(2) [OF assms(2), of i] skip.hyps(1) by (simp add: ext3_entry_at_def)
  show ?case using skip.IH [OF l] skip.hyps(1-3) agrees_loads [OF assms(2), of i] u
    unfolding nxt by (simp add: u32_less_iff loop_step Let_def rl)
qed

text \<open>What a name in a directory leads to.\<close>

definition dir_lookup :: "nat \<Rightarrow> (nat \<Rightarrow> bytes) \<Rightarrow> 'a ext3_state_scheme \<Rightarrow> u32 \<Rightarrow> bytes \<Rightarrow> u32 option \<Rightarrow> bool" where
  "dir_lookup room D s n name r \<longleftrightarrow> inode_ok D s n \<and> dir_ok room s (disk_inode D s n) \<and>
     dir_scan (byte_window (dir_bytes D s (dir_blocks (disk_inode D s n)))) (unat (i_size (disk_inode D s n))) name 0 r"

lemma can_take_one: "can_take [n] bs \<longleftrightarrow> (\<exists>m. (m, False) \<in> set bs \<and> round8 n \<le> m)"
proof -
  have "can_take [n] bs \<longleftrightarrow> alloc_blocks (round8 n) HEAP bs \<noteq> None" by (auto split: option.split)
  also have "\<dots> \<longleftrightarrow> (\<exists>m. (m, False) \<in> set bs \<and> round8 n \<le> m)"
    unfolding alloc_blocks_None by (fastforce simp: not_less)
  finally show ?thesis .
qed

lemma can_take_mono: "can_take [n] bs \<Longrightarrow> m \<le> n \<Longrightarrow> can_take [m] bs"
proof -
  assume "can_take [n] bs" "m \<le> n"
  moreover from this(2) have "round8 m \<le> round8 n" by (simp add: round8_def div_le_mono)
  ultimately show "can_take [m] bs" unfolding can_take_one by (meson order_trans)
qed

lemma block_le_len: "(m, u) \<in> set bs \<Longrightarrow> m \<le> blocks_len bs"
  by (induction bs) auto

lemma can_take_bound:
  assumes "fs_inv D bs s" "can_take [n] bs"
  shows "n \<le> 0x30000000"
proof -
  from assms(2) obtain m where m: "(m, False) \<in> set bs" "round8 n \<le> m" unfolding can_take_one by blast
  have "blocks_len bs \<le> 0x30000000" using assms(1) by (simp add: fs_inv_def heap_inv_def)
  with block_le_len [OF m(1)] m(2) round8_bounds(1) [of n] show ?thesis by linarith
qed

lemma find_dir_entry_run:
  fixes s :: "'a ext3_state_scheme"
  assumes inv: "fs_inv D bs s" and v: "ext3_volume s" and room: "can_take [room] bs" "unat (block_size s) \<le> room"
    and look: "dir_lookup room D s n name r"
  shows "\<exists>q t. find_dir_entry n name s = Ret q t \<and> map_option ed_inode q = r \<and> fs_inv D bs t \<and> fs_to (live HEAP bs) s t"
proof -
  let ?i = "disk_inode D s n"
  let ?N = "unat (i_size ?i) + unat (block_size s)" and ?w = "byte_window (dir_bytes D s (dir_blocks ?i))"
  have ok: "inode_ok D s n" "dir_ok room s ?i" and scan: "dir_scan ?w (unat (i_size ?i)) name 0 r"
    using look by (simp_all add: dir_lookup_def)
  have m: "ext3_mounted s" "ext3_initialized s" using v by (auto simp: ext3_volume_def ext3_mounted_def)
  note z = mounted_size [OF m(1)]
  have "can_take [unat (block_size s)] bs" by (rule can_take_mono [OF room])
  from read_inode_run [OF inv v this ok(1)] obtain q where q: "read_inode n None s = Ret (Some ?i) q" "fs_inv D bs q"
    "fs_to (live HEAP bs) s q" by blast
  note vq = volume_kept [OF q(3)] inode_kept [OF q(3)] and kq = ext3_kept [OF q(3)]
  have N: "?N \<le> room" using ok(2) by (simp add: dir_ok_def)
  have big: "?N \<le> 0xFFFFFFF8" and sz: "unat (i_size ?i) + 65536 < 4294967296"
    using N can_take_bound [OF inv room(1)] by simp_all
  have un: "unat (i_size ?i + block_size s) = ?N" using big by (intro unat_add_nowrap) simp
  have nz: "i_size ?i + block_size s \<noteq> 0" using un z(9) by (metis add_is_0 div_0 not_numeral_le_zero unat_0)
  have "can_take [unat (i_size ?i + block_size s)] bs" unfolding un by (rule can_take_mono [OF room(1) N])
  from buffer_scope [OF q(2) nz _ this] un big obtain p k cs t where t: "kmalloc (i_size ?i + block_size s) q = Ret (of_nat p) t" "fs_inv D cs t"
    "fs_to (live HEAP bs) q t" "(p, k) \<in> live HEAP cs" "?N \<le> k" "live HEAP cs - {(p, k)} = live HEAP bs"
    and free: "\<And>(u :: 'a ext3_state_scheme) F. fs_inv F cs u \<Longrightarrow> \<exists>w. kfree (of_nat p) u = Ret () w \<and> fs_inv F bs w \<and> fs_to (live HEAP bs) u w"
    by metis
  have st: "fs_to (live HEAP bs) s t" using q(3) t(3) by (rule fs_to_trans)
  note vt = volume_kept [OF st] and kt = ext3_kept [OF st]
  define u where "u = load_directory ?i (of_nat p) t"
  have dk: "dir_ok room t ?i" using ok(2) by (simp add: dir_ok_def vt kt)
  have mt: "ext3_mounted t" "?N = unat (i_size ?i) + unat (block_size t)" using m(1) by (simp_all add: vt kt)
  have db: "dir_bytes D t = dir_bytes D s" by (simp add: dir_bytes_def fun_eq_iff vt)
  from load_directory_run [OF t(2,4) mt(1) dk] t(5) mt(2)
  have u: "fs_inv D cs u" "fs_to (live HEAP bs) t u" "\<And>x. x < ?N \<Longrightarrow> mem u (of_nat p + of_nat x) = ?w (of_nat x)"
    by (simp_all add: u_def db t(6))
  have p0: "(of_nat p :: u32) \<noteq> 0" using t(2,4) buffer_word [of t cs p k] by (auto simp: fs_inv_def)
  have bs: "1024 \<le> unat (block_size s)" using m(1) by (auto simp: ext3_mounted_def)
  have ag: "agrees (mem u) (of_nat p) ?w (unat (i_size ?i) + 1024)" using u(3) bs by (simp add: agrees_def)
  from scan_directory_run [OF scan ag sz] obtain o' f where
    l: "scan_directory (\<lambda>m e. entry_string m e = name) (of_nat p) (i_size ?i) u = Ret (o', f = Some True) u"
    "case r of None \<Rightarrow> f \<noteq> Some True | Some n \<Rightarrow> f = Some True \<and> load32 (mem u) (of_nat p + o') = n"
    by (auto simp: scan_directory_def)
  let ?out = "if f = Some True then Some (ext3_entry_at (mem u) (of_nat p + o')) else None"
  from free [OF u(1)] obtain w where w: "kfree (of_nat p) u = Ret () w" "fs_inv D bs w" "fs_to (live HEAP bs) u w" by blast
  have "find_dir_entry n name s = Ret ?out w"
    using m(2) q(1) t(1) p0 l(1) w(1) kq by (simp add: find_dir_entry_def Let_def flip: u_def)
  moreover have "map_option ed_inode ?out = r" using l(2) by (auto simp: ext3_entry_at_def split: option.splits)
  ultimately show ?thesis using w(2) st u(2) w(3) by (blast intro: fs_to_trans)
qed

section \<open>Paths\<close>

text \<open>The inode a sequence of names leads to from an inode, for any lookup.\<close>

inductive path_in :: "('n \<Rightarrow> bytes \<Rightarrow> 'n option \<Rightarrow> bool) \<Rightarrow> ('n \<Rightarrow> bool) \<Rightarrow> ('n \<Rightarrow> bool) \<Rightarrow> 'n \<Rightarrow> bytes list \<Rightarrow> 'n option \<Rightarrow> bool"
  for look usable is_dir where
  missing: "look c x None \<Longrightarrow> path_in look usable is_dir c (x # xs) None"
| found: "look c x (Some m) \<Longrightarrow> usable m \<Longrightarrow> path_in look usable is_dir c [x] (Some m)"
| not_directory: "look c x (Some m) \<Longrightarrow> usable m \<Longrightarrow> \<not> is_dir m \<Longrightarrow> xs \<noteq> [] \<Longrightarrow> path_in look usable is_dir c (x # xs) None"
| descend: "look c x (Some m) \<Longrightarrow> usable m \<Longrightarrow> is_dir m \<Longrightarrow> xs \<noteq> [] \<Longrightarrow> path_in look usable is_dir m xs r \<Longrightarrow>
    path_in look usable is_dir c (x # xs) r"

inductive_cases path_in_Cons: "path_in look usable is_dir c (x # xs) r"

definition ext3_path :: "nat \<Rightarrow> (nat \<Rightarrow> bytes) \<Rightarrow> 'a ext3_state_scheme \<Rightarrow> u32 \<Rightarrow> bytes list \<Rightarrow> u32 option \<Rightarrow> bool" where
  "ext3_path room D s = path_in (dir_lookup room D s) (inode_ok D s) (\<lambda>m. i_mode (disk_inode D s m) AND 0x4000 \<noteq> 0)"

text \<open>The inode of a path: the root is inode 2.\<close>

definition ext3_resolves :: "nat \<Rightarrow> (nat \<Rightarrow> bytes) \<Rightarrow> 'a ext3_state_scheme \<Rightarrow> bytes \<Rightarrow> u32 option \<Rightarrow> bool" where
  "ext3_resolves room D s path r \<longleftrightarrow>
     (if components path = [] then r = Some 2 \<and> inode_ok D s 2 else ext3_path room D s 2 (components path) r)"

lemma path_kept:
  assumes "fs_to L s t"
  shows "ext3_path room D t = ext3_path room D s"
proof -
  note k = volume_kept [OF assms] inode_kept [OF assms] ext3_kept [OF assms]
  have "dir_bytes D t = dir_bytes D s" by (simp add: dir_bytes_def fun_eq_iff k)
  moreover have "dir_ok room t = dir_ok room s" by (simp add: dir_ok_def fun_eq_iff k)
  ultimately have "dir_lookup room D t = dir_lookup room D s" by (simp add: dir_lookup_def fun_eq_iff k)
  then show ?thesis by (simp add: ext3_path_def k)
qed

lemma ext3_walk_run:
  fixes s :: "'a ext3_state_scheme"
  assumes "fs_inv D bs s" "ext3_volume s" "can_take [room] bs" "unat (block_size s) \<le> room"
    and "ext3_path room D s c (components p) r" "p \<noteq> []" "last p \<noteq> 0x2F"
  shows "\<exists>t. ext3_walk c p out s = Ret (map_option (\<lambda>m. (Some (disk_inode D s m), m)) r) t \<and> fs_inv D bs t \<and> fs_to (live HEAP bs) s t"
  using assms
proof (induction "length p" arbitrary: p c s r rule: less_induct)
  case less
  define i where "i = str_index p 0x2F"
  define token where "token = (case i of Some i \<Rightarrow> take i p | None \<Rightarrow> p)"
  define rest where "rest = (case i of Some i \<Rightarrow> drop (Suc i) p | None \<Rightarrow> [])"
  have rest: "length rest < length p" "rest \<noteq> [] \<Longrightarrow> last rest \<noteq> 0x2F"
    using less.prems(6,7) by (auto simp: rest_def split: option.splits)
  have walk: "ext3_walk c p out s =
      (if token = [] then (if i = None then Ret None s else ext3_walk c rest out s)
       else bind (find_dir_entry c token s) (\<lambda>r s.
         case r of None \<Rightarrow> Ret None s
         | Some ent \<Rightarrow>
             if i = None \<or> rest = [] then bind (read_inode (ed_inode ent) out s) (\<lambda>i s. Ret (Some (i, ed_inode ent)) s)
             else bind (read_inode (ed_inode ent) None s) (\<lambda>dir s.
               case dir of None \<Rightarrow> Fault
               | Some dir \<Rightarrow> if i_mode dir AND 0x4000 = 0 then Ret None s else ext3_walk (ed_inode ent) rest out s)))"
    using less.prems(6) by (subst ext3_walk.simps) (simp only: Let_def if_False flip: i_def token_def rest_def)
  have comps: "components p = (if token = [] then [] else [token]) @ (if i = None then [] else components rest)"
    unfolding components_def by (subst tokens_index) (auto simp: i_def token_def rest_def split: option.split)
  show ?case
  proof (cases "token = []")
    case True
    then have "i \<noteq> None" using less.prems(6) by (cases i) (auto simp: token_def)
    moreover have "rest \<noteq> []"
      using True less.prems(7) \<open>i \<noteq> None\<close> less.prems(6) str_index_Some [of p "0x2F"]
      by (cases p) (auto simp: token_def rest_def i_def split: if_splits option.splits)
    ultimately show ?thesis
      using less.hyps [OF rest(1) less.prems(1-4) _ _ rest(2)] less.prems(5) True walk comps by auto
  next
    case False
    define ns where "ns = (if i = None then [] else components rest)"
    have ns: "ns = [] \<longleftrightarrow> i = None \<or> rest = []"
      using components_nonempty [OF _ rest(2)] by (auto simp: ns_def components_def)
    have nsr: "ns \<noteq> [] \<Longrightarrow> ns = components rest" by (auto simp: ns_def)
    have small: "can_take [unat (block_size s)] bs" by (rule can_take_mono [OF less.prems(3,4)])
    have find: "\<exists>e t. find_dir_entry c token s = Ret e t \<and> map_option ed_inode e = q \<and> fs_inv D bs t \<and> fs_to (live HEAP bs) s t"
      if "dir_lookup room D s c token q" for q using find_dir_entry_run [OF less.prems(1-4) that] .
    have inode: "\<exists>u. read_inode m out' t = Ret (Some (disk_inode D s m)) u \<and> fs_inv D bs u \<and> fs_to (live HEAP bs) t u"
      if "inode_ok D s m" "fs_inv D bs t" "fs_to (live HEAP bs) s t" for m out' and t :: "'a ext3_state_scheme"
      using read_inode_run [OF that(2), of m out'] less.prems(2) small that(1)
      by (simp add: inode_kept [OF that(3)] ext3_kept [OF that(3)])
    have path: "ext3_path room D s c (token # ns) r" using less.prems(5) comps False by (simp add: ns_def)
    then show ?thesis unfolding ext3_path_def
    proof (rule path_in_Cons)
      assume "r = None" "dir_lookup room D s c token None"
      with find [of None] walk False show ?thesis by auto
    next
      fix m assume a: "ns = []" "r = Some m" "dir_lookup room D s c token (Some m)" "inode_ok D s m"
      from find [OF a(3)] obtain e t where t: "find_dir_entry c token s = Ret (Some e) t" "ed_inode e = m" "fs_inv D bs t" "fs_to (live HEAP bs) s t"
        by auto
      from inode [OF a(4) t(3,4), of out] obtain u where "read_inode m out t = Ret (Some (disk_inode D s m)) u" "fs_inv D bs u"
        "fs_to (live HEAP bs) t u" by blast
      then show ?thesis using walk False t ns a(1,2) by (auto intro: fs_to_trans)
    next
      fix m assume a: "r = None" "dir_lookup room D s c token (Some m)" "inode_ok D s m"
        "\<not> i_mode (disk_inode D s m) AND 0x4000 \<noteq> 0" "ns \<noteq> []"
      from find [OF a(2)] obtain e t where t: "find_dir_entry c token s = Ret (Some e) t" "ed_inode e = m" "fs_inv D bs t" "fs_to (live HEAP bs) s t"
        by auto
      from inode [OF a(3) t(3,4), of None] obtain u where "read_inode m None t = Ret (Some (disk_inode D s m)) u" "fs_inv D bs u"
        "fs_to (live HEAP bs) t u" by blast
      then show ?thesis using walk False t ns a(1,4,5) by (auto intro: fs_to_trans)
    next
      fix m assume a: "dir_lookup room D s c token (Some m)" "inode_ok D s m"
        "i_mode (disk_inode D s m) AND 0x4000 \<noteq> 0" "ns \<noteq> []"
        "path_in (dir_lookup room D s) (inode_ok D s) (\<lambda>m. i_mode (disk_inode D s m) AND 0x4000 \<noteq> 0) m ns r"
      from find [OF a(1)] obtain e t where t: "find_dir_entry c token s = Ret (Some e) t" "ed_inode e = m" "fs_inv D bs t" "fs_to (live HEAP bs) s t"
        by auto
      from inode [OF a(2) t(3,4), of None] obtain u where u: "read_inode m None t = Ret (Some (disk_inode D s m)) u" "fs_inv D bs u"
        "fs_to (live HEAP bs) t u" by blast
      have su: "fs_to (live HEAP bs) s u" using t(4) u(3) by (rule fs_to_trans)
      have "ext3_path room D s m (components rest) r" using a(5) nsr [OF a(4)] by (simp add: ext3_path_def)
      then have pu: "ext3_path room D u m (components rest) r" by (simp add: path_kept [OF su])
      have vu: "ext3_volume u" "unat (block_size u) \<le> room" using less.prems(2,4) by (simp_all add: inode_kept [OF su] ext3_kept [OF su])
      have rne: "rest \<noteq> []" using ns a(4) by simp
      from less.hyps [OF rest(1) u(2) vu(1) less.prems(3) vu(2) pu rne rest(2) [OF rne]] obtain w where
        w: "ext3_walk m rest out u = Ret (map_option (\<lambda>m. (Some (disk_inode D s m), m)) r) w" "fs_inv D bs w" "fs_to (live HEAP bs) u w"
        by (auto simp: inode_kept [OF su])
      then show ?thesis using walk False t ns a(3,4) u su by (auto intro: fs_to_trans)
    qed
  qed
qed

lemma ext3_find_file_run:
  fixes s :: "'a ext3_state_scheme"
  assumes "fs_inv D bs s" "ext3_volume s" "can_take [room] bs" "unat (block_size s) \<le> room"
    and "length (skip_slash path) < 256" "ext3_resolves room D s path r"
  shows "\<exists>t. ext3_find_file path out s = Ret (map_option (\<lambda>m. (Some (disk_inode D s m), m)) r) t \<and> fs_inv D bs t \<and> fs_to (live HEAP bs) s t"
proof -
  let ?p = "strip_slashes (skip_slash path)"
  have comps: "components ?p = components path" by (simp add: components_strip components_skip)
  have "ext3_initialized s" using assms(2) by (simp add: ext3_volume_def ext3_mounted_def)
  then have find: "ext3_find_file path out s = (if ?p = [] then bind (read_inode 2 out s) (\<lambda>i s. Ret (Some (i, 2)) s) else ext3_walk 2 ?p out s)"
    using assms(5) by (simp add: ext3_find_file_def Let_def)
  show ?thesis
  proof (cases "?p = []")
    case True
    then have "components path = []" using comps by (simp add: components_def)
    then have "r = Some 2" "inode_ok D s 2" using assms(6) by (simp_all add: ext3_resolves_def)
    then show ?thesis using find True read_inode_run [OF assms(1,2) can_take_mono [OF assms(3,4)], of 2 out] by auto
  next
    case False
    have last: "last ?p \<noteq> 0x2F" by (rule strip_slashes_last [OF False])
    from components_nonempty [OF False this] have "ext3_path room D s 2 (components ?p) r"
      using assms(6) comps by (simp add: ext3_resolves_def)
    from ext3_walk_run [OF assms(1-4) this False last] show ?thesis using find False by simp
  qed
qed

section \<open>The bytes of an inode\<close>

lemma store_slice:
  assumes "k + n \<le> length bs" "length bs \<le> 4294967296"
  shows "load_bytes (store_bytes 0 bs m) (of_nat k) n = take n (drop k bs)"
proof (rule nth_equalityI)
  fix i assume "i < length (load_bytes (store_bytes 0 bs m) (of_nat k) n)"
  then have "i < n" by simp
  moreover from this have "unat (of_nat k + of_nat i :: u32) = k + i"
    using assms unat_of_nat_u32 [of "k + i"] by simp
  ultimately show "load_bytes (store_bytes 0 bs m) (of_nat k) n ! i = take n (drop k bs) ! i"
    using assms by (simp add: store_bytes_def)
qed (use assms in simp)

lemma slice32: "take 4 (drop k bs) = le32 v \<Longrightarrow> k + 4 \<le> length bs \<Longrightarrow> length bs \<le> 4294967296 \<Longrightarrow>
    load32 (store_bytes 0 bs m) (of_nat k) = v"
  using store_slice [of k 4 bs m] by (simp add: load32_bytes le32_def of_le32_split)

lemma slice16: "take 2 (drop k bs) = le16 v \<Longrightarrow> k + 2 \<le> length bs \<Longrightarrow> length bs \<le> 4294967296 \<Longrightarrow>
    load16 (store_bytes 0 bs m) (of_nat k) = v"
  using store_slice [of k 2 bs m] by (simp add: load16_bytes le16_def of_le16_split)

lemma length_words_le [simp]: "length (words_le ws) = 4 * length ws"
  by (induction ws) (simp_all add: words_le_def)

lemma words_le_slice: "i < length ws \<Longrightarrow> take 4 (drop (4 * i) (words_le ws @ xs)) = le32 (ws ! i)"
proof (induction ws arbitrary: i)
  case (Cons w ws)
  show ?case
  proof (cases i)
    case 0
    then show ?thesis by (simp add: words_le_def)
  next
    case (Suc j)
    with Cons.IH [of j] Cons.prems show ?thesis by (simp add: words_le_def)
  qed
qed simp

lemma inode_bytes_back:
  assumes "length (i_block ino) = 15" "length (i_osd2 ino) = 12"
  shows "inode_of_bytes (inode_bytes ino) = ino"
proof -
  let ?bs = "inode_bytes ino" and ?m = "store_bytes 0 (inode_bytes ino) (\<lambda>_. 0)"
  have len: "length ?bs = 128" using assms by (simp add: inode_bytes_def)
  note d = inode_bytes_def
  have "take 4 (drop (40 + 4 * i) ?bs) = le32 (i_block ino ! i)" if "i < 15" for i
  proof -
    have "drop 40 ?bs = words_le (i_block ino) @ le32 (i_generation ino) @ le32 (i_file_acl ino) @ le32 (i_dir_acl ino) @ le32 (i_faddr ino) @ i_osd2 ino"
      by (simp add: d)
    then have "drop (40 + 4 * i) ?bs = drop (4 * i) (words_le (i_block ino) @ le32 (i_generation ino) @ le32 (i_file_acl ino) @ le32 (i_dir_acl ino) @ le32 (i_faddr ino) @ i_osd2 ino)"
      by (metis add.commute drop_drop)
    then show ?thesis using words_le_slice [of i "i_block ino"] that assms(1) by simp
  qed
  then have w: "load32 ?m (of_nat (40 + 4 * i)) = i_block ino ! i" if "i < 15" for i
    using that len by (intro slice32) simp_all
  have ws: "load_words ?m (0 + 40) 15 = i_block ino"
  proof (rule nth_equalityI)
    fix i assume "i < length (load_words ?m (0 + 40) 15)"
    then have i: "i < 15" by (simp add: load_words_def)
    then show "load_words ?m (0 + 40) 15 ! i = i_block ino ! i" using w [OF i] by (simp add: load_words_def)
  qed (simp add: load_words_def assms)
  have os: "load_bytes ?m (of_nat 116) 12 = i_osd2 ino" using len assms by (subst store_slice) (simp_all add: d)
  have v16: "load16 ?m (of_nat 0) = i_mode ino" "load16 ?m (of_nat 2) = i_uid ino" "load16 ?m (of_nat 24) = i_gid ino"
    "load16 ?m (of_nat 26) = i_links_count ino"
    by (rule slice16; use len assms in \<open>simp add: d\<close>)+
  have v32: "load32 ?m (of_nat 4) = i_size ino" "load32 ?m (of_nat 8) = i_atime ino" "load32 ?m (of_nat 12) = i_ctime ino"
    "load32 ?m (of_nat 16) = i_mtime ino" "load32 ?m (of_nat 20) = i_dtime ino" "load32 ?m (of_nat 28) = i_blocks ino"
    "load32 ?m (of_nat 32) = i_ext_flags ino" "load32 ?m (of_nat 36) = i_osd1 ino" "load32 ?m (of_nat 100) = i_generation ino"
    "load32 ?m (of_nat 104) = i_file_acl ino" "load32 ?m (of_nat 108) = i_dir_acl ino" "load32 ?m (of_nat 112) = i_faddr ino"
    by (rule slice32; use len assms in \<open>simp add: d\<close>)+
  show ?thesis unfolding inode_of_bytes_def inode_at_def using ws os v16 v32 by simp
qed

section \<open>A volume with two files\<close>

text \<open>A volume with blocks of 1024 bytes: the group descriptors in block 2, the inodes in block 3, the root directory
  in block 4, an indirect block in block 5, and the other sectors filled with their numbers. Its files
  are \<^verbatim>\<open>/a\<close>, a regular file of 5 bytes in block 100, and \<^verbatim>\<open>/d\<close>, a directory of 13000 bytes in blocks 100 to 112.\<close>

definition demo_inode :: "u16 \<Rightarrow> u32 \<Rightarrow> u32 list \<Rightarrow> EXT3_INODE" where
  "demo_inode mode sz blocks = (inode_at (\<lambda>_. 0) 0)\<lparr>i_mode := mode, i_size := sz, i_block := blocks @ replicate (15 - length blocks) 0\<rparr>"

definition ext3_root :: EXT3_INODE where "ext3_root = demo_inode 0x41ED 1024 [4]"
definition ext3_a :: EXT3_INODE where "ext3_a = demo_inode 0x81A4 5 [100]"
definition ext3_d :: EXT3_INODE where
  "ext3_d = demo_inode 0x41ED 13000 (map (\<lambda>n. 100 + of_nat n) [0..<12] @ [5])"

definition ext3_demo_disk :: "nat \<Rightarrow> bytes" where
  "ext3_demo_disk i =
     (if i = 4 then replicate 8 0 @ le32 3 @ replicate 500 0
      else if i = 6 then replicate 128 0 @ inode_bytes ext3_root @ inode_bytes ext3_a @ inode_bytes ext3_d
      else if i = 8 then ext3_entry_bytes 3 12 1 (str ''a'') @ [0, 0, 0] @ ext3_entry_bytes 4 12 2 (str ''d'') @ replicate 491 0
      else if i = 9 then replicate 512 0
      else if i = 10 then le32 112 @ replicate 508 0
      else replicate 512 (of_nat i))"

definition ext3_demo :: ext3_state where
  "ext3_demo = fat32_state.extend (demo_volume\<lparr>dev := ata \<lparr>at_count = 0, at_low = 0, at_mid = 0, at_high = 0, at_drive = 0, at_in = [],
     at_left = 0, at_out = 0, at_buf = [], at_sectors = ext3_demo_disk\<rparr>\<rparr>)
     (ext3_state.fields (superblock_at (\<lambda>_. 0) 0) True 1024 128 128 8192 1 1 0 0 [])"

lemma ext3_demo: "fs_inv ext3_demo_disk [(0xFFEF, False)] ext3_demo" "ext3_volume ext3_demo"
  "block_size ext3_demo = 1024" "partition_offset ext3_demo = 0" "inodes_per_group ext3_demo = 128"
proof -
  have "length (inode_bytes i) = 128" if "i \<in> {ext3_root, ext3_a, ext3_d}" for i
    using that by (auto simp: ext3_root_def ext3_a_def ext3_d_def demo_inode_def inode_bytes_def inode_at_def)
  then have "\<forall>i. length (ext3_demo_disk i) = 512" by (simp add: ext3_demo_disk_def ext3_entry_bytes_def str_def)
  moreover have "dev ext3_demo = ata \<lparr>at_count = 0, at_low = 0, at_mid = 0, at_high = 0, at_drive = 0, at_in = [],
     at_left = 0, at_out = 0, at_buf = [], at_sectors = ext3_demo_disk\<rparr>"
    by (simp add: ext3_demo_def fat32_state.extend_def)
  ultimately have "ata_ready ext3_demo_disk ext3_demo" unfolding ata_ready_def by fastforce
  moreover have "heap_inv ext3_demo [(0xFFEF, False)]" using demo_volume_inv(1)
    by (simp add: fs_inv_def heap_inv_def ext3_demo_def fat32_state.extend_def)
  ultimately show "fs_inv ext3_demo_disk [(0xFFEF, False)] ext3_demo" by (simp add: fs_inv_def)
  show "ext3_volume ext3_demo" "block_size ext3_demo = 1024" "partition_offset ext3_demo = 0" "inodes_per_group ext3_demo = 128"
    by (simp_all add: ext3_volume_def ext3_mounted_def block_on_disk_def block_sector_def ext3_demo_def fat32_state.extend_def
      ext3_state.fields_def)
qed

lemma ext3_demo_block:
  "block_bytes D ext3_demo b = D (2 * unat b) @ D (2 * unat b + 1)" "block_on_disk ext3_demo b \<longleftrightarrow> 2 * unat b + 2 \<le> 268435456"
  by (simp_all add: ext3_demo(3,4) block_bytes_def block_on_disk_def block_sector_def sectors_def upt_rec mult.commute)

lemma demo_inode_bytes:
  assumes "i \<in> {ext3_root, ext3_a, ext3_d}"
  shows "length (inode_bytes i) = 128" "inode_at (store_bytes 0 (inode_bytes i) (\<lambda>_. 0)) 0 = i"
proof -
  have l: "length (i_block i) = 15" "length (i_osd2 i) = 12"
    using assms by (auto simp: ext3_root_def ext3_a_def ext3_d_def demo_inode_def inode_at_def)
  then show "length (inode_bytes i) = 128" by (simp add: inode_bytes_def)
  show "inode_at (store_bytes 0 (inode_bytes i) (\<lambda>_. 0)) 0 = i" using inode_bytes_back [OF l] by (simp add: inode_of_bytes_def)
qed

lemma ext3_demo_inodes:
  "disk_inode ext3_demo_disk ext3_demo 2 = ext3_root" "disk_inode ext3_demo_disk ext3_demo 3 = ext3_a"
  "disk_inode ext3_demo_disk ext3_demo 4 = ext3_d"
  "inode_ok ext3_demo_disk ext3_demo 2" "inode_ok ext3_demo_disk ext3_demo 3" "inode_ok ext3_demo_disk ext3_demo 4"
proof -
  let ?B = "block_bytes ext3_demo_disk ext3_demo"
  have "load32 (byte_window (?B 2)) (of_nat 8) = 3"
    unfolding byte_window_def by (rule slice32) (simp_all add: ext3_demo_block ext3_demo_disk_def)
  then have blk: "inode_block ext3_demo_disk ext3_demo n = 3" if "n \<in> {2, 3, 4}" for n
    using that by (auto simp: inode_block_def inode_group_def table_offset_def ext3_demo(3,5))
  show "inode_ok ext3_demo_disk ext3_demo 2" "inode_ok ext3_demo_disk ext3_demo 3" "inode_ok ext3_demo_disk ext3_demo 4"
    using blk by (simp_all add: inode_ok_def inode_group_def ext3_demo(3,5) ext3_demo_block)
  have at: "inode_at (byte_window (?B 3)) (of_nat k) = i"
    if "i \<in> {ext3_root, ext3_a, ext3_d}" "take 128 (drop k (?B 3)) = inode_bytes i" "k \<le> 384" for i k
  proof -
    have len: "length (?B 3) = 1024" using demo_inode_bytes(1) by (simp add: ext3_demo_block ext3_demo_disk_def)
    have "load_bytes (byte_window (?B 3)) (of_nat k) 128 = load_bytes (store_bytes 0 (inode_bytes i) (\<lambda>_. 0)) (of_nat 0) 128"
      unfolding byte_window_def using that(2,3) len demo_inode_bytes(1) [OF that(1)] by (subst (1 2) store_slice) simp_all
    from inode_cong [OF this] demo_inode_bytes(2) [OF that(1)] show ?thesis by simp
  qed
  have "take 128 (drop 128 (?B 3)) = inode_bytes ext3_root" "take 128 (drop 256 (?B 3)) = inode_bytes ext3_a"
    "take 128 (drop 384 (?B 3)) = inode_bytes ext3_d"
    using demo_inode_bytes(1) by (simp_all add: ext3_demo_block ext3_demo_disk_def)
  with at [of ext3_root 128] at [of ext3_a 256] at [of ext3_d 384]
  show "disk_inode ext3_demo_disk ext3_demo 2 = ext3_root" "disk_inode ext3_demo_disk ext3_demo 3 = ext3_a"
    "disk_inode ext3_demo_disk ext3_demo 4 = ext3_d"
    using blk by (simp_all add: disk_inode_def table_offset_def ext3_demo(3,5))
qed

lemma ext3_demo_paths:
  "ext3_resolves 2048 ext3_demo_disk ext3_demo (str ''/a'') (Some 3)" "ext3_resolves 2048 ext3_demo_disk ext3_demo (str ''/d'') (Some 4)"
proof -
  define w where "w = byte_window (block_bytes ext3_demo_disk ext3_demo 4)"
  have ws: "load32 w (of_nat 0) = 3" "entry_string w (of_nat 0) = str ''a''" "load16 w (of_nat 0 + 4) = 12"
    "load32 w (of_nat 12) = 4" "entry_string w (of_nat 12) = str ''d''"
    unfolding w_def ext3_demo_block by code_simp+
  have root: "dir_blocks ext3_root = [4]" "unat (i_size ext3_root) = 1024" "dir_ok 2048 ext3_demo ext3_root"
    by (simp_all add: dir_ok_def dir_blocks_def ext3_root_def demo_inode_def ext3_demo(3) ext3_demo_block)
  have look: "dir_lookup 2048 ext3_demo_disk ext3_demo 2 name r" if "dir_scan w 1024 name 0 r" for name r
    using that root by (simp add: dir_lookup_def ext3_demo_inodes dir_bytes_def w_def)
  have ne: "str ''a'' \<noteq> str ''d''" by (simp add: str_def)
  have a: "dir_scan w 1024 (str ''a'') 0 (Some 3)" using dir_scan.hit [of 0 1024 w "str ''a''"] ws(1,2) by simp
  have "dir_scan w 1024 (str ''d'') 12 (Some 4)" using dir_scan.hit [of 12 1024 w "str ''d''"] ws(4,5) by simp
  then have d: "dir_scan w 1024 (str ''d'') 0 (Some 4)"
    using dir_scan.skip [of 0 1024 w "str ''d''" "Some 4"] ws(1-3) ne by simp
  have c: "components (str ''/a'') = [str ''a'']" "components (str ''/d'') = [str ''d'']" by code_simp+
  show "ext3_resolves 2048 ext3_demo_disk ext3_demo (str ''/a'') (Some 3)" "ext3_resolves 2048 ext3_demo_disk ext3_demo (str ''/d'') (Some 4)"
    by (simp_all add: ext3_resolves_def ext3_path_def c) (rule path_in.found; simp add: look a d ext3_demo_inodes)+
qed

section \<open>The property\<close>

text \<open>What \<^verbatim>\<open>ext3_read_file\<close> puts into the buffer for an inode.\<close>

definition file_contents :: "(nat \<Rightarrow> bytes) \<Rightarrow> 'a ext3_state_scheme \<Rightarrow> EXT3_INODE \<Rightarrow> nat \<Rightarrow> bytes" where
  "file_contents D s ino m = take (unat (i_size ino))
     (if i_mode ino AND 0xA000 = 0 then file_bytes D s ino m
      else if i_size ino < 60 then words_le (i_block ino)
      else block_bytes D s (i_block ino ! 0))"

text \<open>The blocks it reads are on the disk, and \<open>m\<close> of them cover the file.\<close>

definition file_readable :: "(nat \<Rightarrow> bytes) \<Rightarrow> 'a ext3_state_scheme \<Rightarrow> EXT3_INODE \<Rightarrow> nat \<Rightarrow> bool" where
  "file_readable D s ino m \<longleftrightarrow>
     (if i_mode ino AND 0xA000 = 0 then file_ok D s ino m \<and> unat (i_size ino) \<le> m * unat (block_size s)
      else 60 \<le> i_size ino \<longrightarrow> block_on_disk s (i_block ino ! 0) \<and> i_size ino \<le> block_size s)"

text \<open>The first block alone.\<close>

lemma read_first_block_run:
  fixes s :: "'a ext3_state_scheme"
  assumes inv: "fs_inv D bs s" and m: "ext3_mounted s" and room: "can_take [unat (block_size s)] bs"
    and b: "block_on_disk s b" and sz: "n \<le> block_size s" and lv: "(x, l) \<in> live HEAP bs" "unat n \<le> l"
  shows "\<exists>t. bind (kmalloc (block_size s) s) (\<lambda>buf s. if buf = 0 then Ret 0 s else
        let s = read_block b buf s; s = memcpy (of_nat x) buf n s in bind (kfree buf s) (\<lambda>_ s. Ret n s)) = Ret n t \<and>
      load_bytes (mem t) (of_nat x) (unat n) = take (unat n) (block_bytes D s b) \<and> fs_inv D bs t \<and> fs_to (live HEAP bs - {(x, l)}) s t"
proof -
  let ?rest = "live HEAP bs - {(x, l)}"
  note z = mounted_size [OF m]
  have nb: "unat n \<le> unat (block_size s)" using sz by (simp add: u32_le_iff)
  from buffer_scope [OF inv z(1,2) room] obtain p k cs t where t: "kmalloc (block_size s) s = Ret (of_nat p) t" "fs_inv D cs t"
    "fs_to (live HEAP bs) s t" "(p, k) \<in> live HEAP cs" "unat (block_size s) \<le> k" "live HEAP cs - {(p, k)} = live HEAP bs"
    and free: "\<And>(u :: 'a ext3_state_scheme) F. fs_inv F cs u \<Longrightarrow> \<exists>w. kfree (of_nat p) u = Ret () w \<and> fs_inv F bs w \<and> fs_to (live HEAP bs) u w"
    by metis
  note vt = volume_kept [OF t(3)] and kt = ext3_kept [OF t(3)]
  have xl: "(x, l) \<in> live HEAP cs" "(p, k) \<noteq> (x, l)" using lv(1) t(6) by blast+
  define u where "u = read_block b (of_nat p) t"
  have u: "fs_inv D cs u" "fs_to (live HEAP bs) t u" "load_bytes (mem u) (of_nat p) (unat (block_size s)) = block_bytes D s b"
    using read_block_run [OF t(2,4), of b] m b t(5) by (simp_all add: u_def vt kt t(6))
  have f: "unat n \<le> k" "0 + unat n \<le> l" using nb t(5) lv(2) by linarith+
  define v where "v = memcpy (of_nat x) (of_nat p) n u"
  from buffer_copy [OF u(1) t(4) xl f]
  have v: "fs_inv D cs v" "fs_to (live HEAP cs - {(x, l)}) u v" "load_bytes (mem v) (of_nat x) (unat n) = load_bytes (mem u) (of_nat p) (unat n)"
    by (simp_all add: v_def)
  from free [OF v(1)] obtain w where w: "kfree (of_nat p) v = Ret () w" "fs_inv D bs w" "fs_to (live HEAP bs) v w" by blast
  have p0: "(of_nat p :: u32) \<noteq> 0" using t(2,4) buffer_word [of t cs p k] by (auto simp: fs_inv_def)
  have sub: "?rest \<subseteq> live HEAP bs" "?rest \<subseteq> live HEAP cs - {(x, l)}" using t(6) by blast+
  have "fs_to ?rest s w"
    using fs_to_mono [OF t(3) sub(1)] fs_to_mono [OF u(2) sub(1)] fs_to_mono [OF v(2) sub(2)] fs_to_mono [OF w(3) sub(1)]
    by (fast intro: fs_to_trans)
  moreover have "load_bytes (mem w) (of_nat x) (unat n) = take (unat n) (block_bytes D s b)"
  proof -
    have "x + l \<le> 4294967296" "0 < x" using inv lv(1) buffer_word [of s bs x l] by (simp_all add: fs_inv_def)
    from fs_to_load [OF w(3) lv(1) this(1) lv(2) this(2)] show ?thesis
      using load_bytes_sub [of 0 "unat n" "unat (block_size s)" "mem u" "of_nat p"] nb by (simp add: v(3) u(3))
  qed
  ultimately show ?thesis using t(1) p0 w(1,2) by (simp flip: u_def v_def)
qed

text \<open>The volume after a buffer is allocated, for the witness.\<close>

lemma ext3_demo_buffer:
  assumes "n \<in> {8, 13000}"
  obtains s where "kmalloc n ext3_demo = Ret 0xD0000011 s" "fs_inv ext3_demo_disk [(unat n, True), (0xFFEF - 17 - unat n, False)] s"
    "fs_to {} ext3_demo s"
proof -
  let ?bs = "[(unat n, True), (0xFFEF - 17 - unat n, False)]"
  have h: "heap_inv ext3_demo [(0xFFEF, False)]" "ata_ready ext3_demo_disk ext3_demo" using ext3_demo(1) by (simp_all add: fs_inv_def)
  have n: "n \<noteq> 0" "unat n \<le> 0xFFFFFFF8" "alloc_blocks (round8 (unat n)) HEAP [(0xFFEF, False)] = Some (HEAP + 17, ?bs)"
    using assms by (auto simp: round8_def split_sizes_def)
  from kmalloc_fit [OF h(1) n] obtain s where s: "kmalloc n ext3_demo = Ret 0xD0000011 s" "heap_inv s ?bs" "only_mem ext3_demo s" by auto
  show ?thesis
  proof (rule that [OF s(1)])
    show "fs_inv ext3_demo_disk ?bs s" using s(2) h(2) ata_ready_cong [OF only_mem_dev [OF s(3)]] by (simp add: fs_inv_def)
    show "fs_to {} ext3_demo s" using s(3) by (simp add: fs_to_def io_only_mem payload_kept_def)
  qed
qed

lemma ext3_demo_d:
  "file_readable ext3_demo_disk ext3_demo ext3_d 13"
  "file_bytes ext3_demo_disk ext3_demo ext3_d 13 =
     concat (map (\<lambda>n. replicate 512 (of_nat (200 + 2 * n)) @ replicate 512 (of_nat (201 + 2 * n))) [0..<13])"
proof -
  have "load32 (byte_window (block_bytes ext3_demo_disk ext3_demo 5)) (of_nat 0) = 112"
    unfolding byte_window_def by (rule slice32) (simp_all add: ext3_demo_block ext3_demo_disk_def)
  then have e: "block_entry ext3_demo_disk ext3_demo 5 0 = 112" by (simp add: block_entry_def)
  have bl: "i_block ext3_d = map (\<lambda>n. 100 + of_nat n) [0..<12] @ [5, 0, 0]" "length (map (\<lambda>n. 100 + of_nat n :: u32) [0..<12]) = 12"
    by (simp_all add: ext3_d_def demo_inode_def numeral_eq_Suc)
  have fb: "file_block ext3_demo_disk ext3_demo ext3_d n = 100 + of_nat n" if "n < 13" for n
  proof (cases "n < 12")
    case False
    with that have "n = 12" by simp
    with e show ?thesis unfolding file_block_def bl(1) by (simp add: nth_append ext3_demo(3))
  next
    case True
    then show ?thesis unfolding file_block_def bl(1) by (simp add: nth_append)
  qed
  have num: "unat (100 + of_nat n :: u32) = 100 + n" if "n < 13" for n
    using that unat_of_nat_u32 [of "100 + n"] by simp
  then have nz: "(100 + of_nat n :: u32) \<noteq> 0" if "n < 13" for n using that by fastforce
  have "path_on_disk ext3_demo_disk ext3_demo ext3_d n" if "n < 13" for n
    using that unfolding path_on_disk_def bl(1) by (simp add: nth_append ext3_demo(3) ext3_demo_block)
  then have "file_ok ext3_demo_disk ext3_demo ext3_d 13" by (simp add: file_ok_def fb ext3_demo_block num nz)
  then show "file_readable ext3_demo_disk ext3_demo ext3_d 13"
    by (simp add: file_readable_def ext3_d_def demo_inode_def ext3_demo(3))
  show "file_bytes ext3_demo_disk ext3_demo ext3_d 13 =
     concat (map (\<lambda>n. replicate 512 (of_nat (200 + 2 * n)) @ replicate 512 (of_nat (201 + 2 * n))) [0..<13])"
    unfolding file_bytes_def
    by (intro arg_cong [of _ _ concat] map_cong) (auto simp: fb ext3_demo_block num ext3_demo_disk_def)
qed

text \<open>C38: reading a file by its path: the directories on the disk are followed from the root to the inode, the call returns its
  size, and the buffer holds the file: the bytes of its blocks, direct, single and double indirect, where the
  mode has no bit of \<^verbatim>\<open>0xA000\<close>. A regular file (\<^verbatim>\<open>0x8000\<close>) is taken for a symbolic link like this: below 60
  bytes the buffer gets the block numbers in place of the contents, and otherwise the first block.
  All memory taken is given back, and the other buffers and the disk are as before.\<close>

theorem ext3_read_file_contents:
  fixes s :: "'a ext3_state_scheme"
  assumes "fs_inv D bs s" "ext3_volume s" "can_take [room] bs" "unat (block_size s) \<le> room"
    and "length (skip_slash path) < 256" "ext3_resolves room D s path (Some n)"
    and "file_readable D s (disk_inode D s n) m" "(x, l) \<in> live HEAP bs" "unat (i_size (disk_inode D s n)) \<le> l"
  shows "\<exists>t. ext3_read_file path (of_nat x) s = Ret (i_size (disk_inode D s n)) t \<and>
    load_bytes (mem t) (of_nat x) (unat (i_size (disk_inode D s n))) = file_contents D s (disk_inode D s n) m \<and>
    fs_inv D bs t \<and> fs_to (live HEAP bs - {(x, l)}) s t"
proof -
  let ?i = "disk_inode D s n" and ?rest = "live HEAP bs - {(x, l)}"
  from ext3_find_file_run [OF assms(1-6), of None] obtain t where t: "ext3_find_file path None s = Ret (Some (Some ?i, n)) t" "fs_inv D bs t"
    "fs_to (live HEAP bs) s t" by auto
  note vt = volume_kept [OF t(3)] and kt = ext3_kept [OF t(3)]
  have m: "ext3_mounted s" "ext3_mounted t" using assms(2) by (simp_all add: ext3_volume_def vt)
  have room: "can_take [unat (block_size t)] bs" unfolding kt by (rule can_take_mono [OF assms(3,4)])
  have st: "fs_to ?rest s t" by (rule fs_to_mono [OF t(3)]) blast
  have xb: "x + l \<le> 4294967296" "0 < x" using assms(1,8) buffer_word [of s bs x l] by (simp_all add: fs_inv_def)
  have x0: "(of_nat x :: u32) \<noteq> 0" using assms(1,8) buffer_word [of s bs x l] by (auto simp: fs_inv_def)
  have run: "ext3_read_file path (of_nat x) s =
      (if i_mode ?i AND 0xA000 \<noteq> 0 then
         if i_size ?i < 60 then Ret (i_size ?i) (t\<lparr>mem := store_bytes (of_nat x) (symlink_bytes ?i) (mem t)\<rparr>)
         else bind (kmalloc (block_size t) t) (\<lambda>buf s. if buf = 0 then Ret 0 s else
           let s = read_block (i_block ?i ! 0) buf s; s = memcpy (of_nat x) buf (i_size ?i) s in
           bind (kfree buf s) (\<lambda>_ s. Ret (i_size ?i) s))
       else ext3_read_blocks ?i (of_nat x) t)"
    using m(1) x0 t(1) by (simp add: ext3_read_file_def ext3_mounted_def)
  consider (blocks) "i_mode ?i AND 0xA000 = 0" | (short) "i_mode ?i AND 0xA000 \<noteq> 0" "i_size ?i < 60"
    | (first) "i_mode ?i AND 0xA000 \<noteq> 0" "\<not> i_size ?i < 60" by blast
  then show ?thesis
  proof cases
    case blocks
    have "file_ok D t ?i m" "unat (i_size ?i) \<le> m * unat (block_size t)"
      using assms(7) blocks by (simp_all add: file_readable_def file_kept [OF t(3)] kt)
    from read_blocks_run [OF t(2) m(2) room this assms(8,9)] show ?thesis
      using run blocks st by (auto simp: file_contents_def file_kept [OF t(3)] intro: fs_to_trans)
  next
    case short
    let ?u = "t\<lparr>mem := store_bytes (of_nat x + of_nat 0) (symlink_bytes ?i) (mem t)\<rparr>"
    have len: "length (symlink_bytes ?i) = unat (i_size ?i)" using short(2) inode_blocks [of D s n] by (simp add: symlink_bytes_def u32_less_iff)
    then have f: "0 + length (symlink_bytes ?i) \<le> l" using assms(9) by simp
    note u = buffer_store [OF t(2) assms(8) f]
    have "load_bytes (mem ?u) (of_nat x) (unat (i_size ?i)) = symlink_bytes ?i"
      using load_store_bytes_same [of "symlink_bytes ?i" "of_nat x" "mem t"] len f xb by simp
    then show ?thesis using run short u fs_to_trans [OF st u(2)] by (simp add: file_contents_def symlink_bytes_def)
  next
    case first
    have b: "block_on_disk t (i_block ?i ! 0)" "i_size ?i \<le> block_size t"
      using assms(7) first by (simp_all add: file_readable_def vt kt linorder_not_less)
    from read_first_block_run [OF t(2) m(2) room b assms(8,9)] obtain w where
      "bind (kmalloc (block_size t) t) (\<lambda>buf s. if buf = 0 then Ret 0 s else
        let s = read_block (i_block ?i ! 0) buf s; s = memcpy (of_nat x) buf (i_size ?i) s in
        bind (kfree buf s) (\<lambda>_ s. Ret (i_size ?i) s)) = Ret (i_size ?i) w"
      "load_bytes (mem w) (of_nat x) (unat (i_size ?i)) = take (unat (i_size ?i)) (block_bytes D t (i_block ?i ! 0))"
      "fs_inv D bs w" "fs_to ?rest t w" by blast
    then show ?thesis using run first fs_to_trans [OF st] by (simp add: file_contents_def vt)
  qed
qed

theorem ext3_read_file_contents_witness:
  "(\<exists>s t. kmalloc 8 ext3_demo = Ret 0xD0000011 s \<and> ext3_read_file (str ''/a'') 0xD0000011 s = Ret 5 t \<and>
     load_bytes (mem t) 0xD0000011 5 = [100, 0, 0, 0, 0]) \<and>
   (\<exists>s t. kmalloc 13000 ext3_demo = Ret 0xD0000011 s \<and> ext3_read_file (str ''/d'') 0xD0000011 s = Ret 13000 t \<and>
     load_bytes (mem t) 0xD0000011 13000 =
       take 13000 (concat (map (\<lambda>n. replicate 512 (of_nat (200 + 2 * n)) @ replicate 512 (of_nat (201 + 2 * n))) [0..<13])))"
proof
  have len: "length (skip_slash (str ''/a'')) < 256" "length (skip_slash (str ''/d'')) < 256" by code_simp+
  obtain s where s: "kmalloc 8 ext3_demo = Ret 0xD0000011 s" "fs_inv ext3_demo_disk [(8, True), (0xFFEF - 25, False)] s"
    "fs_to {} ext3_demo s" using ext3_demo_buffer [of 8] by auto
  note k = inode_kept [OF s(3)] path_kept [OF s(3)] ext3_kept [OF s(3)]
  have h: "ext3_volume s" "can_take [2048] [(8, True), (0xFFEF - 25, False)]" "unat (block_size s) \<le> 2048"
    "ext3_resolves 2048 ext3_demo_disk s (str ''/a'') (Some 3)" "(HEAP + 17, 8) \<in> live HEAP [(8, True), (0xFFEF - 25, False)]"
    using ext3_demo(2,3) ext3_demo_paths(1) by (simp_all add: k ext3_resolves_def round8_def split_sizes_def)
  have a: "i_size ext3_a = 5" "i_mode ext3_a = 0x81A4" "i_block ext3_a = 100 # replicate 14 0" by (simp_all add: ext3_a_def demo_inode_def)
  have "file_readable ext3_demo_disk s ext3_a 0" by (simp add: file_readable_def a)
  then have r: "file_readable ext3_demo_disk s (disk_inode ext3_demo_disk s 3) 0" by (simp add: k ext3_demo_inodes)
  have w: "take 5 (words_le (100 # replicate 14 0)) = [100, 0, 0, 0, 0]" by code_simp
  have "file_contents ext3_demo_disk s ext3_a 0 = [100, 0, 0, 0, 0]"
    using w by (simp add: file_contents_def a)
  with ext3_read_file_contents [OF s(2) h(1-3) len(1) h(4) r h(5)] s(1)
  show "\<exists>s t. kmalloc 8 ext3_demo = Ret 0xD0000011 s \<and> ext3_read_file (str ''/a'') 0xD0000011 s = Ret 5 t \<and>
     load_bytes (mem t) 0xD0000011 5 = [100, 0, 0, 0, 0]" by (auto simp: k ext3_demo_inodes a)
  obtain s where s: "kmalloc 13000 ext3_demo = Ret 0xD0000011 s" "fs_inv ext3_demo_disk [(13000, True), (0xFFEF - 13017, False)] s"
    "fs_to {} ext3_demo s" using ext3_demo_buffer [of 13000] by auto
  note k = inode_kept [OF s(3)] path_kept [OF s(3)] ext3_kept [OF s(3)] file_kept [OF s(3)]
  have h: "ext3_volume s" "can_take [2048] [(13000, True), (0xFFEF - 13017, False)]" "unat (block_size s) \<le> 2048"
    "ext3_resolves 2048 ext3_demo_disk s (str ''/d'') (Some 4)" "(HEAP + 17, 13000) \<in> live HEAP [(13000, True), (0xFFEF - 13017, False)]"
    using ext3_demo(2,3) ext3_demo_paths(2) by (simp_all add: k ext3_resolves_def round8_def split_sizes_def)
  have d: "i_size ext3_d = 13000" "i_mode ext3_d AND 0xA000 = 0" by (simp_all add: ext3_d_def demo_inode_def)
  have r: "file_readable ext3_demo_disk s (disk_inode ext3_demo_disk s 4) 13"
    using ext3_demo_d(1) by (simp add: k ext3_demo_inodes file_readable_def d)
  from ext3_read_file_contents [OF s(2) h(1-3) len(2) h(4) r h(5)] s(1)
  show "\<exists>s t. kmalloc 13000 ext3_demo = Ret 0xD0000011 s \<and> ext3_read_file (str ''/d'') 0xD0000011 s = Ret 13000 t \<and>
     load_bytes (mem t) 0xD0000011 13000 =
       take 13000 (concat (map (\<lambda>n. replicate 512 (of_nat (200 + 2 * n)) @ replicate 512 (of_nat (201 + 2 * n))) [0..<13]))"
    by (auto simp: k ext3_demo_inodes d file_contents_def ext3_demo_d(2))
qed

end
