(* ===== verification/Vfs.thy ===== *)
theory Vfs
  imports Ext3
begin

unbundle bit_operations_syntax

text \<open>
  The virtual file system \<^verbatim>\<open>FS/vfs.c\<close>: open files and descriptor tables over the two drivers.

  Open files (276 bytes) and descriptor tables (1028 bytes) are heap buffers in byte memory, read and
  written at the offsets of their fields; \<^verbatim>\<open>std_out_file\<close> is a static one at an address of the kernel
  image. The tables of function pointers are the records \<open>vfs_fat32_ops\<close> and \<open>vfs_ext3_ops\<close>. The VFS calls
  \<^verbatim>\<open>read\<close> and \<^verbatim>\<open>write\<close> with four arguments, but the drivers take two and three: by the C calling
  convention they see the first ones, so the offset arrives as the size of a write. The entries of the
  records have the VFS's types and make this explicit. A descriptor is a C \<^verbatim>\<open>int\<close>, an integer here.

  A user program's memory is behind its page tables: \<open>get_byte\<close> and \<open>put_byte\<close> access an address as the
  processor does, in \<open>mem\<close> for the kernel half and through \<open>translate\<close> below it.
\<close>

section \<open>The memory of both halves\<close>

definition frame_byte :: "u32 \<Rightarrow> u32 \<Rightarrow> u8" where
  "frame_byte w i = ucast (drop_bit (8 * unat (i AND 3)) w)"

definition put_frame_byte :: "u32 \<Rightarrow> u32 \<Rightarrow> u8 \<Rightarrow> u32" where
  "put_frame_byte w i v =
     (w AND NOT (push_bit (8 * unat (i AND 3)) 0xFF)) OR push_bit (8 * unat (i AND 3)) (ucast v)"

definition get_byte :: "u32 \<Rightarrow> 'a mm_state_scheme \<Rightarrow> (u8, 'a mm_state_scheme) res" where
  "get_byte a s =
     (if KERNEL_START \<le> a then Ret (mem s a) s
      else case translate (pmem s) (cr3 s) a of None \<Rightarrow> Fault
      | Some pa \<Rightarrow> Ret (frame_byte (pmem s (pa AND NOT 3)) pa) s)"

definition put_byte :: "u32 \<Rightarrow> u8 \<Rightarrow> 'a mm_state_scheme \<Rightarrow> (unit, 'a mm_state_scheme) res" where
  "put_byte a v s =
     (if KERNEL_START \<le> a then Ret () (s\<lparr>mem := (mem s)(a := v)\<rparr>)
      else case translate (pmem s) (cr3 s) a of None \<Rightarrow> Fault
      | Some pa \<Rightarrow>
          Ret () (s\<lparr>pmem := (pmem s)(pa AND NOT 3 := put_frame_byte (pmem s (pa AND NOT 3)) pa v)\<rparr>))"

section \<open>The drivers behind the VFS\<close>

definition O_RDONLY :: u32 where "O_RDONLY = 0x0000"
definition O_WRONLY :: u32 where "O_WRONLY = 0x0001"
definition O_RDWR :: u32 where "O_RDWR = 0x0002"
definition O_CREAT :: u32 where "O_CREAT = 0x0040"
definition O_TRUNC :: u32 where "O_TRUNC = 0x0200"
definition O_APPEND :: u32 where "O_APPEND = 0x0400"

definition FD_MAX :: nat where "FD_MAX = 256"
definition FD_STDOUT :: nat where "FD_STDOUT = 1"

datatype fs_driver = fat32_driver | ext3_driver

record vfs_state = ext3_state +
  vfs_current_fs :: "fs_driver option"
  vfs_fd_table :: u32
  kernel_fd_table :: u32
  std_out_file :: u32

record 's vfs_ops =
  op_exists :: "bytes \<Rightarrow> 's \<Rightarrow> (bool, 's) res"
  op_size :: "bytes \<Rightarrow> 's \<Rightarrow> (u32, 's) res"
  op_read :: "bytes \<Rightarrow> u32 \<Rightarrow> u32 \<Rightarrow> u32 \<Rightarrow> 's \<Rightarrow> (u32, 's) res"
  op_write :: "bytes \<Rightarrow> u32 \<Rightarrow> u32 \<Rightarrow> u32 \<Rightarrow> 's \<Rightarrow> (u32, 's) res"
  op_mkdir :: "bytes \<Rightarrow> 's \<Rightarrow> (bool, 's) res"
  op_list :: "bytes \<Rightarrow> 's \<Rightarrow> (bool, 's) res"
  op_delete :: "bytes \<Rightarrow> 's \<Rightarrow> (bool, 's) res"
  op_symlink :: "(bytes \<Rightarrow> bytes \<Rightarrow> 's \<Rightarrow> (bool, 's) res) option"
  op_readlink :: "(bytes \<Rightarrow> 's \<Rightarrow> (u32, 's) res) option"
  op_is_symlink :: "(bytes \<Rightarrow> 's \<Rightarrow> (bool, 's) res) option"

definition vfs_fat32_ops :: "'a fat32_state_scheme vfs_ops" where
  "vfs_fat32_ops =
     \<lparr>op_exists = fat32_file_exists, op_size = fat32_file_size,
      op_read = (\<lambda>path buffer offset sz. fat32_read_file path buffer),
      op_write = (\<lambda>path buffer offset sz. fat32_write_file path buffer offset),
      op_mkdir = fat32_create_directory, op_list = fat32_list_directory, op_delete = fat32_delete,
      op_symlink = None, op_readlink = None, op_is_symlink = None\<rparr>"

definition vfs_ext3_ops :: "'a ext3_state_scheme vfs_ops" where
  "vfs_ext3_ops =
     \<lparr>op_exists = ext3_file_exists, op_size = ext3_file_size,
      op_read = (\<lambda>path buffer offset sz. ext3_read_file path buffer),
      op_write = (\<lambda>path buffer offset sz. ext3_write_file path buffer offset),
      op_mkdir = ext3_create_directory, op_list = ext3_list_directory, op_delete = ext3_delete,
      op_symlink = Some ext3_create_symlink, op_readlink = Some ext3_read_symlink, op_is_symlink = Some ext3_is_symlink\<rparr>"

fun ops_of :: "fs_driver \<Rightarrow> 'a ext3_state_scheme vfs_ops" where
  "ops_of fat32_driver = vfs_fat32_ops"
| "ops_of ext3_driver = vfs_ext3_ops"

definition vfs_detect_fs :: "'a vfs_state_scheme \<Rightarrow> (unit, 'a vfs_state_scheme) res" where
  "vfs_detect_fs s =
     bind (kmalloc 1024 s) (\<lambda>buf s.
     if buf = 0 then init_fat32 (s\<lparr>vfs_current_fs := Some fat32_driver\<rparr>)
     else
       let s = read_sectors 2 2 buf s;
           magic = load16 (mem s) (buf + 56) in
       bind (kfree buf s) (\<lambda>_ s.
       if magic = 0xEF53
       then bind (init_ext3 s) (\<lambda>_ s. Ret () (s\<lparr>vfs_current_fs := Some ext3_driver\<rparr>))
       else bind (init_fat32 s) (\<lambda>_ s. Ret () (s\<lparr>vfs_current_fs := Some fat32_driver\<rparr>))))"

section \<open>Open files and descriptor tables\<close>

text \<open>The offsets of the fields of \<^verbatim>\<open>vfs_file_t\<close>, whose path is at 0, and of \<^verbatim>\<open>fd_table_t\<close>.\<close>

definition VF_position :: u32 where "VF_position = 256"
definition VF_size :: u32 where "VF_size = 260"
definition VF_flags :: u32 where "VF_flags = 264"
definition VF_ref_count :: u32 where "VF_ref_count = 268"
definition VF_private :: u32 where "VF_private = 272"
definition SIZEOF_vfs_file :: u32 where "SIZEOF_vfs_file = 276"
definition FT_files :: "nat \<Rightarrow> u32" where "FT_files i = 4 * of_nat i"
definition FT_count :: u32 where "FT_count = 1024"
definition SIZEOF_fd_table :: u32 where "SIZEOF_fd_table = 1028"

lemmas vfs_fields = VF_position_def VF_size_def VF_flags_def VF_ref_count_def VF_private_def FT_files_def FT_count_def

definition vfs_fd_table_create :: "'a heap_state_scheme \<Rightarrow> (u32, 'a heap_state_scheme) res" where
  "vfs_fd_table_create s =
     bind (kmalloc SIZEOF_fd_table s) (\<lambda>table s.
     if table = 0 then Ret 0 s else Ret table (memset table 0 SIZEOF_fd_table s))"

definition init_vfs :: "'a vfs_state_scheme \<Rightarrow> (unit, 'a vfs_state_scheme) res" where
  "init_vfs s =
     bind (vfs_detect_fs s) (\<lambda>_ s.
     bind (vfs_fd_table_create s) (\<lambda>table s.
     Ret () (s\<lparr>kernel_fd_table := table, vfs_fd_table := table\<rparr>)))"

text \<open>A reference given up: the file is freed with the last one.\<close>

definition drop_reference :: "u32 \<Rightarrow> 'a heap_state_scheme \<Rightarrow> (unit, 'a heap_state_scheme) res" where
  "drop_reference file s =
     (let s = file_put VF_ref_count file (file_get VF_ref_count file s - 1) s in
      if file_get VF_ref_count file s = 0 then kfree file s else Ret () s)"

definition vfs_fd_table_destroy :: "u32 \<Rightarrow> 'a heap_state_scheme \<Rightarrow> (unit, 'a heap_state_scheme) res" where
  "vfs_fd_table_destroy table s =
     (if table = 0 then Ret () s else
      bind (for_each [0..<FD_MAX] (\<lambda>i s.
        if file_get (FT_files i) table s \<noteq> 0 then drop_reference (file_get (FT_files i) table s) s else Ret () s) s)
      (\<lambda>_ s. kfree table s))"

definition vfs_fd_alloc :: "u32 \<Rightarrow> u32 \<Rightarrow> 'a vfs_state_scheme \<Rightarrow> (int, 'a vfs_state_scheme) res" where
  "vfs_fd_alloc table file s =
     (if table = 0 \<or> file = 0 then Ret (-1) s else
      if vfs_fd_table s = 0 then Fault else
      let s = (if file_get (FT_files FD_STDOUT) (vfs_fd_table s) s = 0 then
                 let s = file_put (FT_files FD_STDOUT) (vfs_fd_table s) (std_out_file s) s;
                     s = file_put VF_ref_count (std_out_file s) (file_get VF_ref_count (std_out_file s) s + 1) s
                 in file_put FT_count (vfs_fd_table s) (file_get FT_count (vfs_fd_table s) s + 1) s
               else s) in
      case find (\<lambda>i. file_get (FT_files i) table s = 0) [3..<FD_MAX] of
        None \<Rightarrow> Ret (-1) s
      | Some i \<Rightarrow>
          let s = file_put (FT_files i) table file s;
              s = file_put FT_count table (file_get FT_count table s + 1) s;
              s = file_put VF_ref_count file (file_get VF_ref_count file s + 1) s
          in Ret (int i) s)"

definition vfs_fd_get :: "u32 \<Rightarrow> int \<Rightarrow> 'a machine_scheme \<Rightarrow> u32" where
  "vfs_fd_get table fd s =
     (if table = 0 \<or> fd < 0 \<or> fd \<ge> int FD_MAX then 0 else file_get (FT_files (nat fd)) table s)"

definition vfs_fd_free :: "u32 \<Rightarrow> int \<Rightarrow> 'a heap_state_scheme \<Rightarrow> (unit, 'a heap_state_scheme) res" where
  "vfs_fd_free table fd s =
     (if table = 0 \<or> fd < 0 \<or> fd \<ge> int FD_MAX then Ret () s else
      if file_get (FT_files (nat fd)) table s = 0 then Ret () s else
      bind (drop_reference (file_get (FT_files (nat fd)) table s) s) (\<lambda>_ s.
      let s = file_put (FT_files (nat fd)) table 0 s in
      Ret () (file_put FT_count table (file_get FT_count table s - 1) s)))"

definition vfs_file_open :: "bytes \<Rightarrow> u32 \<Rightarrow> 'a vfs_state_scheme \<Rightarrow> (u32, 'a vfs_state_scheme) res" where
  "vfs_file_open path flags s =
     (case vfs_current_fs s of None \<Rightarrow> Ret 0 s
      | Some fs \<Rightarrow>
          let ops = ops_of fs in
          bind (op_exists ops path s) (\<lambda>there s.
          bind (if there then Ret True s
                else if flags AND O_CREAT = 0 then Ret False s
                else bind (op_write ops path 0 0 0 s) (\<lambda>w s. Ret (w \<noteq> 0) s)) (\<lambda>go s.
          if \<not> go then Ret 0 s else
          bind (kmalloc SIZEOF_vfs_file s) (\<lambda>file s.
          if file = 0 then Ret 0 s else
          let s = s\<lparr>mem := store_bytes file (path @ [0]) (mem s)\<rparr> in
          bind (if flags AND O_APPEND \<noteq> 0 then op_size ops path s else Ret 0 s) (\<lambda>position s.
          let s = file_put VF_position file position s in
          bind (op_size ops path s) (\<lambda>sz s.
          let s = file_put VF_size file sz s;
              s = file_put VF_flags file flags s;
              s = file_put VF_ref_count file 1 s;
              s = file_put VF_private file 0 s in
          if flags AND O_TRUNC \<noteq> 0 then
            bind (op_write ops path 0 0 0 s) (\<lambda>_ s.
            Ret file (file_put VF_position file 0 (file_put VF_size file 0 s)))
          else Ret file s))))))"

definition vfs_file_read :: "u32 \<Rightarrow> u32 \<Rightarrow> u32 \<Rightarrow> 'a vfs_state_scheme \<Rightarrow> (u32, 'a vfs_state_scheme) res" where
  "vfs_file_read file buffer sz s =
     (if file = 0 \<or> buffer = 0 then Ret 0 s else
      if file_get VF_position file s \<ge> file_get VF_size file s then Ret 0 s else
      case vfs_current_fs s of None \<Rightarrow> Ret 0 s
      | Some fs \<Rightarrow>
          let remaining = file_get VF_size file s - file_get VF_position file s;
              to_read = (if sz < remaining then sz else remaining) in
          case string_at (mem s) file of None \<Rightarrow> Hang
          | Some path \<Rightarrow>
              bind (op_read (ops_of fs) path buffer (file_get VF_position file s) to_read s) (\<lambda>n s.
              Ret n (if n > 0 then file_put VF_position file (file_get VF_position file s + n) s else s)))"

definition vfs_file_write :: "u32 \<Rightarrow> u32 \<Rightarrow> u32 \<Rightarrow> 'a vfs_state_scheme \<Rightarrow> (u32, 'a vfs_state_scheme) res" where
  "vfs_file_write file buffer sz s =
     (if file = 0 \<or> buffer = 0 then Ret 0 s else
      case vfs_current_fs s of None \<Rightarrow> Ret 0 s
      | Some fs \<Rightarrow>
          let s = (if file_get VF_flags file s AND O_APPEND \<noteq> 0
                   then file_put VF_position file (file_get VF_size file s) s else s) in
          case string_at (mem s) file of None \<Rightarrow> Hang
          | Some path \<Rightarrow>
              bind (op_write (ops_of fs) path buffer (file_get VF_position file s) sz s) (\<lambda>written s.
              if written > 0 then
                let s = file_put VF_position file (file_get VF_position file s + written) s in
                Ret written (if file_get VF_position file s > file_get VF_size file s
                  then file_put VF_size file (file_get VF_position file s) s else s)
              else Ret written s))"

section \<open>The calls\<close>

definition vfs_open :: "bytes \<Rightarrow> u32 \<Rightarrow> 'a vfs_state_scheme \<Rightarrow> (int, 'a vfs_state_scheme) res" where
  "vfs_open path flags s =
     (if vfs_fd_table s = 0 then Ret (-1) s else
      if vfs_current_fs s = None then Ret (-1) s else
      bind (vfs_file_open path flags s) (\<lambda>file s.
      if file = 0 then Ret (-1) s else vfs_fd_alloc (vfs_fd_table s) file s))"

definition vfs_close :: "int \<Rightarrow> 'a vfs_state_scheme \<Rightarrow> (int, 'a vfs_state_scheme) res" where
  "vfs_close fd s =
     (if vfs_fd_table s = 0 then Ret (-1) s else
      if vfs_fd_get (vfs_fd_table s) fd s = 0 then Ret (-1) s
      else bind (vfs_fd_free (vfs_fd_table s) fd s) (\<lambda>_ s. Ret 0 s))"

definition vfs_read :: "int \<Rightarrow> u32 \<Rightarrow> u32 \<Rightarrow> 'a vfs_state_scheme \<Rightarrow> (u32, 'a vfs_state_scheme) res" where
  "vfs_read fd buffer sz s =
     (if vfs_fd_table s = 0 \<or> buffer = 0 then Ret 0 s else
      let file = vfs_fd_get (vfs_fd_table s) fd s in
      if file = 0 then Ret 0 s else vfs_file_read file buffer sz s)"

definition vfs_write :: "int \<Rightarrow> u32 \<Rightarrow> u32 \<Rightarrow> 'a vfs_state_scheme \<Rightarrow> (u32, 'a vfs_state_scheme) res" where
  "vfs_write fd buffer sz s =
     (if vfs_fd_table s = 0 \<or> buffer = 0 then Ret 0 s else
      if fd = int FD_STDOUT then
        bind (for_each [0..<unat sz] (\<lambda>i s. bind (get_byte (buffer + of_nat i) s) (\<lambda>c s. Ret () (printc c s))) s)
          (\<lambda>_ s. Ret sz s)
      else
      let file = vfs_fd_get (vfs_fd_table s) fd s in
      if file = 0 then Ret 0 s else vfs_file_write file buffer sz s)"

definition vfs_seek :: "int \<Rightarrow> u32 \<Rightarrow> u8 \<Rightarrow> 'a vfs_state_scheme \<Rightarrow> u32 \<times> 'a vfs_state_scheme" where
  "vfs_seek fd offset whence s =
     (if vfs_fd_table s = 0 then (0, s) else
      let file = vfs_fd_get (vfs_fd_table s) fd s in
      if file = 0 then (0, s) else
      let s = (if whence = 0 then file_put VF_position file offset s
               else if whence = 1 then file_put VF_position file (file_get VF_position file s + offset) s
               else if whence = 2 then file_put VF_position file (file_get VF_size file s - offset) s
               else s);
          s = (if file_get VF_position file s > file_get VF_size file s
               then file_put VF_position file (file_get VF_size file s) s else s)
      in (file_get VF_position file s, s))"

definition vfs_tell :: "int \<Rightarrow> 'a vfs_state_scheme \<Rightarrow> u32" where
  "vfs_tell fd s =
     (if vfs_fd_table s = 0 then 0 else
      let file = vfs_fd_get (vfs_fd_table s) fd s in if file = 0 then 0 else file_get VF_position file s)"

definition vfs_size :: "int \<Rightarrow> 'a vfs_state_scheme \<Rightarrow> u32" where
  "vfs_size fd s =
     (if vfs_fd_table s = 0 then 0 else
      let file = vfs_fd_get (vfs_fd_table s) fd s in if file = 0 then 0 else file_get VF_size file s)"

definition vfs_eof :: "int \<Rightarrow> 'a vfs_state_scheme \<Rightarrow> bool" where
  "vfs_eof fd s \<longleftrightarrow>
     (if vfs_fd_table s = 0 then True else
      let file = vfs_fd_get (vfs_fd_table s) fd s in
      if file = 0 then True else file_get VF_position file s \<ge> file_get VF_size file s)"

end
