(* ===== verification/Process.thy ===== *)
theory Process
  imports Vfs
begin

unbundle bit_operations_syntax

text \<open>
  Processes: the ELF loader \<^verbatim>\<open>PROC/elf.c\<close> and the process table and scheduler \<^verbatim>\<open>PROC/process.c\<close>.

  Process descriptors are heap buffers of 128 bytes in byte memory, linked from \<^verbatim>\<open>process_head\<close>; the
  interrupt registers are the 68 bytes (17 words) that \<^verbatim>\<open>isr.s\<close> pushes. The loader writes the segments
  of a program through the page tables of the new directory (\<open>put_byte\<close>), so that touching a page it
  did not map is a \<open>Fault\<close>.
\<close>

section \<open>The ELF loader\<close>

definition PT_LOAD :: u32 where "PT_LOAD = 1"
definition ET_EXEC :: u16 where "ET_EXEC = 2"
definition EM_386 :: u16 where "EM_386 = 3"
definition ELF_CLASS_32 :: u8 where "ELF_CLASS_32 = 1"
definition ELF_MAGIC :: bytes where "ELF_MAGIC = [0x7F, 0x45, 0x4C, 0x46]"
definition STACK_ELF_START :: u32 where "STACK_ELF_START = 0xBFFFF000"

record elf_header =
  e_ident :: bytes
  e_type :: u16
  e_machine :: u16
  e_version :: u32
  e_entry :: u32
  e_phoff :: u32
  e_shoff :: u32
  e_flags :: u32
  e_ehsize :: u16
  e_phentsize :: u16
  e_phnum :: u16
  e_shentsize :: u16
  e_shnum :: u16
  e_shstrndx :: u16

definition elf_header_at :: "memory \<Rightarrow> u32 \<Rightarrow> elf_header" where
  "elf_header_at m a =
     \<lparr>e_ident = load_bytes m a 16, e_type = load16 m (a + 16), e_machine = load16 m (a + 18), e_version = load32 m (a + 20),
      e_entry = load32 m (a + 24), e_phoff = load32 m (a + 28), e_shoff = load32 m (a + 32), e_flags = load32 m (a + 36),
      e_ehsize = load16 m (a + 40), e_phentsize = load16 m (a + 42), e_phnum = load16 m (a + 44),
      e_shentsize = load16 m (a + 46), e_shnum = load16 m (a + 48), e_shstrndx = load16 m (a + 50)\<rparr>"

record elf_program_header =
  p_type :: u32
  p_offset :: u32
  p_vaddr :: u32
  p_paddr :: u32
  p_filesz :: u32
  p_memsz :: u32
  p_flags :: u32
  p_align :: u32

definition program_header_at :: "memory \<Rightarrow> u32 \<Rightarrow> elf_program_header" where
  "program_header_at m a =
     \<lparr>p_type = load32 m a, p_offset = load32 m (a + 4), p_vaddr = load32 m (a + 8), p_paddr = load32 m (a + 12),
      p_filesz = load32 m (a + 16), p_memsz = load32 m (a + 20), p_flags = load32 m (a + 24), p_align = load32 m (a + 28)\<rparr>"

definition validate_elf :: "elf_header \<Rightarrow> 'a vga_state_scheme \<Rightarrow> int \<times> 'a vga_state_scheme" where
  "validate_elf header s =
     (if take 4 (e_ident header) \<noteq> ELF_MAGIC then (-1, print (str ''invalid elf magic\<newline>'') s)
      else if e_ident header ! 4 \<noteq> ELF_CLASS_32 then (-1, print (str ''not 32-bit ELF\<newline>'') s)
      else if e_machine header \<noteq> EM_386 then (-1, print (str ''not x86 ELF\<newline>'') s)
      else if e_type header \<noteq> ET_EXEC then (-1, print (str ''not executable\<newline>'') s)
      else (0, s))"

text \<open>\<^verbatim>\<open>memcpy\<close> and \<^verbatim>\<open>memset\<close> into the program's memory.\<close>

definition copy_in :: "u32 \<Rightarrow> u32 \<Rightarrow> u32 \<Rightarrow> 'a mm_state_scheme \<Rightarrow> (unit, 'a mm_state_scheme) res" where
  "copy_in dest src n =
     for_each [0..<unat n] (\<lambda>i s. bind (get_byte (src + of_nat i) s) (\<lambda>b s. put_byte (dest + of_nat i) b s))"

definition fill_in :: "u32 \<Rightarrow> u32 \<Rightarrow> 'a mm_state_scheme \<Rightarrow> (unit, 'a mm_state_scheme) res" where
  "fill_in dest n = for_each [0..<unat n] (\<lambda>i s. put_byte (dest + of_nat i) 0 s)"

definition USER_PAGE :: u32 where "USER_PAGE = PAGE_FLAG_PRESENT OR PAGE_FLAG_WRITE OR PAGE_FLAG_USER"

text \<open>A fresh frame at an address; \<open>Some ()\<close> is the return when there is none.\<close>

definition map_new_page :: "u32 \<Rightarrow> 'a mm_state_scheme \<Rightarrow> (unit option, 'a mm_state_scheme) res" where
  "map_new_page addr s =
     bind (pmm_alloc_page_frame s) (\<lambda>phys s.
     if phys = 0 then Ret (Some ()) (print (str ''out of memory'') s)
     else bind (mem_map_page addr phys USER_PAGE s) (\<lambda>_ s. Ret None s))"

definition load_segment ::
  "u32 \<Rightarrow> u32 \<Rightarrow> elf_program_header \<Rightarrow> 'a mm_state_scheme \<Rightarrow> (unit option, 'a mm_state_scheme) res" where
  "load_segment elf_data old_page_dir ph s =
     (let vaddr = p_vaddr ph; memsz = p_memsz ph; filesz = p_filesz ph; offset = p_offset ph;
          num_pages = CEIL_DIV memsz 0x1000 in
      bind (for_ret [0..<unat num_pages] (\<lambda>x s. map_new_page (vaddr + of_nat x * 0x1000) s) s) (\<lambda>r s.
      if r \<noteq> None then Ret r (mem_change_page_dir old_page_dir s) else
      bind (if filesz > 0 then copy_in vaddr (elf_data + offset) filesz s else Ret () s) (\<lambda>_ s.
      bind (if memsz > filesz then fill_in (vaddr + filesz) (memsz - filesz) s else Ret () s) (\<lambda>_ s.
      Ret None s))))"

text \<open>The stack is one page; without a frame for it the call returns in the new directory.\<close>

definition elf_load :: "u32 \<Rightarrow> u32 \<Rightarrow> u32 \<Rightarrow> 'a mm_state_scheme \<Rightarrow> (int, 'a mm_state_scheme) res" where
  "elf_load elf_data entry_point page_dir s =
     (let header = elf_header_at (mem s) elf_data;
          (v, s) = validate_elf header s in
      if v < 0 then Ret (-1) s else
      let s = s\<lparr>mem := store32 entry_point (e_entry header) (mem s)\<rparr>;
          program_header = elf_data + e_phoff header;
          old_page_dir = mem_get_current_page_dir s;
          s = mem_change_page_dir page_dir s in
      bind (for_ret [0..<unat (e_phnum header)] (\<lambda>i s.
          let ph = program_header_at (mem s) (program_header + 32 * of_nat i) in
          if p_type ph = PT_LOAD then load_segment elf_data old_page_dir ph s else Ret None s) s) (\<lambda>r s.
      if r \<noteq> None then Ret (-1) s else
      bind (map_new_page (STACK_ELF_START - 0x1000) s) (\<lambda>r s.
      if r \<noteq> None then Ret (-1) s
      else Ret 0 (mem_change_page_dir old_page_dir s))))"

section \<open>The process table\<close>

definition PROC_RUNNING :: u32 where "PROC_RUNNING = 1"
definition PROC_IDLE :: u32 where "PROC_IDLE = 4"
definition MAX_PROCESSES :: nat where "MAX_PROCESSES = 4194304"
definition PROC_NAME_MAX :: nat where "PROC_NAME_MAX = 32"

text \<open>The fields of \<^verbatim>\<open>process_t\<close> and, from \<open>P_regs\<close> on, those of \<^verbatim>\<open>intrupt_registers_t\<close>.\<close>

definition P_pid :: u32 where "P_pid = 0"
definition P_state :: u32 where "P_state = 4"
definition P_name :: u32 where "P_name = 8"
definition P_page_dir :: u32 where "P_page_dir = 40"
definition P_fd_table :: u32 where "P_fd_table = 44"
definition P_entry_point :: u32 where "P_entry_point = 48"
definition P_regs :: u32 where "P_regs = 52"
definition P_next :: u32 where "P_next = 120"
definition P_prev :: u32 where "P_prev = 124"
definition SIZEOF_process :: u32 where "SIZEOF_process = 128"
definition SIZEOF_registers :: nat where "SIZEOF_registers = 68"

definition R_cr2 :: u32 where "R_cr2 = 0"
definition R_ds :: u32 where "R_ds = 4"
definition R_edi :: u32 where "R_edi = 8"
definition R_esi :: u32 where "R_esi = 12"
definition R_ebp :: u32 where "R_ebp = 16"
definition R_esp :: u32 where "R_esp = 20"
definition R_ebx :: u32 where "R_ebx = 24"
definition R_edx :: u32 where "R_edx = 28"
definition R_ecx :: u32 where "R_ecx = 32"
definition R_eax :: u32 where "R_eax = 36"
definition R_intrupt_number :: u32 where "R_intrupt_number = 40"
definition R_error_code :: u32 where "R_error_code = 44"
definition R_eip :: u32 where "R_eip = 48"
definition R_csm :: u32 where "R_csm = 52"
definition R_eflags :: u32 where "R_eflags = 56"
definition R_useresp :: u32 where "R_useresp = 60"
definition R_ss :: u32 where "R_ss = 64"

lemmas process_fields = P_pid_def P_state_def P_name_def P_page_dir_def P_fd_table_def P_entry_point_def P_regs_def
  P_next_def P_prev_def
lemmas register_fields = R_cr2_def R_ds_def R_edi_def R_esi_def R_ebp_def R_esp_def R_ebx_def R_edx_def R_ecx_def
  R_eax_def R_intrupt_number_def R_error_code_def R_eip_def R_csm_def R_eflags_def R_useresp_def R_ss_def

record proc_state = vfs_state +
  is_init_process :: bool
  process_head :: u32
  pid_bitmap :: "u32 \<Rightarrow> u8"
  current_process_running :: u32

text \<open>Field access at a null pointer is a \<open>Fault\<close>; the one allocation that is not checked is tested
  for it here.\<close>

definition init_process :: "'a proc_state_scheme \<Rightarrow> (unit, 'a proc_state_scheme) res" where
  "init_process s =
     bind (kmalloc SIZEOF_process s) (\<lambda>p s.
     let s = s\<lparr>process_head := p\<rparr> in
     if p = 0 then Fault else
     let s = memset p 0 SIZEOF_process s;
         s = s\<lparr>pid_bitmap := (\<lambda>i. if unat i < MAX_PROCESSES div 8 then 0 else pid_bitmap s i)\<rparr>;
         s = file_put P_state p PROC_IDLE s;
         s = s\<lparr>current_process_running := p\<rparr> in
     Ret () (s\<lparr>is_init_process := True\<rparr>))"

text \<open>The scan for a free number, with the numbers still to be tried.\<close>

fun pid_scan :: "nat \<Rightarrow> u32 \<Rightarrow> (u32 \<Rightarrow> u8) \<Rightarrow> u32" where
  "pid_scan 0 i bm = 0"
| "pid_scan (Suc n) i bm = (if bm (i div 8) AND push_bit (unat (i mod 8)) 1 = 0 then i else pid_scan n (i + 1) bm)"

definition allocate_pid :: "'a proc_state_scheme \<Rightarrow> u32 \<times> 'a proc_state_scheme" where
  "allocate_pid s =
     (let i = pid_scan (MAX_PROCESSES - 1) 1 (pid_bitmap s) in
      if i = 0 then (0, s)
      else (i, s\<lparr>pid_bitmap := (pid_bitmap s)(i div 8 := pid_bitmap s (i div 8) OR push_bit (unat (i mod 8)) 1)\<rparr>))"

definition deallocate_pid :: "u32 \<Rightarrow> 'a proc_state_scheme \<Rightarrow> 'a proc_state_scheme" where
  "deallocate_pid pid s =
     (if unat pid \<ge> MAX_PROCESSES then s
      else s\<lparr>pid_bitmap := (pid_bitmap s)(pid div 8 := pid_bitmap s (pid div 8) AND NOT (push_bit (unat (pid mod 8)) 1))\<rparr>)"

text \<open>The registers a new process starts with.\<close>

definition start_registers :: "u32 \<Rightarrow> 'a machine_scheme \<Rightarrow> 'a machine_scheme" where
  "start_registers process s =
     fold (\<lambda>(r, v) s. file_put (P_regs + r) process (v s) s)
       [(R_eip, file_get P_entry_point process), (R_csm, \<lambda>_. 0x1B), (R_eflags, \<lambda>_. 0x202), (R_ds, \<lambda>_. 0x23), (R_ss, \<lambda>_. 0x23),
        (R_useresp, \<lambda>_. STACK_ELF_START + 0x1000), (R_esp, file_get (P_regs + R_useresp) process), (R_cr2, \<lambda>_. 0),
        (R_eax, \<lambda>_. 0), (R_ebx, \<lambda>_. 0), (R_ecx, \<lambda>_. 0), (R_edx, \<lambda>_. 0), (R_esi, \<lambda>_. 0), (R_edi, \<lambda>_. 0), (R_ebp, \<lambda>_. 0)] s"

definition append_process :: "u32 \<Rightarrow> 'a proc_state_scheme \<Rightarrow> (unit, 'a proc_state_scheme) res" where
  "append_process process s =
     bind (loop (\<lambda>p s. file_get P_next p s \<noteq> 0) (\<lambda>p s. Ret (file_get P_next p s) s) (process_head s) s) (\<lambda>current_process s.
     let s = file_put P_next current_process process s in
     Ret () (file_put P_prev process current_process s))"

definition new_process :: "u32 \<Rightarrow> u32 \<Rightarrow> 'a proc_state_scheme \<Rightarrow> (u32, 'a proc_state_scheme) res" where
  "new_process path elf_file s =
     bind (kmalloc SIZEOF_process s) (\<lambda>process s.
     if process = 0 then Fault else
     let s = memset process 0 SIZEOF_process s in
     bind (vmm_new_page_dir s) (\<lambda>page_dir s.
     let s = file_put P_page_dir process page_dir s in
     bind (vfs_fd_table_create s) (\<lambda>table s.
     let s = file_put P_fd_table process table s;
         (pid, s) = allocate_pid s;
         s = file_put P_pid process pid s;
         s = file_put P_state process PROC_RUNNING s;
         s = memcpy (process + P_name) path (of_nat PROC_NAME_MAX) s in
     bind (elf_load elf_file (process + P_entry_point) (file_get P_page_dir process s) s) (\<lambda>r s.
     if r = 0 then
       bind (kfree elf_file s) (\<lambda>_ s.
       let s = start_registers process s in
       bind (append_process process s) (\<lambda>_ s. Ret process s))
     else bind (kfree elf_file s) (\<lambda>_ s. Ret 0 s)))))"

definition create_process :: "u32 \<Rightarrow> 'a proc_state_scheme \<Rightarrow> (u32, 'a proc_state_scheme) res" where
  "create_process path s =
     (if \<not> is_init_process s then Ret 0 s else
      case string_at (mem s) path of None \<Rightarrow> Hang
      | Some name \<Rightarrow>
          let old_fd_table = vfs_fd_table s;
              s = s\<lparr>vfs_fd_table := kernel_fd_table s\<rparr> in
          bind (vfs_open name O_RDONLY s) (\<lambda>fd s.
          if fd < 0 then Ret 0 s else
          let file_size = vfs_size fd s in
          bind (kmalloc file_size s) (\<lambda>elf_file s.
          if elf_file = 0 then kernel_panic s else
          bind (vfs_read fd elf_file file_size s) (\<lambda>bytes_read s.
          if bytes_read \<noteq> file_size then bind (kfree elf_file s) (\<lambda>_ s. Ret 0 s) else
          bind (vfs_close fd s) (\<lambda>_ s.
          let s = s\<lparr>vfs_fd_table := old_fd_table\<rparr> in
          new_process path elf_file s)))))"

section \<open>The scheduler\<close>

text \<open>The body of the \<^verbatim>\<open>do\<close> loop; the result says whether it was left by the \<^verbatim>\<open>break\<close>.\<close>

definition next_process :: "u32 \<Rightarrow> 'a proc_state_scheme \<Rightarrow> u32 \<times> bool" where
  "next_process p s =
     (if file_get P_next p s \<noteq> 0 then (file_get P_next p s, False)
      else if file_get P_next (process_head s) s \<noteq> 0 then (file_get P_next (process_head s) s, False)
      else (process_head s, True))"

definition schedule_step :: "'a proc_state_scheme \<Rightarrow> (bool, 'a proc_state_scheme) res" where
  "schedule_step s =
     (let (p, stop) = next_process (current_process_running s) s in Ret stop (s\<lparr>current_process_running := p\<rparr>))"

definition schedule :: "u32 \<Rightarrow> 'a proc_state_scheme \<Rightarrow> (u32, 'a proc_state_scheme) res" where
  "schedule regs s =
     (let s = outb 0x20 0x20 s in
      if \<not> is_init_process s then Ret regs s else
      let s = memcpy (current_process_running s + P_regs) regs (of_nat SIZEOF_registers) s;
          start = current_process_running s in
      bind (bind (schedule_step s)
             (loop (\<lambda>stop s. \<not> stop \<and> file_get P_state (current_process_running s) s \<noteq> PROC_RUNNING \<and>
                      current_process_running s \<noteq> start) (\<lambda>_. schedule_step))) (\<lambda>_ s.
      if file_get P_state (current_process_running s) s = PROC_RUNNING then
        let s = mem_change_page_dir (file_get P_page_dir (current_process_running s) s) s;
            s = s\<lparr>vfs_fd_table := file_get P_fd_table (current_process_running s) s\<rparr> in
        Ret (current_process_running s + P_regs) s
      else Ret regs s))"

end
