(* ===== verification/Structs.thy ===== *)
theory Structs
  imports Process
begin

unbundle bit_operations_syntax

text \<open>
  Structures in byte memory: what a write to one field of a structure (\<open>file_put\<close>) does to the other
  fields (\<open>file_get\<close>), to structures apart from it, and to the rest of the state. Shared by the file
  handles, the descriptor tables and the process list.
\<close>

named_theorems field_simps \<open>reading a field after a write\<close>

lemma get_put_same [simp, field_simps]: "file_get f p (file_put f p v s) = v"
  by (simp add: file_get_def file_put_def)

lemma get_put_field: "4 \<le> unat (f - g) \<Longrightarrow> 4 \<le> unat (g - f) \<Longrightarrow> file_get f p (file_put g p v s) = file_get f p s"
  by (simp add: file_get_def file_put_def load32_store32_apart apart_shift)

lemma get_put_apart:
  assumes "apart p n q k" "unat g + 4 \<le> n" "unat f + 4 \<le> k"
  shows "file_get f q (file_put g p v s) = file_get f q s"
  using apart_sub [OF assms] by (simp add: file_get_def file_put_def load32_store32_apart)

lemma get_store_apart:
  assumes "apart a (length bs) (q + f) 4"
  shows "file_get f q (s\<lparr>mem := store_bytes a bs (mem s)\<rparr>) = file_get f q s"
  using assms by (simp add: file_get_def load32_store_bytes_apart)

lemma load_put_apart:
  assumes "apart p n b k" "unat g + 4 \<le> n" "0 < k"
  shows "load_bytes (mem (file_put g p v s)) b k = load_bytes (mem s) b k"
  using apart_sub [OF assms(1), of g 4 0 k] assms(2,3)
  by (simp add: file_put_def store32_def load_store_bytes_apart)

text \<open>A field depends on memory alone, and a write changes memory alone.\<close>

lemma file_get_cong: "mem s = mem t \<Longrightarrow> file_get f p s = file_get f p t"
  by (simp add: file_get_def)

lemma put_frame [simp, field_simps]:
  "dev (file_put f p v s) = dev s"
  "pmem (file_put f p v s') = pmem s'" "cr3 (file_put f p v s') = cr3 s'"
  "vfs_current_fs (file_put f p v t) = vfs_current_fs t" "vfs_fd_table (file_put f p v t) = vfs_fd_table t"
  "kernel_fd_table (file_put f p v t) = kernel_fd_table t" "std_out_file (file_put f p v t) = std_out_file t"
  "process_head (file_put f p v u) = process_head u" "pid_bitmap (file_put f p v u) = pid_bitmap u"
  "is_init_process (file_put f p v u) = is_init_process u"
  "current_process_running (file_put f p v u) = current_process_running u"
  by (simp_all add: file_put_def)

lemma get_frame [simp, field_simps]:
  "file_get f p (s\<lparr>dev := d\<rparr>) = file_get f p s" "file_get f p (s'\<lparr>cr3 := c\<rparr>) = file_get f p s'"
  "file_get f p (t\<lparr>vfs_fd_table := ft\<rparr>) = file_get f p t"
  "file_get f p (u\<lparr>current_process_running := q\<rparr>) = file_get f p u"
  "file_get f p (u\<lparr>process_head := q\<rparr>) = file_get f p u" "file_get f p (u\<lparr>pid_bitmap := b\<rparr>) = file_get f p u"
  by (simp_all add: file_get_def)

text \<open>\<^verbatim>\<open>memcpy\<close> changes no byte outside its destination, whatever its source.\<close>

lemma memcpy_fold_outside:
  "k \<le> unat (x - d :: u32) \<Longrightarrow> fold (\<lambda>i m. m(d + of_nat i := m (a + of_nat i))) [0..<k] m x = m x"
proof (induction k)
  case (Suc k)
  have "k < 4294967296" using Suc.prems u32_less_size [of "x - d"] by linarith
  then have "unat (of_nat k :: u32) = k" by (rule unat_of_nat_u32)
  then have "x \<noteq> d + of_nat k" using Suc.prems by auto
  with Suc show ?case by simp
qed simp

lemma get_memcpy_apart:
  assumes "apart d (unat n) (q + f) 4"
  shows "file_get f q (memcpy d a n s) = file_get f q s"
proof -
  have "mem (memcpy d a n s) (q + f + of_nat i) = mem s (q + f + of_nat i)" if "i < 4" for i
    using memcpy_fold_outside [OF apart_outside [OF assms that]] by (simp add: memcpy_def)
  from this [of 0] this [of 1] this [of 2] this [of 3] show ?thesis by (simp add: file_get_def load32_def)
qed

lemma memcpy_frame [simp, field_simps]:
  "dev (memcpy d a n s) = dev s" "pmem (memcpy d a n s') = pmem s'" "cr3 (memcpy d a n s') = cr3 s'"
  "vfs_fd_table (memcpy d a n t) = vfs_fd_table t" "process_head (memcpy d a n u) = process_head u"
  "is_init_process (memcpy d a n u) = is_init_process u"
  "current_process_running (memcpy d a n u) = current_process_running u"
  by (simp_all add: memcpy_def)

text \<open>The booted machine of theory \<open>Heap_Clients\<close> with the variables of the other components as they are
  before they are initialised, for the witnesses.\<close>

definition boot_kernel :: proc_state where
  "boot_kernel = vfs_state.extend (ext3_state.extend (fat32_state.extend
     (heap_state.extend booted_heap (fat32_state.fields (bpb_at (\<lambda>_. 0) 0) False 2))
     (ext3_state.fields (superblock_at (\<lambda>_. 0) 0) False 0 0 0 0 0 0 0 0 []))
     (vfs_state.fields None 0 0 0)) (proc_state.fields False 0 (\<lambda>_. 0) 0)"

end
