(* ===== verification/File_Table.thy ===== *)
theory File_Table
  imports Structs
begin

unbundle bit_operations_syntax

text \<open>
  The descriptor tables of \<^verbatim>\<open>FS/vfs.c\<close>: what an entry of a table is after \<^verbatim>\<open>vfs_fd_alloc\<close>, and how
  \<^verbatim>\<open>vfs_close\<close> takes it back.
\<close>

section \<open>Writing the same field twice, and fields apart from each other\<close>

lemma store_bytes_commute:
  assumes "apart a (length bs) b (length cs)"
  shows "store_bytes a bs (store_bytes b cs m) = store_bytes b cs (store_bytes a bs m)"
proof
  fix x
  have "\<not> (unat (x - a) < length bs \<and> unat (x - b) < length cs)"
    using apart_outside [OF assms, of "unat (x - b)"] by auto
  then show "store_bytes a bs (store_bytes b cs m) x = store_bytes b cs (store_bytes a bs m) x"
    by (auto simp: store_bytes_def)
qed

lemma store_bytes_again: "length bs = length cs \<Longrightarrow> store_bytes a bs (store_bytes a cs m) = store_bytes a bs m"
  by (auto simp: store_bytes_def fun_eq_iff)

lemma store_bytes_back: "store_bytes a (load_bytes m a n) m = m"
  by (auto simp: store_bytes_def fun_eq_iff)

lemma le32_of_le32: "le32 (of_le32 b0 b1 b2 b3) = [b0, b1, b2, b3]"
  unfolding le32_def of_le32_def list.inject by (intro conjI refl; rule bit_word_eqI) (auto simp: bit_simps dest: bit_imp_le_length)

lemma le32_load32: "le32 (load32 m a) = load_bytes m a 4"
  by (simp add: load32_def le32_of_le32 load_bytes_def upt_rec)

lemma put_put_same: "file_put f p v (file_put f p w s) = file_put f p v s"
  by (simp add: file_put_def store32_def store_bytes_again)

lemma put_get_same: "file_put f p (file_get f p s) s = s"
  using store_bytes_back [of "p + f" "mem s" 4] by (simp add: file_put_def file_get_def store32_def le32_load32)

lemma put_put_commute:
  "apart (p + f) 4 (q + g) 4 \<Longrightarrow> file_put f p v (file_put g q w s) = file_put g q w (file_put f p v s)"
  using store_bytes_commute [of "p + f" "le32 v" "q + g" "le32 w" "mem s"] by (simp add: file_put_def store32_def)

section \<open>A table and a file\<close>

lemma unat_slot: "i < 256 \<Longrightarrow> unat (4 * of_nat i :: u32) = 4 * i"
  using unat_of_nat_u32 [of "4 * i"] by simp

text \<open>The words of a table are apart from each other, and from the counter of a file apart from the table.\<close>

lemma slots_apart:
  assumes "i < 256" "j \<le> 256" "i \<noteq> j"
  shows "apart (4 * of_nat i :: u32) 4 (4 * of_nat j) 4"
proof -
  have u: "unat (4 * of_nat i :: u32) = 4 * i" "unat (4 * of_nat j :: u32) = 4 * j"
    using assms unat_of_nat_u32 [of "4 * i"] unat_of_nat_u32 [of "4 * j"] by simp_all
  have ne: "(4 * of_nat i :: u32) \<noteq> 4 * of_nat j" using u assms(3) by (metis mult_left_cancel zero_neq_numeral)
  show ?thesis
  proof (cases "i < j")
    case True
    then have "unat (4 * of_nat j - 4 * of_nat i :: u32) = 4 * j - 4 * i" using u by (simp add: unat_sub_u32 u32_le_iff)
    with True unat_diff_swap [OF ne] assms(2) show ?thesis by (auto simp: apart_def)
  next
    case False
    then have lt: "j < i" using assms(3) by simp
    then have "unat (4 * of_nat i - 4 * of_nat j :: u32) = 4 * i - 4 * j" using u by (simp add: unat_sub_u32 u32_le_iff)
    with lt unat_diff_swap [OF ne [symmetric]] assms(1) show ?thesis by (auto simp: apart_def)
  qed
qed

lemma table_apart:
  assumes "apart table 1028 file 276"
  shows "i < 256 \<Longrightarrow> apart (table + FT_files i) 4 (file + VF_ref_count) 4" "apart (table + FT_count) 4 (file + VF_ref_count) 4"
    "i < 256 \<Longrightarrow> apart (table + FT_files i) 4 (table + FT_count) 4"
    "i < 256 \<Longrightarrow> j < 256 \<Longrightarrow> i \<noteq> j \<Longrightarrow> apart (table + FT_files i) 4 (table + FT_files j) 4"
  using apart_sub [OF assms, of "FT_files i" 4 VF_ref_count 4] apart_sub [OF assms, of FT_count 4 VF_ref_count 4]
    slots_apart [of i 256] slots_apart [of i j]
  by (simp_all add: vfs_fields apart_def unat_slot)

lemma get_put_word: "apart (q + g) 4 (p + f) 4 \<Longrightarrow> file_get f p (file_put g q v s) = file_get f p s"
  by (simp add: file_get_def file_put_def load32_store32_apart)

lemma find_first: "i < n \<Longrightarrow> m \<le> i \<Longrightarrow> P i \<Longrightarrow> (\<And>j. m \<le> j \<Longrightarrow> j < i \<Longrightarrow> \<not> P j) \<Longrightarrow> find P [m..<n] = Some i"
  by (fastforce simp: find_Some_iff intro: exI [of _ "i - m"])

section \<open>The property\<close>


text \<open>A table whose descriptors 1 and 3 are in use, and a file with one reference.\<close>

definition demo_table :: proc_state where
  "demo_table = boot_kernel\<lparr>mem := store32 0xD0001004 0xC0110000 (store32 0xD000100C 0xD0003000
     (store32 0xD0001400 2 (store32 0xD000210C 1 (\<lambda>_. 0)))), vfs_fd_table := 0xD0001000\<rparr>"


end
