(* ===== verification/Scheduler.thy ===== *)
theory Scheduler
  imports Structs
begin

unbundle bit_operations_syntax

text \<open>
  The process table. \<open>proc_list s ps\<close> says that the list from \<^verbatim>\<open>process_head\<close> is \<open>ps\<close>: distinct
  descriptors apart from each other, linked in both directions. On it the scheduler takes the next
  runnable process in cyclic order, and process numbers are a pool in the sense of theory \<open>Pmm\<close>.
\<close>

section \<open>Process numbers\<close>

definition pid_taken :: "(u32 \<Rightarrow> u8) \<Rightarrow> nat \<Rightarrow> bool" where
  "pid_taken bm k \<longleftrightarrow> bit (bm (of_nat (k div 8))) (k mod 8)"

definition pids_used :: "'a proc_state_scheme \<Rightarrow> nat set" where
  "pids_used s = {k \<in> {1..<MAX_PROCESSES}. pid_taken (pid_bitmap s) k}"

lemma and_push_1: "(b AND push_bit k (1 :: u8) = 0) \<longleftrightarrow> \<not> bit b k" if "k < 8"
proof -
  have "bit (b AND push_bit k 1) k \<longleftrightarrow> bit b k" using that by (simp add: bit_simps)
  moreover have "b AND push_bit k 1 = 0" if "\<not> bit b k"
    by (rule bit_word_eqI) (use that in \<open>auto simp: bit_simps bit_1_iff\<close>)
  ultimately show ?thesis by fastforce
qed

lemma of_nat_div_mod_8:
  assumes "k < 4294967296"
  shows "(of_nat k :: u32) div 8 = of_nat (k div 8)" "unat ((of_nat k :: u32) mod 8) = k mod 8"
proof -
  have "unat (of_nat k :: u32) = k" using assms by (rule unat_of_nat_u32)
  moreover have "k div 8 < 4294967296" using assms by simp
  ultimately show "(of_nat k :: u32) div 8 = of_nat (k div 8)" "unat ((of_nat k :: u32) mod 8) = k mod 8"
    by (auto intro!: u32_eqI simp: unat_div unat_mod unat_of_nat_u32)
qed

lemma pid_bit: "k < 4294967296 \<Longrightarrow>
  bm ((of_nat k :: u32) div 8) AND push_bit (unat ((of_nat k :: u32) mod 8)) 1 = 0 \<longleftrightarrow> \<not> pid_taken bm k"
  by (simp add: of_nat_div_mod_8 and_push_1 pid_taken_def del: push_bit_of_1)

lemma pid_scan_find:
  "i + n \<le> 4294967296 \<Longrightarrow>
   pid_scan n (of_nat i) bm = (case find (\<lambda>k. \<not> pid_taken bm k) [i..<i + n] of None \<Rightarrow> 0 | Some k \<Rightarrow> of_nat k)"
proof (induction n arbitrary: i)
  case (Suc n)
  have "[i..<i + Suc n] = i # [Suc i..<Suc i + n]" by (simp add: upt_conv_Cons)
  moreover have "pid_scan n (of_nat i + 1) bm =
      (case find (\<lambda>k. \<not> pid_taken bm k) [Suc i..<Suc i + n] of None \<Rightarrow> 0 | Some k \<Rightarrow> of_nat k)"
    using Suc.IH [of "Suc i"] Suc.prems by (simp add: add.commute)
  moreover have "i < 4294967296" using Suc.prems by simp
  ultimately show ?case by (simp add: pid_bit del: push_bit_of_1 upt_Suc)
qed simp

lemma find_upt_Min:
  "find P [i..<j] = (if {k \<in> {i..<j}. P k} = {} then None else Some (Min {k \<in> {i..<j}. P k}))"
proof (cases "find P [i..<j]")
  case None
  then have "{k \<in> {i..<j}. P k} = {}" by (auto simp: find_None_iff)
  with None show ?thesis by simp
next
  case (Some k)
  then obtain n where n: "n < j - i" "P ([i..<j] ! n)" "k = [i..<j] ! n" "\<forall>m<n. \<not> P ([i..<j] ! m)"
    by (auto simp: find_Some_iff)
  then have k: "k = i + n" "P k" "k < j" "i \<le> k" by auto
  have "k \<le> l" if "l \<in> {k \<in> {i..<j}. P k}" for l
  proof (rule ccontr)
    assume "\<not> k \<le> l"
    then have "l - i < n" using that k(1) by auto
    then have "\<not> P ([i..<j] ! (l - i))" using n(4) by blast
    moreover have "[i..<j] ! (l - i) = l" using that by (subst nth_upt) auto
    ultimately show False using that by simp
  qed
  then have "Min {k \<in> {i..<j}. P k} = k" using k by (intro Min_eqI) auto
  with Some k show ?thesis by auto
qed

lemma pid_taken_upd:
  assumes "k < MAX_PROCESSES" "j < MAX_PROCESSES"
  shows "pid_taken (bm(of_nat (k div 8) := bm (of_nat (k div 8)) OR push_bit (k mod 8) 1)) j \<longleftrightarrow> j = k \<or> pid_taken bm j"
    and "pid_taken (bm(of_nat (k div 8) := bm (of_nat (k div 8)) AND NOT (push_bit (k mod 8) 1))) j \<longleftrightarrow> j \<noteq> k \<and> pid_taken bm j"
proof -
  have "(of_nat (j div 8) :: u32) = of_nat (k div 8) \<longleftrightarrow> j div 8 = k div 8"
    using assms by (simp add: word_unat_eq_iff unat_of_nat_u32 MAX_PROCESSES_def)
  moreover have "j = k \<longleftrightarrow> j div 8 = k div 8 \<and> j mod 8 = k mod 8" by (metis div_mult_mod_eq)
  ultimately show "pid_taken (bm(of_nat (k div 8) := bm (of_nat (k div 8)) OR push_bit (k mod 8) 1)) j \<longleftrightarrow> j = k \<or> pid_taken bm j"
    "pid_taken (bm(of_nat (k div 8) := bm (of_nat (k div 8)) AND NOT (push_bit (k mod 8) 1))) j \<longleftrightarrow> j \<noteq> k \<and> pid_taken bm j"
    by (auto simp: pid_taken_def bit_simps bit_1_iff)
qed

lemma allocate_pid_full:
  assumes "{1..<MAX_PROCESSES} \<subseteq> pids_used s"
  shows "allocate_pid s = (0, s)"
proof -
  have "{k \<in> {1..<4194304}. \<not> pid_taken (pid_bitmap s) k} = {}" using assms by (auto simp: pids_used_def MAX_PROCESSES_def)
  then show ?thesis using pid_scan_find [of 1 4194303 "pid_bitmap s"]
    by (simp add: allocate_pid_def find_upt_Min MAX_PROCESSES_def)
qed

lemma allocate_pid_free:
  assumes "\<not> {1..<MAX_PROCESSES} \<subseteq> pids_used s"
  defines "k \<equiv> Min ({1..<MAX_PROCESSES} - pids_used s)"
  shows "fst (allocate_pid s) = of_nat k" "pids_used (snd (allocate_pid s)) = insert k (pids_used s)"
proof -
  have eq: "{1..<MAX_PROCESSES} - pids_used s = {k \<in> {1..<4194304}. \<not> pid_taken (pid_bitmap s) k}"
    by (auto simp: pids_used_def MAX_PROCESSES_def)
  have "k \<in> {1..<MAX_PROCESSES} - pids_used s" unfolding k_def by (rule Min_in) (use assms in auto)
  then have k: "k < 4294967296" "k < MAX_PROCESSES" "1 \<le> k" "unat (of_nat k :: u32) = k"
    by (auto simp: MAX_PROCESSES_def unat_of_nat_u32)
  then have nz: "(of_nat k :: u32) \<noteq> 0" by force
  have "pid_scan (MAX_PROCESSES - 1) 1 (pid_bitmap s) = of_nat k"
  proof -
    have "{k \<in> {1..<4194304}. \<not> pid_taken (pid_bitmap s) k} \<noteq> {}" using assms(1) unfolding eq [symmetric] by auto
    then have "find (\<lambda>k. \<not> pid_taken (pid_bitmap s) k) [1..<1 + 4194303] = Some k"
      unfolding find_upt_Min k_def eq by simp
    then show ?thesis using pid_scan_find [of 1 4194303 "pid_bitmap s"] by (simp add: MAX_PROCESSES_def del: upt_rec_numeral)
  qed
  then have a: "allocate_pid s = (of_nat k, s\<lparr>pid_bitmap := (pid_bitmap s)(of_nat (k div 8) :=
      pid_bitmap s (of_nat (k div 8)) OR push_bit (k mod 8) 1)\<rparr>)"
    using nz of_nat_div_mod_8 [OF k(1)] by (simp add: allocate_pid_def del: push_bit_of_1)
  then show "fst (allocate_pid s) = of_nat k" "pids_used (snd (allocate_pid s)) = insert k (pids_used s)"
    using k by (auto simp: pids_used_def pid_taken_upd simp del: push_bit_of_1)
qed

lemma deallocate_pid_used:
  assumes "k < MAX_PROCESSES"
  shows "pids_used (deallocate_pid (of_nat k) s) = pids_used s - {k}"
proof -
  have k: "k < 4294967296" "unat (of_nat k :: u32) = k" using assms by (auto simp: MAX_PROCESSES_def unat_of_nat_u32)
  show ?thesis using assms by (auto simp: deallocate_pid_def k of_nat_div_mod_8 [OF k(1)] pids_used_def pid_taken_upd simp del: push_bit_of_1)
qed

interpretation pid: id_pool "\<lambda>_ :: 'a proc_state_scheme. True" "\<lambda>_. {1..<MAX_PROCESSES}" pids_used of_nat
  "\<lambda>s. case_prod Ret (allocate_pid s)" "\<lambda>i s. Ret () (deallocate_pid i s)"
proof unfold_locales
  have small: "unat (of_nat k :: u32) = k" if "k < MAX_PROCESSES" for k
    using that by (simp add: MAX_PROCESSES_def unat_of_nat_u32)
  then show "inj_on (of_nat :: nat \<Rightarrow> u32) {1..<MAX_PROCESSES}" by (metis inj_onI atLeastLessThan_iff)
  show "(of_nat k :: u32) \<noteq> 0" if "k \<in> {1..<MAX_PROCESSES}" for k using that small [of k] by force
qed (auto simp: allocate_pid_full deallocate_pid_used allocate_pid_free split_beta)

section \<open>The process list\<close>

definition proc_list :: "'a proc_state_scheme \<Rightarrow> u32 list \<Rightarrow> bool" where
  "proc_list s ps \<longleftrightarrow> ps \<noteq> [] \<and> process_head s = hd ps \<and>
     (\<forall>i<length ps. ps ! i \<noteq> 0 \<and> file_get P_next (ps ! i) s = (if Suc i < length ps then ps ! Suc i else 0) \<and>
        file_get P_prev (ps ! i) s = (if i = 0 then 0 else ps ! (i - 1)) \<and>
        (\<forall>j<length ps. i \<noteq> j \<longrightarrow> apart (ps ! i) 128 (ps ! j) 128))"

lemma proc_listD:
  assumes "proc_list s ps" "i < length ps"
  shows "ps ! i \<noteq> 0" "file_get P_next (ps ! i) s = (if Suc i < length ps then ps ! Suc i else 0)"
    "file_get P_prev (ps ! i) s = (if i = 0 then 0 else ps ! (i - 1))"
    "j < length ps \<Longrightarrow> i \<noteq> j \<Longrightarrow> apart (ps ! i) 128 (ps ! j) 128"
  using assms by (auto simp: proc_list_def)

lemma proc_list_head: "proc_list s ps \<Longrightarrow> ps \<noteq> [] \<and> process_head s = ps ! 0"
  by (simp add: proc_list_def hd_conv_nth)

lemma apart_distinct: "apart p n q k \<Longrightarrow> 0 < n \<Longrightarrow> p \<noteq> q"
  by (auto simp: apart_def)

lemma proc_list_distinct: "proc_list s ps \<Longrightarrow> distinct ps"
  unfolding distinct_conv_nth using apart_distinct proc_listD(4) zero_less_numeral by metis

lemma proc_list_cong:
  assumes "proc_list s ps" "process_head t = process_head s"
    and "\<And>p. p \<in> set ps \<Longrightarrow> file_get P_next p t = file_get P_next p s \<and> file_get P_prev p t = file_get P_prev p s"
  shows "proc_list t ps"
  using assms by (simp add: proc_list_def)

lemma walk_to_last:
  assumes "proc_list s ps" "i < length ps"
  shows "loop (\<lambda>p s. file_get P_next p s \<noteq> 0) (\<lambda>p s. Ret (file_get P_next p s) s) (ps ! i) s = Ret (last ps) s"
  using assms(2)
proof (induction "length ps - i" arbitrary: i)
  case (Suc k)
  note n = proc_listD(2) [OF assms(1) Suc.prems]
  show ?case
  proof (cases "Suc i < length ps")
    case True
    moreover have "ps ! Suc i \<noteq> 0" using proc_listD(1) [OF assms(1) True] .
    moreover have "k = length ps - Suc i" using Suc.hyps(2) Suc.prems by simp
    ultimately show ?thesis using n Suc.hyps(1) [of "Suc i"] by (simp add: loop_step)
  next
    case False
    then have "ps ! i = last ps" using Suc.prems by (subst last_conv_nth) (auto intro: arg_cong)
    with False n show ?thesis by simp
  qed
qed simp

text \<open>A descriptor whose links are null becomes the last of the list.\<close>

lemma append_process_run:
  fixes s :: "'a proc_state_scheme"
  assumes pl: "proc_list s ps" and p: "p \<noteq> 0" "file_get P_next p s = 0" "\<And>q. q \<in> set ps \<Longrightarrow> apart p 128 q 128"
  shows "append_process p s = Ret () (file_put P_prev p (last ps) (file_put P_next (last ps) p s))"
    "proc_list (file_put P_prev p (last ps) (file_put P_next (last ps) p s)) (ps @ [p])"
proof -
  let ?l = "last ps" and ?t = "file_put P_prev p (last ps) (file_put P_next (last ps) p s)"
  have ne: "ps \<noteq> []" "process_head s = ps ! 0" using proc_list_head [OF pl] by simp_all
  show "append_process p s = Ret () ?t"
    using walk_to_last [OF pl, of 0] ne by (simp add: append_process_def)
  have l: "?l = ps ! (length ps - 1)" "length ps - 1 < length ps" using ne by (simp_all add: last_conv_nth)
  have pl_apart: "apart p 128 (ps ! i) 128" if "i < length ps" for i using p(3) that by simp
  have ll: "apart ?l 128 p 128" using pl_apart [of "length ps - 1"] l by (simp add: apart_sym)
  have old: "file_get f (ps ! i) ?t = file_get f (ps ! i) (file_put P_next ?l p s)"
    if "i < length ps" "unat f + 4 \<le> 128" for i f
    using get_put_apart [OF pl_apart [OF that(1)], of P_prev f] that(2) by (simp add: P_prev_def)
  have mid: "file_get f (ps ! i) (file_put P_next ?l p s) = file_get f (ps ! i) s"
    if "i < length ps - 1" "unat f + 4 \<le> 128" for i f
    using get_put_apart [of ?l 128 "ps ! i" 128 P_next f] proc_listD(4) [OF pl l(2), of i] that l(1) by (simp add: P_next_def)
  have last: "file_get P_next ?l ?t = p" "file_get P_prev ?l ?t = file_get P_prev ?l s"
    using old [OF l(2)] by (simp_all add: l(1) get_put_field P_next_def P_prev_def)
  have new: "file_get P_prev p ?t = ?l" "file_get P_next p ?t = 0"
    using p(2) get_put_apart [OF ll, where f = P_next and g = P_next and v = p and s = s]
    by (simp_all add: get_put_field P_next_def P_prev_def)
  have "(ps @ [p]) ! i \<noteq> 0 \<and> file_get P_next ((ps @ [p]) ! i) ?t = (if Suc i < length (ps @ [p]) then (ps @ [p]) ! Suc i else 0) \<and>
      file_get P_prev ((ps @ [p]) ! i) ?t = (if i = 0 then 0 else (ps @ [p]) ! (i - 1)) \<and>
      (\<forall>j<length (ps @ [p]). i \<noteq> j \<longrightarrow> apart ((ps @ [p]) ! i) 128 ((ps @ [p]) ! j) 128)" if "i < length (ps @ [p])" for i
  proof (cases "i < length ps")
    case False
    with that have i: "i = length ps" by simp
    have "apart p 128 ((ps @ [p]) ! j) 128" if "j < length (ps @ [p])" "i \<noteq> j" for j
      using that pl_apart [of j] by (simp add: i nth_append)
    then show ?thesis using new p(1) ne(1) l by (simp add: i nth_append)
  next
    case True
    have "apart (ps ! i) 128 ((ps @ [p]) ! j) 128" if "j < length (ps @ [p])" "i \<noteq> j" for j
    proof (cases "j < length ps")
      case True
      then show ?thesis using proc_listD(4) [OF pl \<open>i < length ps\<close>] that by (simp add: nth_append)
    next
      case False
      with that have "j = length ps" by simp
      then show ?thesis using pl_apart [OF \<open>i < length ps\<close>] by (simp add: nth_append apart_sym)
    qed
    moreover have "file_get P_next (ps ! i) ?t = (ps @ [p]) ! Suc i \<and> file_get P_prev (ps ! i) ?t = file_get P_prev (ps ! i) s"
    proof (cases "i = length ps - 1")
      case True
      then show ?thesis using last l ne(1) by (simp add: nth_append)
    next
      case False
      then have i: "i < length ps - 1" using \<open>i < length ps\<close> by simp
      then show ?thesis using old [OF \<open>i < length ps\<close>] mid [OF i] proc_listD(2) [OF pl \<open>i < length ps\<close>]
        by (auto simp: P_next_def P_prev_def nth_append)
    qed
    ultimately show ?thesis using proc_listD [OF pl True] True by (auto simp: nth_append)
  qed
  then show "proc_list ?t (ps @ [p])" using pl by (auto simp: proc_list_def)
qed

section \<open>The scheduler\<close>

abbreviation runnable :: "'a proc_state_scheme \<Rightarrow> u32 \<Rightarrow> bool" where
  "runnable s p \<equiv> file_get P_state p s = PROC_RUNNING"

text \<open>Whose turn it is after process \<open>i\<close>, in order: the later ones, then the others but for the idle
  process at the head, and at last \<open>i\<close> itself.\<close>

definition turns :: "u32 list \<Rightarrow> nat \<Rightarrow> u32 list" where
  "turns ps i = drop (Suc i) ps @ tl (take (Suc i) ps)"

text \<open>The loop along a list of candidates.\<close>

fun leads :: "'a proc_state_scheme \<Rightarrow> u32 \<Rightarrow> u32 list \<Rightarrow> bool" where
  "leads s p [] \<longleftrightarrow> True"
| "leads s p (q # qs) \<longleftrightarrow> next_process p s = (q, False) \<and> leads s q qs"

lemma leads_append: "leads s p (qs @ [r]) \<longleftrightarrow> leads s p qs \<and> next_process (last (p # qs)) s = (r, False)"
  by (induction qs arbitrary: p) auto

lemma leads_prefix: "leads s p (qs @ rs) \<Longrightarrow> leads s p qs"
  by (induction qs arbitrary: p) auto

abbreviation schedule_loop :: "u32 \<Rightarrow> bool \<Rightarrow> 'a proc_state_scheme \<Rightarrow> (bool, 'a proc_state_scheme) res" where
  "schedule_loop start \<equiv> loop (\<lambda>stop s. \<not> stop \<and> file_get P_state (current_process_running s) s \<noteq> PROC_RUNNING \<and>
     current_process_running s \<noteq> start) (\<lambda>_. schedule_step)"

lemma next_process_current [simp]: "next_process p (s\<lparr>current_process_running := q\<rparr>) = next_process p s"
  by (simp add: next_process_def)

lemma schedule_step_next:
  "schedule_step (s\<lparr>current_process_running := p\<rparr>) =
     Ret (snd (next_process p s)) (s\<lparr>current_process_running := fst (next_process p s)\<rparr>)"
  by (simp add: schedule_step_def split_beta)

lemma schedule_loop_stops:
  assumes "leads s p (qs @ [r])" "\<forall>q\<in>set qs. \<not> runnable s q \<and> q \<noteq> start" "runnable s r \<or> r = start"
  shows "bind (schedule_step (s\<lparr>current_process_running := p\<rparr>)) (schedule_loop start) = Ret False (s\<lparr>current_process_running := r\<rparr>)"
  using assms
proof (induction qs arbitrary: p)
  case Nil
  then show ?case by (auto simp: schedule_step_next)
next
  case (Cons q qs)
  then have "bind (schedule_step (s\<lparr>current_process_running := q\<rparr>)) (schedule_loop start) = Ret False (s\<lparr>current_process_running := r\<rparr>)"
    by simp
  with Cons.prems show ?case by (simp add: schedule_step_next loop_step)
qed

lemma next_in_list:
  assumes "proc_list s ps" "i < length ps"
  shows "next_process (ps ! i) s =
    (if Suc i < length ps then (ps ! Suc i, False) else if 1 < length ps then (ps ! 1, False) else (ps ! 0, True))"
proof -
  note n = proc_listD(2) [OF assms]
  have h: "process_head s = ps ! 0" "0 < length ps" using proc_list_head [OF assms(1)] by auto
  note n0 = proc_listD(2) [OF assms(1) h(2)]
  show ?thesis using n n0 proc_listD(1) [OF assms(1), of 1] proc_listD(1) [OF assms(1), of "Suc i"]
    by (auto simp: next_process_def h(1))
qed

lemma leads_drop:
  assumes "proc_list s ps" "i < length ps"
  shows "leads s (ps ! i) (drop (Suc i) ps)"
  using assms(2)
proof (induction "length ps - i" arbitrary: i)
  case (Suc k)
  show ?case
  proof (cases "Suc i < length ps")
    case True
    with Suc show ?thesis using next_in_list [OF assms(1) Suc.prems] by (simp add: Cons_nth_drop_Suc [symmetric])
  qed simp
qed simp

lemma leads_tl:
  assumes "proc_list s ps" "1 < length ps" "i < length ps"
  shows "leads s (ps ! (length ps - 1)) (tl (take (Suc i) ps))"
  using assms(3)
proof (induction i)
  case 0
  then show ?case by (simp add: take_Suc)
next
  case (Suc i)
  have *: "tl (take (Suc (Suc i)) ps) = tl (take (Suc i) ps) @ [ps ! Suc i]"
    using Suc.prems by (cases ps) (simp_all add: take_Suc_conv_app_nth)
  have "last (ps ! (length ps - 1) # tl (take (Suc i) ps)) = (if i = 0 then ps ! (length ps - 1) else ps ! i)"
    using Suc.prems by (cases ps) (auto simp: take_Suc last_conv_nth nth_Cons split: nat.splits)
  moreover have "next_process (ps ! (length ps - 1)) s = (ps ! 1, False)"
    using next_in_list [OF assms(1), of "length ps - 1"] assms(2) by simp
  moreover have "next_process (ps ! i) s = (ps ! Suc i, False)" using next_in_list [OF assms(1), of i] Suc.prems by simp
  ultimately show ?case using Suc unfolding * leads_append by (simp split: if_splits)
qed

lemma leads_turns:
  assumes "proc_list s ps" "i < length ps"
  shows "leads s (ps ! i) (turns ps i)"
proof (cases "1 < length ps")
  case True
  have app: "leads s p (qs @ rs) \<longleftrightarrow> leads s p qs \<and> leads s (last (p # qs)) rs" for p qs rs
    by (induction qs arbitrary: p) auto
  have "last (ps ! i # drop (Suc i) ps) = ps ! (length ps - 1)"
    using assms(2) by (cases "Suc i < length ps") (auto simp: last_conv_nth intro: arg_cong [where f = "nth ps"])
  then show ?thesis using leads_drop [OF assms] leads_tl [OF assms(1) True assms(2)] by (simp add: turns_def app)
next
  case False
  with assms show ?thesis by (cases ps) (auto simp: turns_def)
qed

text \<open>Saving the registers leaves the list, the states and the addresses in the descriptors alone.\<close>

lemma save_keeps:
  assumes "proc_list s ps" "i < length ps" "q \<in> set ps" "unat f + 4 \<le> 52 \<or> 120 \<le> unat f \<and> unat f + 4 \<le> 128"
  shows "file_get f q (memcpy (ps ! i + P_regs) regs (of_nat SIZEOF_registers) s) = file_get f q s"
proof -
  have n: "unat (of_nat SIZEOF_registers :: u32) = 68" by (simp add: SIZEOF_registers_def)
  have "apart (ps ! i + P_regs) 68 (q + f) 4"
  proof (cases "q = ps ! i")
    case True
    have "4 \<le> unat (52 - f) \<and> 68 \<le> unat (f - 52)"
      using assms(4)
    proof
      assume f: "unat f + 4 \<le> 52"
      then have d: "unat (52 - f) = 52 - unat f" by (simp add: unat_sub_u32 u32_le_iff)
      moreover have "f \<noteq> 52" using f by auto
      from unat_diff_swap [OF this] d have "unat (f - 52) = 4294967296 - (52 - unat f)" by simp
      ultimately show ?thesis using f by simp
    next
      assume f: "120 \<le> unat f \<and> unat f + 4 \<le> 128"
      then have d: "unat (f - 52) = unat f - 52" by (simp add: unat_sub_u32 u32_le_iff)
      moreover have "52 \<noteq> f" using f by auto
      from unat_diff_swap [OF this] d have "unat (52 - f) = 4294967296 - (unat f - 52)" by simp
      ultimately show ?thesis using f by linarith
    qed
    then show ?thesis by (simp add: True apart_shift P_regs_def)
  next
    case False
    with assms(3) obtain j where j: "j < length ps" "q = ps ! j" "i \<noteq> j" by (auto simp: in_set_conv_nth)
    from proc_listD(4) [OF assms(1,2) j(1,3)] assms(4) show ?thesis
      unfolding j(2) by (intro apart_sub) (auto simp: P_regs_def)
  qed
  then show ?thesis by (intro get_memcpy_apart) (simp add: n)
qed

text \<open>What the loop of the scheduler makes of the list: the first runnable process whose turn it is.\<close>

lemma turns_last: "0 < i \<Longrightarrow> i < length ps \<Longrightarrow> \<exists>qs. turns ps i = qs @ [ps ! i]"
proof -
  assume i: "0 < i" "i < length ps"
  then obtain x xs k where "ps = x # xs" "i = Suc k" by (cases ps; cases i) auto
  then show ?thesis using i by (auto simp: turns_def take_Suc_conv_app_nth)
qed

lemma turns_head: "turns ps 0 = tl ps"
  by (cases ps) (auto simp: turns_def)

lemma turns_set: "set (turns ps i) \<subseteq> set ps"
proof -
  have "set (tl (take (Suc i) ps)) \<subseteq> set ps" by (cases ps) (auto dest: in_set_takeD)
  then show ?thesis using set_drop_subset [of "Suc i" ps] by (simp add: turns_def)
qed

lemma find_split: "find P xs = Some x \<Longrightarrow> \<exists>ys zs. xs = ys @ x # zs \<and> P x \<and> (\<forall>y\<in>set ys. \<not> P y)"
proof (induction xs)
  case (Cons a xs)
  show ?case
  proof (cases "P a")
    case True
    with Cons.prems show ?thesis by (intro exI [of _ "[]"] exI [of _ xs]) auto
  next
    case False
    with Cons obtain ys zs where "xs = ys @ x # zs" "P x" "\<forall>y\<in>set ys. \<not> P y" by auto
    with False show ?thesis by (intro exI [of _ "a # ys"] exI [of _ zs]) auto
  qed
qed simp

lemma start_last:
  assumes "distinct ps" "i < length ps" "turns ps i = qs @ r # rs"
  shows "ps ! i \<notin> set qs"
proof (cases "i = 0")
  case True
  then show ?thesis using assms by (cases ps) (auto simp: turns_head)
next
  case False
  with turns_last [OF _ assms(2)] obtain us where u: "turns ps i = us @ [ps ! i]" by auto
  have "distinct (turns ps i)"
  proof -
    have "distinct (tl (take (Suc i) ps))" "distinct (drop (Suc i) ps)" using assms(1) by (simp_all add: distinct_tl)
    moreover have "set (tl (take (Suc i) ps)) \<inter> set (drop (Suc i) ps) = {}"
      using set_take_disj_set_drop_if_distinct [OF assms(1), of "Suc i" "Suc i"] by (cases ps) auto
    ultimately show ?thesis by (auto simp: turns_def)
  qed
  then have "ps ! i \<notin> set us" by (simp add: u)
  moreover have "set qs \<subseteq> set us"
  proof -
    have "us = qs @ butlast (r # rs)" using assms(3) u by (metis butlast_append butlast_snoc list.distinct(1))
    then show ?thesis by simp
  qed
  ultimately show ?thesis by blast
qed

lemma loop_picks:
  assumes pl: "proc_list s ps" "i < length ps" "current_process_running s = ps ! i"
    and f: "find (runnable s) (turns ps i) = Some q"
  shows "bind (schedule_step s) (schedule_loop (ps ! i)) = Ret False (s\<lparr>current_process_running := q\<rparr>)"
proof -
  from f obtain qs rs where t: "turns ps i = qs @ q # rs" "\<forall>x\<in>set qs. \<not> runnable s x" "runnable s q"
    using find_split [OF f] by blast
  have "leads s (ps ! i) (qs @ [q])" using leads_turns [OF pl(1,2)] leads_prefix [of s "ps ! i" "qs @ [q]" rs] t(1) by simp
  moreover have "\<forall>x\<in>set qs. \<not> runnable s x \<and> x \<noteq> ps ! i"
    using t(2) start_last [OF proc_list_distinct [OF pl(1)] pl(2) t(1)] by auto
  ultimately have "bind (schedule_step (s\<lparr>current_process_running := ps ! i\<rparr>)) (schedule_loop (ps ! i)) =
      Ret False (s\<lparr>current_process_running := q\<rparr>)" using t(3) by (intro schedule_loop_stops) auto
  then show ?thesis by (simp flip: pl(3))
qed

text \<open>The state in which the loop starts: the registers are saved in the descriptor.\<close>

definition saved :: "u32 \<Rightarrow> 'a proc_state_scheme \<Rightarrow> 'a proc_state_scheme" where
  "saved regs s = memcpy (current_process_running s + P_regs) regs (of_nat SIZEOF_registers) (outb 0x20 0x20 s)"

lemma outb_frame [simp]:
  "is_init_process (outb p v s) = is_init_process s" "current_process_running (outb p v s) = current_process_running s"
  "process_head (outb p v s) = process_head s" "file_get f q (outb p v s') = file_get f q s'"
  by (simp_all add: outb_def)

lemma saved_frame:
  assumes "proc_list s ps" "i < length ps" "current_process_running s = ps ! i"
  shows "q \<in> set ps \<Longrightarrow> unat f + 4 \<le> 52 \<or> 120 \<le> unat f \<and> unat f + 4 \<le> 128 \<Longrightarrow> file_get f q (saved regs s) = file_get f q s"
    and "proc_list (saved regs s) ps" "current_process_running (saved regs s) = ps ! i"
proof -
  have pl: "proc_list (outb 0x20 0x20 s) ps" using assms(1) by (rule proc_list_cong) simp_all
  show k: "file_get f q (saved regs s) = file_get f q s"
    if "q \<in> set ps" "unat f + 4 \<le> 52 \<or> 120 \<le> unat f \<and> unat f + 4 \<le> 128" for q f
    using save_keeps [OF pl assms(2) that] by (simp add: saved_def assms(3))
  show "proc_list (saved regs s) ps"
    using assms(1) by (rule proc_list_cong) (simp_all add: k P_next_def P_prev_def, simp add: saved_def)
  show "current_process_running (saved regs s) = ps ! i" using assms(3) by (simp add: saved_def)
qed

lemma schedule_saved:
  assumes "is_init_process s"
  shows "schedule regs s =
    bind (bind (schedule_step (saved regs s)) (schedule_loop (current_process_running s))) (\<lambda>_ s.
      if runnable s (current_process_running s) then
        let s = mem_change_page_dir (file_get P_page_dir (current_process_running s) s) s;
            s = s\<lparr>vfs_fd_table := file_get P_fd_table (current_process_running s) s\<rparr> in
        Ret (current_process_running s + P_regs) s
      else Ret regs s)"
  using assms by (simp add: schedule_def saved_def Let_def cong: if_cong)

lemma schedule_run:
  assumes "is_init_process s" and pl: "proc_list s ps" "i < length ps" "current_process_running s = ps ! i"
    and f: "find (runnable s) (turns ps i) = Some q"
  shows "schedule regs s = Ret (q + P_regs)
    (saved regs s\<lparr>current_process_running := q, cr3 := file_get P_page_dir q s - KERNEL_START, vfs_fd_table := file_get P_fd_table q s\<rparr>)"
proof -
  note k = saved_frame [OF pl]
  have q: "q \<in> set ps" "runnable s q" using f turns_set [of ps i] by (auto simp: find_Some_iff)
  have "find (runnable (saved regs s)) (turns ps i) = Some q"
    using f turns_set [of ps i] by (subst find_cong [OF refl, of _ _ "runnable s"]) (auto simp: k P_state_def)
  from loop_picks [OF k(2) pl(2) k(3) this] show ?thesis
    using q by (simp add: schedule_saved [OF assms(1)] pl(3) k P_state_def P_page_dir_def P_fd_table_def mem_change_page_dir_def)
qed

text \<open>Nothing is runnable: the loop comes back to the process it started from, or, when it started from
  the idle process, stops at once if there are no others and else goes round for ever.\<close>

lemma schedule_none:
  assumes "is_init_process s" and pl: "proc_list s ps" "i < length ps" "current_process_running s = ps ! i"
    and f: "find (runnable s) (turns ps i) = None" and h: "\<not> runnable s (ps ! 0)"
  shows "schedule regs s = (if i = 0 \<and> 1 < length ps then Hang else Ret regs (saved regs s))"
proof -
  let ?s = "saved regs s"
  note k = saved_frame [OF pl]
  have state: "runnable ?s p \<longleftrightarrow> runnable s p" if "p \<in> set ps" for p
    using k(1) [OF that, of P_state] by (simp add: P_state_def)
  have none: "\<not> runnable ?s p" if "p \<in> set (turns ps i)" for p
    using f that turns_set [of ps i] state by (auto simp: find_None_iff)
  consider (other) "0 < i" | (alone) "i = 0" "length ps = 1" | (round) "i = 0" "1 < length ps" using pl(2) by linarith
  then show ?thesis
  proof cases
    case other
    then obtain qs where qs: "turns ps i = qs @ [ps ! i]" using turns_last [OF _ pl(2)] by blast
    have "\<forall>q\<in>set qs. \<not> runnable ?s q \<and> q \<noteq> ps ! i"
      using none start_last [OF proc_list_distinct [OF pl(1)] pl(2) qs] by (auto simp: qs)
    from schedule_loop_stops [OF _ this, of "ps ! i" "ps ! i"] leads_turns [OF k(2) pl(2)]
    have "bind (schedule_step (?s\<lparr>current_process_running := ps ! i\<rparr>)) (schedule_loop (ps ! i)) =
        Ret False (?s\<lparr>current_process_running := ps ! i\<rparr>)" by (simp add: qs)
    moreover have "?s\<lparr>current_process_running := ps ! i\<rparr> = ?s" using k(3) by (metis proc_state.surjective proc_state.update_convs(4))
    moreover have "\<not> runnable ?s (ps ! i)" using none by (simp add: qs)
    ultimately show ?thesis using other by (simp add: schedule_saved [OF assms(1)] pl(3) k(3))
  next
    case alone
    then have "next_process (ps ! i) ?s = (ps ! i, True)" using next_in_list [OF k(2) pl(2)] by simp
    then have "schedule_step ?s = Ret True ?s" using k(3) by (simp add: schedule_step_def)
    then show ?thesis using alone h state [of "ps ! 0"] pl(2) by (simp add: schedule_saved [OF assms(1)] pl(3) k(3))
  next
    case round
    let ?at = "\<lambda>(stop :: bool) u. \<not> stop \<and> (\<exists>j. 0 < j \<and> j < length ps \<and> u = ?s\<lparr>current_process_running := ps ! j\<rparr>)"
    have nx: "next_process (ps ! j) ?s = (ps ! (if Suc j < length ps then Suc j else 1), False)" if "j < length ps" for j
      using next_in_list [OF k(2) that] round by simp
    have mem: "ps ! j \<in> set (turns ps i)" if "0 < j" "j < length ps" for j
      using that round by (cases ps) (auto simp: turns_head nth_Cons')
    have ne: "ps ! j \<noteq> ps ! 0" if "0 < j" "j < length ps" for j
      using proc_list_distinct [OF pl(1)] that nth_eq_iff_index_eq [of ps j 0] pl(2) round by auto
    have step: "\<exists>b u. schedule_step (?s\<lparr>current_process_running := ps ! j\<rparr>) = Ret b u \<and> ?at b u" if "j < length ps" for j
    proof -
      define k where "k = (if Suc j < length ps then Suc j else 1)"
      have "schedule_step (?s\<lparr>current_process_running := ps ! j\<rparr>) = Ret False (?s\<lparr>current_process_running := ps ! k\<rparr>)"
        using nx [OF that] by (simp add: schedule_step_next k_def)
      moreover have "0 < k" "k < length ps" using round by (auto simp: k_def)
      ultimately show ?thesis by blast
    qed
    have same: "?s\<lparr>current_process_running := ps ! 0\<rparr> = ?s" using k(3) round by (metis proc_state.surjective proc_state.update_convs(4))
    have "0 < length ps" using round by linarith
    from step [OF this] obtain b u where b: "schedule_step ?s = Ret b u" "?at b u" unfolding same by blast
    have "schedule_loop (ps ! i) b u = Hang"
    proof (rule loop_Hang [where I = ?at, OF b(2)])
      fix stop t assume "?at stop t"
      then obtain j where j: "\<not> stop" "0 < j" "j < length ps" "t = ?s\<lparr>current_process_running := ps ! j\<rparr>" by auto
      then show "(\<not> stop \<and> \<not> runnable t (current_process_running t) \<and> current_process_running t \<noteq> ps ! i) \<and>
          (\<exists>l' s'. schedule_step t = Ret l' s' \<and> ?at l' s')"
        using none [OF mem] ne [of j] step [of j] round by simp
    qed
    then show ?thesis using b(1) round by (simp add: schedule_saved [OF assms(1)] pl(3))
  qed
qed

text \<open>C36: the scheduler, from the state of the process table to its result. If a process is runnable whose
  turn it is, the registers given are saved in the descriptor of the interrupted process and the
  first such process in cyclic order becomes the current one: its page directory and descriptor table
  are installed and its registers returned; list and states are kept. If none is, the interrupted
  process goes on in its address space, but from the idle process the handler does not return when
  there are other processes.\<close>

theorem schedule_next_runnable:
  assumes "is_init_process s" "proc_list s ps" "i < length ps" "current_process_running s = ps ! i"
    and "\<not> runnable s (ps ! 0)" and "apart (ps ! i + P_regs) 68 regs 68"
  shows "case find (runnable s) (turns ps i) of
      Some q \<Rightarrow> \<exists>t. schedule regs s = Ret (q + P_regs) t \<and> current_process_running t = q \<and>
        cr3 t = file_get P_page_dir q s - KERNEL_START \<and> vfs_fd_table t = file_get P_fd_table q s \<and>
        load_bytes (mem t) (ps ! i + P_regs) 68 = load_bytes (mem s) regs 68 \<and>
        proc_list t ps \<and> (\<forall>p\<in>set ps. file_get P_state p t = file_get P_state p s)
    | None \<Rightarrow> if i = 0 \<and> 1 < length ps then schedule regs s = Hang
        else \<exists>t. schedule regs s = Ret regs t \<and> current_process_running t = ps ! i \<and> cr3 t = cr3 s \<and> vfs_fd_table t = vfs_fd_table s"
proof (cases "find (runnable s) (turns ps i)")
  case None
  have "cr3 (saved regs s) = cr3 s" "vfs_fd_table (saved regs s) = vfs_fd_table s" by (simp_all add: saved_def outb_def)
  with schedule_none [OF assms(1-4) None assms(5)] saved_frame(3) [OF assms(2-4)] None show ?thesis by simp
next
  case (Some q)
  let ?t = "saved regs s\<lparr>current_process_running := q, cr3 := file_get P_page_dir q s - KERNEL_START, vfs_fd_table := file_get P_fd_table q s\<rparr>"
  note k = saved_frame [OF assms(2-4)]
  have "mem (saved regs s) = store_bytes (ps ! i + P_regs) (load_bytes (mem s) regs 68) (mem s)"
    using memcpy_copies [of "ps ! i + P_regs" "of_nat SIZEOF_registers" regs "outb 0x20 0x20 s"] assms(4,6)
    by (simp add: saved_def SIZEOF_registers_def)
  then have "load_bytes (mem (saved regs s)) (ps ! i + P_regs) 68 = load_bytes (mem s) regs 68"
    using load_store_bytes_same [of "load_bytes (mem s) regs 68" "ps ! i + P_regs" "mem s"] by simp
  moreover have "proc_list ?t ps" using k(2) by (rule proc_list_cong) simp_all
  moreover have "\<forall>p\<in>set ps. file_get P_state p ?t = file_get P_state p s" by (simp add: k(1) P_state_def)
  ultimately show ?thesis unfolding Some option.case using schedule_run [OF assms(1-4) Some, of regs]
    by (intro exI [of _ ?t]) simp
qed

text \<open>C37: round robin. While all processes but the idle one are runnable, every timer interrupt hands the
  processor to the next one in the list, and after the last the first follows: after \<open>n\<close> interrupts it
  is \<open>n\<close> places on, so each process gets its turn within as many interrupts as there are processes.\<close>

theorem schedule_round_robin:
  assumes "is_init_process s" "proc_list s (h # ps)" "\<forall>p\<in>set ps. runnable s p"
    and "i < length ps" "current_process_running s = ps ! i"
  shows "\<exists>t. for_each rs (\<lambda>regs s. bind (schedule regs s) (\<lambda>_ s. Ret () s)) s = Ret () t \<and>
    current_process_running t = ps ! ((i + length rs) mod length ps) \<and> proc_list t (h # ps)"
  using assms
proof (induction rs arbitrary: s i)
  case Nil
  then show ?case by simp
next
  case (Cons r rs)
  let ?j = "Suc i mod length ps"
  have j: "?j < length ps" using Cons.prems(4) by (intro mod_less_divisor) auto
  have turns: "turns (h # ps) (Suc i) = drop (Suc i) ps @ take (Suc i) ps" by (simp add: turns_def)
  obtain q qs where t: "turns (h # ps) (Suc i) = q # qs" "q = ps ! ?j"
  proof (cases "Suc i < length ps")
    case True
    then have "turns (h # ps) (Suc i) = ps ! Suc i # (drop (Suc (Suc i)) ps @ take (Suc i) ps)"
      by (simp add: turns Cons_nth_drop_Suc [symmetric])
    with True that show thesis by simp
  next
    case False
    then have "Suc i = length ps" using Cons.prems(4) by simp
    then have "turns (h # ps) (Suc i) = ps ! ?j # tl ps" unfolding turns by (cases ps) auto
    then show thesis using that by blast
  qed
  have run: "runnable s q" using Cons.prems(3) j by (simp add: t(2))
  have f: "find (runnable s) (turns (h # ps) (Suc i)) = Some q" using run by (simp add: t(1))
  have at: "Suc i < length (h # ps)" "current_process_running s = (h # ps) ! Suc i" using Cons.prems(4,5) by simp_all
  note sch = schedule_run [OF Cons.prems(1,2) at f, of r]
  note k = saved_frame [OF Cons.prems(2) at]
  let ?t = "saved r s\<lparr>current_process_running := q, cr3 := file_get P_page_dir q s - KERNEL_START, vfs_fd_table := file_get P_fd_table q s\<rparr>"
  have "proc_list ?t (h # ps)" using k(2) by (rule proc_list_cong) simp_all
  moreover have "is_init_process ?t" using Cons.prems(1) by (simp add: saved_def)
  moreover have "\<forall>p\<in>set ps. runnable ?t p" using Cons.prems(3) by (simp add: k(1) P_state_def)
  ultimately have "\<exists>u. for_each rs (\<lambda>regs s. bind (schedule regs s) (\<lambda>_ s. Ret () s)) ?t = Ret () u \<and>
      current_process_running u = ps ! ((?j + length rs) mod length ps) \<and> proc_list u (h # ps)"
    by (intro Cons.IH) (simp_all add: j t(2))
  moreover have "(?j + length rs) mod length ps = (i + length (r # rs)) mod length ps" by (simp add: mod_add_left_eq)
  ultimately show ?case using sch by simp
qed

section \<open>Two processes\<close>

text \<open>The idle process and two others, at the addresses the kernel heap could give them.\<close>

definition demo_memory :: memory where
  "demo_memory = fold (\<lambda>(a, v) m. store32 a v m)
     [(0xD0000078, 0xD0000100), (0xD0000104, 1), (0xD0000178, 0xD0000200), (0xD000017C, 0xD0000000),
      (0xD0000204, 1), (0xD0000228, 0xC0107000), (0xD000027C, 0xD0000100)] (\<lambda>_. 0)"

definition demo_processes :: "u32 \<Rightarrow> proc_state" where
  "demo_processes current = boot_kernel\<lparr>mem := demo_memory, is_init_process := True, process_head := 0xD0000000,
     current_process_running := current\<rparr>"

lemma demo_words:
  "map (load32 demo_memory) [0xD0000078, 0xD000007C, 0xD0000178, 0xD000017C, 0xD0000278, 0xD000027C] =
     [0xD0000100, 0, 0xD0000200, 0xD0000000, 0, 0xD0000100]"
  "map (load32 demo_memory) [0xD0000004, 0xD0000104, 0xD0000204, 0xD0000228] = [0, 1, 1, 0xC0107000]"
proof -
  have zero: "load32 (\<lambda>_. 0) a = 0" for a by (simp add: load32_def of_le32_def)
  show "map (load32 demo_memory) [0xD0000078, 0xD000007C, 0xD0000178, 0xD000017C, 0xD0000278, 0xD000027C] =
     [0xD0000100, 0, 0xD0000200, 0xD0000000, 0, 0xD0000100]"
    "map (load32 demo_memory) [0xD0000004, 0xD0000104, 0xD0000204, 0xD0000228] = [0, 1, 1, 0xC0107000]"
    by (simp_all add: demo_memory_def load32_store32_apart apart_def zero)
qed

lemma demo_list:
  "proc_list (demo_processes c) [0xD0000000, 0xD0000100, 0xD0000200]"
  "is_init_process (demo_processes c)" "current_process_running (demo_processes c) = c"
  "runnable (demo_processes c) 0xD0000100" "runnable (demo_processes c) 0xD0000200" "\<not> runnable (demo_processes c) 0xD0000000"
proof -
  have "apart (0xD0000000 :: u32) 128 0xD0000100 128" "apart (0xD0000000 :: u32) 128 0xD0000200 128"
    "apart (0xD0000100 :: u32) 128 0xD0000200 128" by (simp_all add: apart_def)
  note aps = this this [THEN apart_sym]
  show "proc_list (demo_processes c) [0xD0000000, 0xD0000100, 0xD0000200]"
    using demo_words(1) aps
    by (simp add: proc_list_def demo_processes_def file_get_def P_next_def P_prev_def All_less_Suc numeral_3_eq_3)
  show "is_init_process (demo_processes c)" "current_process_running (demo_processes c) = c"
    by (simp_all add: demo_processes_def)
  show "runnable (demo_processes c) 0xD0000100" "runnable (demo_processes c) 0xD0000200" "\<not> runnable (demo_processes c) 0xD0000000"
    using demo_words(2) by (simp_all add: demo_processes_def file_get_def P_state_def PROC_RUNNING_def)
qed

theorem schedule_next_runnable_witness:
  "\<exists>t. schedule 0xC0104000 (demo_processes 0xD0000100) = Ret 0xD0000234 t \<and> cr3 t = 0x107000"
proof -
  let ?s = "demo_processes 0xD0000100"
  have f: "find (runnable ?s) (turns [0xD0000000, 0xD0000100, 0xD0000200] 1) = Some 0xD0000200"
    using demo_list(5) by (simp add: turns_def)
  have "apart ([0xD0000000, 0xD0000100, 0xD0000200] ! 1 + P_regs) 68 0xC0104000 68" by (simp add: apart_def P_regs_def)
  from schedule_next_runnable [OF demo_list(2,1) _ _ _ this] demo_list(3,6) f obtain t where
    "schedule 0xC0104000 ?s = Ret (0xD0000200 + P_regs) t" "cr3 t = file_get P_page_dir 0xD0000200 ?s - KERNEL_START"
    by auto
  moreover have "file_get P_page_dir 0xD0000200 ?s = 0xC0107000"
    using demo_words(2) by (simp add: demo_processes_def file_get_def P_page_dir_def)
  ultimately show ?thesis by (simp add: P_regs_def)
qed

theorem schedule_round_robin_witness:
  "\<exists>t. for_each (replicate 5 0xC0104000) (\<lambda>regs s. bind (schedule regs s) (\<lambda>_ s. Ret () s)) (demo_processes 0xD0000100) = Ret () t \<and>
    current_process_running t = 0xD0000200"
proof -
  have "\<forall>p\<in>set [0xD0000100, 0xD0000200]. runnable (demo_processes 0xD0000100) p" using demo_list(4,5) by simp
  from schedule_round_robin [OF demo_list(2,1) this, of 0 "replicate 5 0xC0104000"]
  obtain t where t: "for_each (replicate 5 0xC0104000) (\<lambda>regs s. bind (schedule regs s) (\<lambda>_ s. Ret () s)) (demo_processes 0xD0000100) = Ret () t"
    "current_process_running t = [0xD0000100, 0xD0000200] ! ((0 + length (replicate 5 (0xC0104000 :: u32))) mod length [0xD0000100, 0xD0000200 :: u32])"
    using demo_list(3) by auto
  have "current_process_running t = 0xD0000200" using t(2) by (simp flip: numeral_2_eq_2)
  with t(1) show ?thesis by blast
qed

end
