(* ===== verification/Kernel.thy ===== *)
theory Kernel
  imports Process
begin

unbundle bit_operations_syntax

text \<open>
  Interrupts, system calls and the start of the kernel: \<^verbatim>\<open>ARCH/I386/isr.c\<close>, \<^verbatim>\<open>ARCH/I386/syscall.c\<close> and
  \<^verbatim>\<open>kernel.c\<close>. The state of the whole kernel is \<open>proc_state\<close>, the last record of the chain.
\<close>

section \<open>System calls\<close>

text \<open>The descriptor is an \<^verbatim>\<open>unsigned int\<close> that becomes the \<^verbatim>\<open>int\<close> of the VFS.\<close>

definition sys_write :: "u32 \<Rightarrow> u32 \<Rightarrow> u32 \<Rightarrow> 'a vfs_state_scheme \<Rightarrow> (unit, 'a vfs_state_scheme) res" where
  "sys_write fd st count s = bind (vfs_write (sint fd) st count s) (\<lambda>_ s. Ret () s)"

definition syscall_dispatcher :: "u32 \<Rightarrow> 'a vfs_state_scheme \<Rightarrow> (unit, 'a vfs_state_scheme) res" where
  "syscall_dispatcher regs s =
     (if file_get R_eax regs s = 4 then sys_write (file_get R_ebx regs s) (file_get R_ecx regs s) (file_get R_edx regs s) s
      else Ret () (print (str ''unknown syscall'') s))"

section \<open>Interrupts\<close>

text \<open>The array has 32 pointers and 24 initialisers; the others are null.\<close>

definition exception_names :: "bytes list" where
  "exception_names = map str
    [''Divide Error'', ''Debug Exception'', ''Non-Maskable Interrupt'', ''Breakpoint'', ''Overflow'', ''Bound Range Exceeded'',
     ''Invalid Opcode'', ''Device Not Available'', ''Double Fault'', ''Coprocessor Segment Overrun'', ''Invalid TSS'',
     ''Segment Not Present'', ''Stack Segment Fault'', ''General Protection Fault'', ''Page Fault'', ''Not an exception'',
     ''x87 Floating Point'', ''Alignment Check'', ''Machine Check'', ''SIMD Floating Point'', ''Virtualization Exception'',
     ''Not an exception'', ''Security Exception'', '''']"

definition isr_handler :: "u32 \<Rightarrow> 'a proc_state_scheme \<Rightarrow> (u32, 'a proc_state_scheme) res" where
  "isr_handler regs s =
     (let n = file_get R_intrupt_number regs s in
      if n < 32 then
        let s = print (str ''Exception: '') s in
        if unat n \<ge> length exception_names then Fault else
        let s = print (exception_names ! unat n) s;
            s = print (str ''\<newline>Error code: '') s;
            s = printh (file_get R_error_code regs s) s;
            s = print [10] s
        in kernel_panic s
      else if n = 0x80 then bind (syscall_dispatcher regs s) (\<lambda>_ s. Ret regs s)
      else if n = 33 then Ret regs (keyboard_handler s)
      else if n = 32 then schedule regs s
      else Ret regs s)"

section \<open>The start of the kernel\<close>

text \<open>The boot loader's structures are below the kernel half: they are read through the page tables.\<close>

definition get_word :: "u32 \<Rightarrow> 'a mm_state_scheme \<Rightarrow> (u32, 'a mm_state_scheme) res" where
  "get_word a s =
     bind (get_byte a s) (\<lambda>b0 s. bind (get_byte (a + 1) s) (\<lambda>b1 s.
     bind (get_byte (a + 2) s) (\<lambda>b2 s. bind (get_byte (a + 3) s) (\<lambda>b3 s. Ret (of_le32 b0 b1 b2 b3) s))))"

definition MULTIBOOT_MEMORY_AVAILABLE :: u32 where "MULTIBOOT_MEMORY_AVAILABLE = 1"

record multiboot_mmap_entry =
  mmap_size :: u32
  mmap_addr_low :: u32
  mmap_addr_high :: u32
  mmap_len_low :: u32
  mmap_len_high :: u32
  mmap_type :: u32

definition mmap_entry_at :: "u32 \<Rightarrow> 'a mm_state_scheme \<Rightarrow> (multiboot_mmap_entry, 'a mm_state_scheme) res" where
  "mmap_entry_at a s =
     bind (get_word a s) (\<lambda>sz s. bind (get_word (a + 4) s) (\<lambda>al s. bind (get_word (a + 8) s) (\<lambda>ah s.
     bind (get_word (a + 12) s) (\<lambda>ll s. bind (get_word (a + 16) s) (\<lambda>lh s. bind (get_word (a + 20) s) (\<lambda>ty s.
     Ret \<lparr>mmap_size = sz, mmap_addr_low = al, mmap_addr_high = ah, mmap_len_low = ll, mmap_len_high = lh, mmap_type = ty\<rparr> s))))))"

definition mmap_step :: "u32 \<times> u32 \<Rightarrow> 'a mm_state_scheme \<Rightarrow> (u32 \<times> u32, 'a mm_state_scheme) res" where
  "mmap_step l s =
     (case l of (mmap, mem_high) \<Rightarrow>
        bind (mmap_entry_at mmap s) (\<lambda>e s.
        let end_addr = mmap_addr_low e + mmap_len_low e in
        Ret (mmap + mmap_size e + 4,
          if mmap_type e = MULTIBOOT_MEMORY_AVAILABLE \<and> end_addr > mem_high then end_addr else mem_high) s))"

definition find_mem_high :: "u32 \<Rightarrow> 'a mm_state_scheme \<Rightarrow> (u32, 'a mm_state_scheme) res" where
  "find_mem_high boot_info s =
     bind (get_word boot_info s) (\<lambda>flags s.
     bind (if flags AND push_bit 6 1 \<noteq> 0 then
             bind (get_word (boot_info + 48) s) (\<lambda>mmap_addr s.
             bind (get_word (boot_info + 44) s) (\<lambda>mmap_length s.
             bind (loop (\<lambda>(mmap, _) s. mmap < mmap_addr + mmap_length) mmap_step (mmap_addr, 0) s) (\<lambda>(_, mem_high) s.
             Ret mem_high s)))
           else Ret 0 s) (\<lambda>mem_high s.
     Ret (if mem_high = 0 then 0x10000000 else mem_high) s))"

text \<open>The places the linker and the assembly files give to tables, stubs and strings.\<close>

record image =
  im_gdt :: u32
  im_tss :: u32
  im_stack_top :: u32
  im_idt :: u32
  im_isr :: "nat \<Rightarrow> u32"
  im_kernel_end :: u32
  im_elf :: u32
  im_elf2 :: u32

text \<open>\<^verbatim>\<open>kmain\<close> up to the idle loop, which a normal return stands for.\<close>

definition kmain :: "image \<Rightarrow> u32 \<Rightarrow> u32 \<Rightarrow> 'a proc_state_scheme \<Rightarrow> (unit, 'a proc_state_scheme) res" where
  "kmain im magic boot_info s =
     (let s = vga_reset s;
          s = enable_cursor 0x0C 0x0F s in
      if magic \<noteq> 0x2BADB002 then kernel_panic (print (str ''magic is not equal 0x1BADB002'') s) else
      bind (init_gdt (im_gdt im) (im_tss im) (im_stack_top im) s) (\<lambda>_ s.
      let s = init_idt (im_idt im) (im_isr im) s;
          kernel_end_phys = im_kernel_end im - KERNEL_START;
          physical_alloc_start = (kernel_end_phys + 0x1000) AND NOT 0xFFF in
      bind (find_mem_high boot_info s) (\<lambda>mem_high s.
      let s = init_memory mem_high physical_alloc_start s in
      bind (kmalloc_init s) (\<lambda>_ s.
      bind (init_ext3 s) (\<lambda>_ s.
      bind (init_fat32 s) (\<lambda>_ s.
      bind (init_vfs s) (\<lambda>_ s.
      bind (init_process s) (\<lambda>_ s.
      bind (create_process (im_elf im) s) (\<lambda>process s.
      if process = 0 then kernel_panic s else
      bind (create_process (im_elf2 im) s) (\<lambda>process2 s.
      if process2 = 0 then kernel_panic s else Ret () s))))))))))"

end
