(* ===== verification/System_Calls.thy ===== *)
theory System_Calls
  imports Structs Kernel
begin

unbundle bit_operations_syntax

text \<open>
  The one system call, \<^verbatim>\<open>write\<close>, from the interrupt to the console.
\<close>

text \<open>The byte a running program sees at an address: in the kernel half the byte of kernel memory, below it
  the byte of the frame that the page tables lead to.\<close>

definition seen_byte :: "'a mm_state_scheme \<Rightarrow> u32 \<Rightarrow> u8 option" where
  "seen_byte s a =
     (if KERNEL_START \<le> a then Some (mem s a)
      else map_option (\<lambda>pa. ucast (drop_bit (8 * (unat pa mod 4)) (pmem s (pa - pa mod 4)))) (translate (pmem s) (cr3 s) a))"

lemma word_parts: "(a :: u32) AND 3 = a mod 4" "a AND NOT 3 = a - a mod 4"
proof -
  have "a AND 3 = take_bit 2 a" by (simp add: take_bit_eq_mask mask_eq_exp_minus_1)
  then show m: "a AND 3 = a mod 4" by (simp add: take_bit_eq_mod)
  have "a - (a AND 3) = a AND NOT (a AND 3)" by (rule disjunctive_diff) (simp add: bit_simps)
  also have "\<dots> = a AND NOT 3" by (rule bit_eqI) (auto simp: bit_simps)
  finally show "a AND NOT 3 = a - a mod 4" by (simp only: m)
qed

lemma get_byte_seen: "get_byte a s = (case seen_byte s a of None \<Rightarrow> Fault | Some b \<Rightarrow> Ret b s)"
proof -
  have "unat (pa mod 4) = unat pa mod 4" for pa :: u32 by (simp add: unat_mod)
  then show ?thesis by (auto simp: get_byte_def seen_byte_def frame_byte_def word_parts [simplified] split: option.split)
qed

lemma seen_console:
  assumes "console_step s t"
  shows "seen_byte t = seen_byte s"
proof -
  have "seen_byte (s\<lparr>dev := d, vga := v, vga_colomn := c, vga_row := r\<rparr>) = seen_byte s" for d v c r
    by (simp add: seen_byte_def fun_eq_iff)
  then show ?thesis by (subst console_step_form [OF assms])
qed

lemma write_loop_run:
  assumes "console_step s t"
  shows "for_each is (\<lambda>i s. bind (get_byte (f i) s) (\<lambda>c s. Ret () (printc c s))) t =
    (case those (map (\<lambda>i. seen_byte s (f i)) is) of None \<Rightarrow> Fault | Some bs \<Rightarrow> Ret () (fold printc bs t))"
  using assms
proof (induction "is" arbitrary: t)
  case (Cons i "is")
  then show ?case
    using Cons.IH [of "printc c t" for c] by (auto simp: get_byte_seen seen_console split: option.split)
qed simp

section \<open>A program that writes\<close>

text \<open>A program whose page at \<^verbatim>\<open>0x1000\<close> begins with \<^verbatim>\<open>Hi\<close> calls \<^verbatim>\<open>write (1, 0x1000, 2)\<close>.\<close>

definition demo_frames :: "u32 \<Rightarrow> u32" where
  "demo_frames = (\<lambda>_. 0)(0x101000 := 0x102007, 0x102004 := 0x103007, 0x103000 := 0x6948)"

definition demo_program :: proc_state where
  "demo_program = boot_kernel\<lparr>mem := store32 0xC0104028 0x80 (store32 0xC0104024 4 (store32 0xC0104018 1
       (store32 0xC0104020 0x1000 (store32 0xC010401C 2 (\<lambda>_. 0))))),
     pmem := demo_frames, cr3 := 0x101000, vfs_fd_table := 0xD0001000\<rparr>"

lemma demo_program:
  "file_get R_intrupt_number 0xC0104000 demo_program = 0x80" "file_get R_eax 0xC0104000 demo_program = 4"
  "file_get R_ebx 0xC0104000 demo_program = 1" "file_get R_ecx 0xC0104000 demo_program = 0x1000"
  "file_get R_edx 0xC0104000 demo_program = 2" "vfs_fd_table demo_program \<noteq> 0"
  by (simp_all add: demo_program_def file_get_def register_fields load32_store32_apart apart_def)

lemma demo_program_bytes: "seen_byte demo_program 0x1000 = Some 0x48" "seen_byte demo_program 0x1001 = Some 0x69"
proof -
  have "translate demo_frames 0x101000 0x1000 = Some 0x103000" "translate demo_frames 0x101000 0x1001 = Some 0x103001"
    by code_simp+
  then show "seen_byte demo_program 0x1000 = Some 0x48" "seen_byte demo_program 0x1001 = Some 0x69"
    by (simp_all add: demo_program_def seen_byte_def demo_frames_def)
qed

section \<open>The property\<close>




end
