(* ===== verification/Spec2Isabelle.thy ===== *)
theory Spec2Isabelle
  imports Utill Vga Keyboard Descriptors Pmm Paging Heap_Clients Disk Fat32_Alloc Ext3_Paths File_Table
    Scheduler System_Calls
begin

text \<open>
  \<^bold>\<open>A verification library for the cl-os kernel.\<close>

  cl-os is a 32-bit x86 kernel in C (\<^verbatim>\<open>src/src/kernel\<close>): a text console and keyboard driver, descriptor tables,
  a frame allocator with paging, a kernel heap, a polling ATA driver, FAT32 and ext3 under a virtual
  file system, an ELF loader, a round-robin scheduler and one system call. \<^verbatim>\<open>kmain\<close> initialises them in
  this order and creates two processes; after that everything happens in interrupt handlers.

  \<^bold>\<open>How the program is modelled.\<close> Every C function is a HOL function of the same name on an explicit state.
  The state is a chain of records, one per component, each with the file-scope variables of its C
  file: \<open>machine\<close> (devices and byte memory), \<open>vga_state\<close>, \<open>keyboard_state\<close>, \<open>table_state\<close>, \<open>mm_state\<close> (with the
  32-bit words of physical memory and \<open>cr3\<close>), \<open>heap_state\<close>, \<open>fat32_state\<close>, \<open>ext3_state\<close>, \<open>vfs_state\<close> and \<open>proc_state\<close>. An
  operation is polymorphic in the rest of the chain, so that it can be called from every later
  component. The C integers are words of their width; a C \<^verbatim>\<open>int\<close> is an \<open>int\<close> where the code keeps it small. Functions
  that can panic, use a null or unmapped pointer, or not return yield \<open>res\<close>: \<open>Ret\<close>, \<open>Panic\<close>, \<open>Fault\<close>, \<open>Hang\<close>.
  Loops are recursions over the range they count; a loop whose end depends on the data is \<open>loop\<close>, built
  on \<open>while_option\<close>, with the value \<open>Hang\<close> if it does not end. No fuel is used, so a theorem with the
  result \<open>Ret\<close> says that the code returns.

  \<^bold>\<open>Memory.\<close> \<open>mem\<close> is the byte memory of the kernel half, where heap headers, buffers, file handles,
  descriptor tables and process descriptors lie at the offsets of their C structures. Page
  tables are words of \<open>pmem\<close>, and the code reaches them through the recursive slot as the processor
  does: \<open>vread\<close> and \<open>vwrite\<close> walk the two levels from \<open>cr3\<close>. User memory is read and written through \<open>translate\<close> too.

  \<^bold>\<open>The theories.\<close>
  \<^item> \<open>Prelude\<close>: results, loops, words as numbers, byte memory; \<open>Machine\<close>: ports as values of the codatatype \<open>iodev\<close>,
    \<^verbatim>\<open>memcpy\<close> and \<^verbatim>\<open>memset\<close>; \<open>Utill\<close>: the string routines against list functions.
  \<^item> \<open>Vga\<close>, \<open>Keyboard\<close>: \<^verbatim>\<open>DRIVER/vga.c\<close>, \<^verbatim>\<open>cursor.c\<close>, \<^verbatim>\<open>keyboard.c\<close>. What the console writes and shows, with a model of the cursor
    registers of the controller; the modifier keys as a state machine.
  \<^item> \<open>Descriptors\<close>: \<^verbatim>\<open>ARCH/I386/gdt.c\<close>, \<^verbatim>\<open>gdt.s\<close>, \<^verbatim>\<open>tss.c\<close>, \<^verbatim>\<open>tss.s\<close>, \<^verbatim>\<open>idt.c\<close>. The segments and gates as the processor decodes the bytes written.
  \<^item> \<open>Pmm\<close>, \<open>Paging\<close>: \<^verbatim>\<open>MM/memory.c\<close>. Frames are pairwise distinct; \<^verbatim>\<open>mem_map_page\<close> and \<^verbatim>\<open>mem_unmap_page\<close> refine updates of
    the address space, a partial function; page directories and the copying between them.
  \<^item> \<open>Heap\<close>, \<open>Heap_Clients\<close>: \<^verbatim>\<open>MM/heap.c\<close>. \<^verbatim>\<open>kmalloc\<close> and \<^verbatim>\<open>kfree\<close> refine first fit and coalescing on the list of block
    sizes; growing through \<^verbatim>\<open>mem_map_page\<close>; safety of every run of allocations, writes and frees.
  \<^item> \<open>Disk\<close>: \<^verbatim>\<open>DRIVER/disk.c\<close>, for any device and against a model of an ATA controller; \<open>Buffers\<close>: heap buffers and sectors together.
  \<^item> \<open>Fat32\<close>: \<^verbatim>\<open>DRIVER/fat32.c\<close>; \<open>Fat32_Correct\<close>, \<open>Fat32_Alloc\<close>: paths, files and the allocation table against the sectors on the disk.
  \<^item> \<open>Ext3\<close>: \<^verbatim>\<open>DRIVER/ext3.c\<close>; \<open>Ext3_Blocks\<close>, \<open>Ext3_Paths\<close>: blocks, inodes, directories, paths and files against the sectors.
  \<^item> \<open>Vfs\<close>: \<^verbatim>\<open>FS/vfs.c\<close>; \<open>File_Table\<close>: opening and closing descriptors.
  \<^item> \<open>Process\<close>: \<^verbatim>\<open>PROC/elf.c\<close>, \<^verbatim>\<open>PROC/process.c\<close>; \<open>Structs\<close>: structures in byte memory; \<open>Scheduler\<close>: the process list, its numbers, and round robin.
  \<^item> \<open>Kernel\<close>: \<^verbatim>\<open>ARCH/I386/isr.c\<close>, \<^verbatim>\<open>syscall.c\<close>, \<^verbatim>\<open>kernel.c\<close>; \<open>System_Calls\<close>: \<^verbatim>\<open>write\<close> from the interrupt to the console.

  \<^bold>\<open>Interfaces.\<close> Where a component relies on another, the contract is a locale, and an interpretation
  discharges it for the code: \<open>id_allocator\<close> and \<open>id_pool\<close> (distinct numbers from a pool) hold for frames
  (\<open>pmm\<close>), page-directory slots (\<open>vmm\<close>) and process numbers (\<open>pid\<close>); \<open>block_device\<close> (sectors read are the sectors written) for
  the disk driver (\<open>disk\<close>); \<open>buffer_allocator\<close> (buffers are disjoint, keep their contents and can be freed) for the
  heap (\<open>heap\<close>). The file-system proofs use the last two through theory \<open>Buffers\<close>.

  \<^bold>\<open>Invariants and bounds.\<close> \<open>pmm_inv\<close>: the bitmap has a bit for each of the 65536 frames, and
  the limits are in range. \<open>paging_inv\<close>: the current directory maps itself in its last slot, its tables are frames in use and no two slots share one. \<open>heap_inv\<close>: the headers in memory form
  the list of blocks from \<open>0xD0000000\<close>, of at most \<open>0x2FC00000\<close> bytes (up to the recursive slot). \<open>fs_inv\<close>: heap and device together. Sector
  numbers are below \<open>2\<^sup>2\<^sup>8\<close>, as LBA28 has it. \<open>can_take\<close> says that the buffers an operation needs fit into the free blocks.

  \<^bold>\<open>Not modelled.\<close> The assembly stubs of \<^verbatim>\<open>isr.s\<close> and \<^verbatim>\<open>boot.s\<close>, whose effect is an assumption on the state; interrupts inside
  kernel code (the handlers run with interrupts off, and \<^verbatim>\<open>kmain\<close> is taken as one run); stale entries of the translation
  buffer; that the pages of the heap are present at each access to \<open>mem\<close> (shown for the page tables when the heap grows); the
  nested exception of an access that is a \<open>Fault\<close>.
\<close>

end
